(* ===== verification/Prelude.thy ===== *)
theory Prelude
  imports
    Main
    "HOL-Library.Word"
    "HOL-Library.Char_ord"
    "HOL-Library.List_Lexorder"
    "HOL-Library.Product_Lexorder"
    "HOL-Library.Option_ord"
    "HOL-Library.Multiset"
begin

text \<open>
  What every component shares.

  \<^item> The machine integers of the Rust sources as words of their width, with the saturating
    and checked operations of the standard library, and the plain \<open>+\<close> whose overflow panics
    in a build with overflow checks and wraps around in a build without them.
  \<^item> Rust results. \<open>Result<T, KernelXError>\<close> is \<open>'a outcome\<close>, which has a third case
    for a panic; \<open>Result<T, String>\<close> is \<open>'a text_outcome\<close>, or the sum \<open>string + 'a\<close> where the
    code has nothing that panics.
  \<^item> A Rust \<open>String\<close> is the list of its UTF-8 bytes (\<open>string\<close>, a list of 8-bit characters),
    so that \<open>len\<close>, \<open>as_bytes\<close> and the order of two strings are those of Rust. Trimming,
    ASCII case mapping and the decimal printing and parsing of integers follow the standard library.
  \<^item> A \<open>BTreeMap\<close> is the association list of its entries in key order.
\<close>

section \<open>Machine integers\<close>

type_synonym u8 = "8 word"
type_synonym u16 = "16 word"
type_synonym u32 = "32 word"
type_synonym u64 = "64 word"
type_synonym u128 = "128 word"
type_synonym bytes = "u8 list"

named_theorems arith_word \<open>the value, read as a natural number, of an operation on words\<close>

definition saturating_add :: "'a::len word \<Rightarrow> 'a word \<Rightarrow> 'a word" where
  "saturating_add a b = (if unat a + unat b < 2 ^ LENGTH('a) then a + b else - 1)"

definition saturating_sub :: "'a::len word \<Rightarrow> 'a word \<Rightarrow> 'a word" where
  "saturating_sub a b = (if a < b then 0 else a - b)"

definition saturating_mul :: "'a::len word \<Rightarrow> 'a word \<Rightarrow> 'a word" where
  "saturating_mul a b = (if unat a * unat b < 2 ^ LENGTH('a) then a * b else - 1)"

definition checked_add :: "'a::len word \<Rightarrow> 'a word \<Rightarrow> 'a word option" where
  "checked_add a b = (if unat a + unat b < 2 ^ LENGTH('a) then Some (a + b) else None)"

lemma unat_all_ones: "unat (- 1 :: 'a::len word) = 2 ^ LENGTH('a) - 1"
  by (simp add: unsigned_minus_1_eq_mask mask_eq_exp_minus_1)

lemma unat_bound: "unat (a :: 'a::len word) < 2 ^ LENGTH('a)"
  by (rule unsigned_less)

lemma unat_saturating_add [arith_word]:
  "unat (saturating_add a b) = min (unat a + unat b) (2 ^ LENGTH('a) - 1)"
  for a b :: "'a::len word"
  by (simp add: saturating_add_def unat_all_ones unat_word_ariths)

lemma unat_saturating_sub [arith_word]:
  "unat (saturating_sub a b) = unat a - unat b" for a b :: "'a::len word"
  by (auto simp: saturating_sub_def word_less_nat_alt unat_sub word_le_nat_alt not_less)

lemma unat_saturating_mul [arith_word]:
  "unat (saturating_mul a b) = min (unat a * unat b) (2 ^ LENGTH('a) - 1)"
  for a b :: "'a::len word"
  by (simp add: saturating_mul_def unat_all_ones unat_word_ariths)

lemma checked_add_Some [arith_word]:
  "checked_add a b = Some c \<longleftrightarrow> unat a + unat b < 2 ^ LENGTH('a) \<and> c = a + b"
  for a b :: "'a::len word"
  by (auto simp: checked_add_def)

lemma unat_add_no_overflow:
  "unat a + unat b < 2 ^ LENGTH('a) \<Longrightarrow> unat (a + b) = unat a + unat b" for a b :: "'a::len word"
  by (simp add: unat_word_ariths)

section \<open>Results\<close>

text \<open>The variants of \<open>KernelXError\<close> (\<^verbatim>\<open>src/src/error.rs\<close>), in its order.\<close>

datatype kernel_error =
    ZeroNormalization
  | NotCertified
  | InvalidState string
  | SignatureError
  | WalletNotFound
  | VectorNotFound
  | InsufficientBalance
  | DimensionMismatch
  | Rejected string
  | StorageError string
  | OriginRejected
  | SettlementRejected string
  | ReplayError string
  | SnapshotError string
  | SerializationError string
  | ValidationError string

text \<open>The \<open>Display\<close> text that \<open>thiserror\<close> derives from the attribute of each variant.\<close>

fun error_to_string :: "kernel_error \<Rightarrow> string" where
  "error_to_string ZeroNormalization = ''zero vector cannot be normalized''"
| "error_to_string NotCertified = ''vector not certified''"
| "error_to_string (InvalidState m) = ''invalid vector state: '' @ m"
| "error_to_string SignatureError = ''signature verification failed''"
| "error_to_string WalletNotFound = ''wallet not found''"
| "error_to_string VectorNotFound = ''vector not found''"
| "error_to_string InsufficientBalance = ''insufficient balance''"
| "error_to_string DimensionMismatch = ''dimension mismatch''"
| "error_to_string (Rejected m) = ''operation rejected: '' @ m"
| "error_to_string (StorageError m) = ''storage error: '' @ m"
| "error_to_string OriginRejected = ''origin proof rejected''"
| "error_to_string (SettlementRejected m) = ''settlement rejected: '' @ m"
| "error_to_string (ReplayError m) = ''replay failed: '' @ m"
| "error_to_string (SnapshotError m) = ''snapshot error: '' @ m"
| "error_to_string (SerializationError m) = ''serialization error: '' @ m"
| "error_to_string (ValidationError m) = ''validation error: '' @ m"

text \<open>
  The result of a Rust function of type \<open>Result<T, E>\<close> that may also panic; \<open>outcome\<close> is the one
  with a \<open>KernelXError\<close>, \<open>text_outcome\<close> the one with a \<open>String\<close> for its error. \<open>and_then\<close> is the
  \<open>?\<close> operator: the first error or panic ends the function.
\<close>

datatype ('e, 'a) result = Ok 'a | Err 'e | Panicked

type_synonym 'a outcome = "(kernel_error, 'a) result"
type_synonym 'a text_outcome = "(string, 'a) result"

fun and_then :: "('e, 'a) result \<Rightarrow> ('a \<Rightarrow> ('e, 'b) result) \<Rightarrow> ('e, 'b) result" where
  "and_then (Ok x) f = f x"
| "and_then (Err e) f = Err e"
| "and_then Panicked f = Panicked"

fun map_ok :: "('a \<Rightarrow> 'b) \<Rightarrow> ('e, 'a) result \<Rightarrow> ('e, 'b) result" where
  "map_ok f (Ok x) = Ok (f x)"
| "map_ok f (Err e) = Err e"
| "map_ok f Panicked = Panicked"

fun is_ok :: "('e, 'a) result \<Rightarrow> bool" where
  "is_ok (Ok _) = True"
| "is_ok _ = False"

lemma and_then_Ok_iff [simp]:
  "and_then m f = Ok y \<longleftrightarrow> (\<exists>x. m = Ok x \<and> f x = Ok y)"
  by (cases m) auto

lemma map_ok_Ok_iff [simp]: "map_ok f m = Ok y \<longleftrightarrow> (\<exists>x. m = Ok x \<and> y = f x)"
  by (cases m) auto

lemma option_ext: "(\<And>v. x = Some v \<longleftrightarrow> y = Some v) \<Longrightarrow> x = y"
  by (cases x; cases y) auto

lemma is_ok_iff: "is_ok m \<longleftrightarrow> (\<exists>x. m = Ok x)"
  by (cases m) auto

text \<open>The \<open>?\<close> operator for \<open>Result<T, String>\<close>, and \<open>map_err(KernelXError::InvalidState)\<close>.\<close>

fun bind_sum :: "'e + 'a \<Rightarrow> ('a \<Rightarrow> 'e + 'b) \<Rightarrow> 'e + 'b" where
  "bind_sum (Inl e) f = Inl e"
| "bind_sum (Inr x) f = f x"

lemma bind_sum_Inr_iff [simp]: "bind_sum m f = Inr y \<longleftrightarrow> (\<exists>x. m = Inr x \<and> f x = Inr y)"
  by (cases m) auto

fun map_err :: "('e \<Rightarrow> 'f) \<Rightarrow> 'e + 'a \<Rightarrow> ('f, 'a) result" where
  "map_err f (Inl e) = Err (f e)"
| "map_err f (Inr x) = Ok x"

lemma map_err_Ok_iff [simp]: "map_err f m = Ok x \<longleftrightarrow> m = Inr x"
  by (cases m) auto

text \<open>\<open>map_err\<close> of a result that may panic.\<close>

fun map_error :: "('e \<Rightarrow> 'f) \<Rightarrow> ('e, 'a) result \<Rightarrow> ('f, 'a) result" where
  "map_error f (Ok x) = Ok x"
| "map_error f (Err e) = Err (f e)"
| "map_error f Panicked = Panicked"

lemma map_error_Ok_iff [simp]: "map_error f m = Ok x \<longleftrightarrow> m = Ok x"
  by (cases m) auto

text \<open>\<open>ok_or\<close>, \<open>ok_or_else\<close>.\<close>

fun ok_or :: "'e \<Rightarrow> 'a option \<Rightarrow> ('e, 'a) result" where
  "ok_or e None = Err e"
| "ok_or e (Some x) = Ok x"

lemma ok_or_Ok_iff [simp]: "ok_or e m = Ok x \<longleftrightarrow> m = Some x"
  by (cases m) auto

text \<open>Where a panic comes from.\<close>

lemma and_then_Panicked:
  "and_then m f = Panicked \<longleftrightarrow> m = Panicked \<or> (\<exists>x. m = Ok x \<and> f x = Panicked)"
  by (cases m) auto

lemma not_panicked [simp]:
  "ok_or e m \<noteq> Panicked" "map_err g r \<noteq> Panicked"
  by (cases m; simp) (cases r; simp)

lemma map_panicked [simp]:
  "map_ok f m = Panicked \<longleftrightarrow> m = Panicked" "map_error g m = Panicked \<longleftrightarrow> m = Panicked"
  by (cases m; simp)+

definition guard :: "bool \<Rightarrow> 'e \<Rightarrow> ('e, unit) result" where
  "guard b e = (if b then Ok () else Err e)"

lemma guard_Ok_iff [simp]: "guard b e = Ok u \<longleftrightarrow> b"
  by (simp add: guard_def)

text \<open>
  The operator \<open>+\<close> on unsigned integers: with overflow checks (the development profile, and the
  one \<open>cargo test\<close> builds) an overflow panics, without them (the release profile) it wraps.
\<close>

definition plus_checked :: "bool \<Rightarrow> 'a::len word \<Rightarrow> 'a word \<Rightarrow> 'a word outcome" where
  "plus_checked chk a b =
     (if chk \<and> 2 ^ LENGTH('a) \<le> unat a + unat b then Panicked else Ok (a + b))"

lemma plus_checked_Ok:
  "plus_checked chk a b = Ok c \<longleftrightarrow> (chk \<longrightarrow> unat a + unat b < 2 ^ LENGTH('a)) \<and> c = a + b"
  for a b :: "'a::len word"
  by (auto simp: plus_checked_def)

lemma plus_checked_no_overflow [simp]:
  "unat a + unat b < 2 ^ LENGTH('a) \<Longrightarrow> plus_checked chk a b = Ok (a + b)" for a b :: "'a::len word"
  by (auto simp: plus_checked_def)

lemma plus_checked_not_Err [simp]: "plus_checked chk a b \<noteq> Err e"
  by (simp add: plus_checked_def)

text \<open>\<open>Iterator::sum\<close>, a left fold of that \<open>+\<close>.\<close>

fun sum_from :: "bool \<Rightarrow> 'a::len word \<Rightarrow> 'a word list \<Rightarrow> 'a word outcome" where
  "sum_from chk acc [] = Ok acc"
| "sum_from chk acc (x # xs) = and_then (plus_checked chk acc x) (\<lambda>acc'. sum_from chk acc' xs)"

definition nat_sum :: "'a::len word list \<Rightarrow> nat" where
  "nat_sum xs = sum_list (map unat xs)"

lemma nat_sum_simps [simp]:
  "nat_sum [] = 0"
  "nat_sum (x # xs) = unat x + nat_sum xs"
  "nat_sum (xs @ ys) = nat_sum xs + nat_sum ys"
  by (simp_all add: nat_sum_def)

lemma sum_from_exact:
  "unat acc + nat_sum xs < 2 ^ LENGTH('a) \<Longrightarrow>
     \<exists>s. sum_from chk acc xs = Ok s \<and> unat s = unat acc + nat_sum xs"
  for xs :: "'a::len word list"
proof (induction xs arbitrary: acc)
  case (Cons x xs)
  then have x: "unat (acc + x) = unat acc + unat x"
    by (simp add: unat_add_no_overflow)
  with Cons show ?case using Cons.IH [of "acc + x"] by (simp add: add.assoc)
qed simp

lemma sum_from_checked_Ok:
  "sum_from True acc xs = Ok s \<Longrightarrow> unat s = unat acc + nat_sum xs" for xs :: "'a::len word list"
  by (induction xs arbitrary: acc) (auto simp: plus_checked_Ok unat_add_no_overflow)

lemma sum_from_wraps: "sum_from False acc xs = Ok (acc + sum_list xs)"
  by (induction xs arbitrary: acc) (auto simp: plus_checked_def add.assoc)

lemma sum_from_not_Err [simp]: "sum_from chk acc xs \<noteq> Err e"
proof (induction xs arbitrary: acc)
  case (Cons x xs)
  then show ?case by (cases "plus_checked chk acc x") (auto dest: sym)
qed simp

lemma sum_from_checked_overflow:
  "2 ^ LENGTH('a) \<le> unat acc + nat_sum xs \<Longrightarrow> sum_from True acc xs = Panicked"
  for xs :: "'a::len word list"
proof -
  assume "2 ^ LENGTH('a) \<le> unat acc + nat_sum xs"
  then have "\<nexists>s. sum_from True acc xs = Ok s"
    using unat_bound by (metis leD sum_from_checked_Ok)
  then show ?thesis by (cases "sum_from True acc xs") auto
qed

end
