(* ===== verification/Rust_Text.thy ===== *)
theory Rust_Text
  imports Prelude
begin

text \<open>
  Rust strings and ordered maps.

  A \<open>string\<close> is the list of the UTF-8 bytes of a Rust \<open>String\<close>. The order of strings
  (\<open>HOL-Library.List_Lexorder\<close> over \<open>HOL-Library.Char_ord\<close>) is then the bytewise order of
  Rust's \<open>Ord\<close>, and \<open>length\<close> is Rust's \<open>len\<close>.
\<close>

section \<open>Bytes of a string\<close>

definition as_bytes :: "string \<Rightarrow> bytes" where
  "as_bytes s = map (\<lambda>c. of_nat (of_char c)) s"

definition from_bytes :: "bytes \<Rightarrow> string" where
  "from_bytes bs = map (\<lambda>b. char_of (unat b)) bs"

lemma from_bytes_as_bytes [simp]: "from_bytes (as_bytes s) = s"
  by (induction s) (simp_all add: from_bytes_def as_bytes_def unat_of_nat take_bit_eq_mod)

lemma length_as_bytes [simp]: "length (as_bytes s) = length s"
  by (simp add: as_bytes_def)

lemma as_bytes_append [simp]: "as_bytes (s @ t) = as_bytes s @ as_bytes t"
  by (simp add: as_bytes_def)

lemma as_bytes_Nil [simp]: "as_bytes [] = []"
  by (simp add: as_bytes_def)

lemma as_bytes_inject [simp]: "as_bytes s = as_bytes t \<longleftrightarrow> s = t"
  by (metis from_bytes_as_bytes)

section \<open>Trimming\<close>

text \<open>The UTF-8 encodings of the characters with the Unicode property \<open>White_Space\<close>.\<close>

definition white_space :: "string list" where
  "white_space = map (map char_of)
     ([[9], [10], [11], [12], [13], [32], [194, 133], [194, 160], [225, 154, 128],
       [226, 128, 128], [226, 128, 129], [226, 128, 130], [226, 128, 131], [226, 128, 132],
       [226, 128, 133], [226, 128, 134], [226, 128, 135], [226, 128, 136], [226, 128, 137],
       [226, 128, 138], [226, 128, 168], [226, 128, 169], [226, 128, 175], [226, 129, 159],
       [227, 128, 128]] :: nat list list)"

text \<open>The length of the first of the patterns that starts the string, 0 where none does.\<close>

fun leading :: "string list \<Rightarrow> string \<Rightarrow> nat" where
  "leading [] s = 0"
| "leading (p # ps) s = (if take (length p) s = p then length p else leading ps s)"

lemma leading_le: "leading ps s \<le> length s"
  by (induction ps) (auto, metis length_take min.cobounded1)

function trim_with :: "string list \<Rightarrow> string \<Rightarrow> string" where
  "trim_with ps s = (if leading ps s = 0 then s else trim_with ps (drop (leading ps s) s))"
  by pat_completeness auto
termination
proof (relation "measure (\<lambda>(ps, s). length s)")
  fix ps s
  assume "leading ps s \<noteq> 0"
  then show "((ps, drop (leading ps s) s), ps, s) \<in> measure (\<lambda>(ps, s). length s)"
    using leading_le [of ps s] by auto
qed auto

declare trim_with.simps [simp del]

definition trim_start :: "string \<Rightarrow> string" where
  "trim_start s = trim_with white_space s"

definition trim_end :: "string \<Rightarrow> string" where
  "trim_end s = rev (trim_with (map rev white_space) (rev s))"

definition trim :: "string \<Rightarrow> string" where
  "trim s = trim_end (trim_start s)"

lemma leading_trim_with: "leading ps (trim_with ps s) = 0"
proof (induction ps s rule: trim_with.induct)
  case (1 ps s)
  then show ?case by (subst trim_with.simps) (auto simp: trim_with.simps [of ps s])
qed

lemma trim_with_suffix: "\<exists>u. s = u @ trim_with ps s"
proof (induction ps s rule: trim_with.induct)
  case (1 ps s)
  show ?case
  proof (cases "leading ps s = 0")
    case True
    then show ?thesis by (simp add: trim_with.simps [of ps s])
  next
    case False
    with 1 obtain u where "drop (leading ps s) s = u @ trim_with ps (drop (leading ps s) s)"
      by blast
    with False have "drop (leading ps s) s = u @ trim_with ps s"
      by (simp add: trim_with.simps [of ps s])
    then have "s = (take (leading ps s) s @ u) @ trim_with ps s"
      by (metis append.assoc append_take_drop_id)
    then show ?thesis by blast
  qed
qed

lemma trim_with_id: "leading ps s = 0 \<Longrightarrow> trim_with ps s = s"
  by (subst trim_with.simps) simp

lemma leading_prefix: "leading ps (s @ t) = 0 \<Longrightarrow> leading ps s = 0"
proof (induction ps)
  case (Cons p ps)
  then show ?case
    by (cases "take (length p) s = p") (auto split: if_splits)
qed simp

lemma leading_trim_end_start: "leading white_space (trim_end (trim_start s)) = 0"
proof -
  obtain u where "rev (trim_start s) = u @ trim_with (map rev white_space) (rev (trim_start s))"
    using trim_with_suffix by blast
  then have "trim_start s = trim_end (trim_start s) @ rev u"
    unfolding trim_end_def by (metis rev_append rev_rev_ident)
  moreover have "leading white_space (trim_start s) = 0"
    by (simp add: trim_start_def leading_trim_with)
  ultimately show ?thesis by (metis leading_prefix)
qed

lemma trim_idem [simp]: "trim (trim s) = trim s"
proof -
  have "trim_start (trim s) = trim s"
    using leading_trim_end_start [of s] unfolding trim_def
    by (simp only: trim_start_def [of "trim_end (trim_start s)"] trim_with_id)
  moreover have "trim_end (trim s) = trim s"
    by (simp add: trim_def trim_end_def trim_with_id leading_trim_with)
  ultimately show ?thesis by (simp add: trim_def)
qed

lemma trim_Nil [simp]: "trim [] = []"
  by (simp add: trim_def trim_start_def trim_end_def trim_with.simps white_space_def)

text \<open>A byte that neither starts nor ends the encoding of a white-space character.\<close>

definition solid :: "char \<Rightarrow> bool" where
  "solid c \<longleftrightarrow> 33 \<le> (of_char c :: nat) \<and> (of_char c :: nat) < 127"

lemma white_space_ends:
  "list_all (\<lambda>p. p \<noteq> [] \<and> \<not> solid (hd p) \<and> \<not> solid (last p)) white_space"
  by (simp add: white_space_def solid_def)

lemma leading_other_head:
  "list_all (\<lambda>p. p \<noteq> [] \<and> hd p \<noteq> c) ps \<Longrightarrow> leading ps (c # s) = 0"
proof (induction ps)
  case (Cons p ps)
  then show ?case by (cases p) auto
qed simp

lemma leading_solid: "solid c \<Longrightarrow> leading white_space (c # s) = 0"
  using white_space_ends by (intro leading_other_head) (auto simp: list_all_iff)

lemma leading_rev_solid: "solid c \<Longrightarrow> leading (map rev white_space) (c # s) = 0"
  using white_space_ends by (intro leading_other_head) (auto simp: list_all_iff hd_rev)

lemma trim_solid: "solid c \<Longrightarrow> solid d \<Longrightarrow> trim (c # s @ [d]) = c # s @ [d]"
  by (simp add: trim_def trim_start_def trim_end_def trim_with_id leading_solid leading_rev_solid)

lemma trim_solid_single: "solid c \<Longrightarrow> trim [c] = [c]"
  by (simp add: trim_def trim_start_def trim_end_def trim_with_id leading_solid leading_rev_solid)

lemma trim_all_solid: "list_all solid s \<Longrightarrow> trim s = s"
proof (cases s)
  case (Cons c t)
  assume "list_all solid s"
  with Cons show ?thesis
    by (cases t rule: rev_cases) (auto simp: trim_solid trim_solid_single)
qed simp

lemma leading_matches:
  "leading ps v \<noteq> 0 \<Longrightarrow> \<exists>p \<in> set ps. take (length p) v = p \<and> leading ps v = length p"
  by (induction ps) (auto split: if_splits)

lemma trim_with_keeps_last:
  "list_all (\<lambda>p. p \<noteq> [] \<and> last p \<noteq> c) ps \<Longrightarrow> trim_with ps (t @ [c]) \<noteq> []"
proof (induction "length t" arbitrary: t rule: less_induct)
  case less
  show ?case
  proof (cases "leading ps (t @ [c]) = 0")
    case True
    then show ?thesis by (simp add: trim_with_id)
  next
    case False
    then obtain p where p: "p \<in> set ps" "take (length p) (t @ [c]) = p"
      and n: "leading ps (t @ [c]) = length p"
      using leading_matches by blast
    have "length p \<le> length t"
    proof (rule ccontr)
      assume "\<not> length p \<le> length t"
      with p(2) have "p = t @ [c]" by (metis leading_le length_append_singleton n not_less_eq_eq
            order_antisym take_all_iff)
      with p(1) less.prems show False by (auto simp: list_all_iff)
    qed
    moreover from this False n have "length (drop (length p) t) < length t"
      by (cases p) auto
    ultimately have "trim_with ps (drop (length p) t @ [c]) \<noteq> []"
      using less.hyps less.prems by blast
    with False n \<open>length p \<le> length t\<close> show ?thesis
      by (subst trim_with.simps) simp
  qed
qed

lemma trim_solid_nonempty: "solid c \<Longrightarrow> trim (c # s) \<noteq> []"
  using white_space_ends trim_with_keeps_last [of c "map rev white_space" "rev s"]
  by (auto simp: trim_def trim_start_def trim_end_def trim_with_id leading_solid list_all_iff last_rev)

lemma leading_solid_kept:
  assumes "c \<in> set s" "\<forall>p \<in> set ps. c \<notin> set p"
  shows "c \<in> set (drop (leading ps s) s)"
proof (cases "leading ps s = 0")
  case False
  then obtain p where p: "p \<in> set ps" "take (length p) s = p" "leading ps s = length p"
    using leading_matches by blast
  then have "c \<notin> set (take (leading ps s) s)" using assms(2) by simp
  with assms(1) show ?thesis by (metis Un_iff append_take_drop_id set_append)
qed (use assms in simp)

lemma trim_with_kept:
  assumes "c \<in> set s" "\<forall>p \<in> set ps. c \<notin> set p"
  shows "c \<in> set (trim_with ps s)"
  using assms
proof (induction ps s rule: trim_with.induct)
  case (1 ps s)
  then show ?case
    using leading_solid_kept [OF 1(2,3)]
    by (cases "leading ps s = 0") (simp_all add: trim_with.simps [of ps s])
qed

text \<open>No byte of a white-space character is solid, so trimming keeps every solid byte.\<close>

lemma white_space_not_solid: "list_all (list_all (\<lambda>c. \<not> solid c)) white_space"
  by (simp add: white_space_def solid_def)

lemma trim_kept: "c \<in> set s \<Longrightarrow> solid c \<Longrightarrow> c \<in> set (trim s)"
  using white_space_not_solid
  by (auto simp: trim_def trim_start_def trim_end_def list_all_iff intro!: trim_with_kept)

lemma trim_not_blank: "c \<in> set s \<Longrightarrow> solid c \<Longrightarrow> trim s \<noteq> []"
  using trim_kept by fastforce

section \<open>ASCII case\<close>

definition ascii_lower :: "char \<Rightarrow> char" where
  "ascii_lower c = (let n = of_char c :: nat in if 65 \<le> n \<and> n \<le> 90 then char_of (n + 32) else c)"

definition ascii_upper :: "char \<Rightarrow> char" where
  "ascii_upper c = (let n = of_char c :: nat in if 97 \<le> n \<and> n \<le> 122 then char_of (n - 32) else c)"

definition to_ascii_lowercase :: "string \<Rightarrow> string" where
  "to_ascii_lowercase s = map ascii_lower s"

definition to_ascii_uppercase :: "string \<Rightarrow> string" where
  "to_ascii_uppercase s = map ascii_upper s"

lemma ascii_lower_idem [simp]: "ascii_lower (ascii_lower c) = ascii_lower c"
  by (simp add: ascii_lower_def Let_def)

lemma ascii_upper_idem [simp]: "ascii_upper (ascii_upper c) = ascii_upper c"
proof (cases "97 \<le> (of_char c :: nat) \<and> (of_char c :: nat) \<le> 122")
  case True
  then have "((of_char c :: nat) - 32) mod 256 = (of_char c :: nat) - 32"
    by (intro mod_less) linarith
  moreover from True have "\<not> 97 \<le> (of_char c :: nat) - 32" by linarith
  ultimately show ?thesis using True by (simp add: ascii_upper_def Let_def)
qed (auto simp: ascii_upper_def)

lemma to_ascii_lowercase_idem [simp]:
  "to_ascii_lowercase (to_ascii_lowercase s) = to_ascii_lowercase s"
  by (simp add: to_ascii_lowercase_def)

lemma to_ascii_uppercase_idem [simp]:
  "to_ascii_uppercase (to_ascii_uppercase s) = to_ascii_uppercase s"
  by (simp add: to_ascii_uppercase_def)

text \<open>Mapping the case of ASCII letters commutes with trimming: no white space has a letter.\<close>

lemma take_map_pattern:
  "\<forall>c \<in> set p. \<forall>x. f x = c \<longleftrightarrow> x = c \<Longrightarrow> take (length p) (map f s) = p \<longleftrightarrow> take (length p) s = p"
proof (induction p arbitrary: s)
  case (Cons c p)
  then show ?case by (cases s) auto
qed simp

lemma leading_map:
  "\<forall>p \<in> set ps. \<forall>c \<in> set p. \<forall>x. f x = c \<longleftrightarrow> x = c \<Longrightarrow> leading ps (map f s) = leading ps s"
  by (induction ps) (simp_all add: take_map_pattern)

lemma trim_with_map:
  assumes "\<forall>p \<in> set ps. \<forall>c \<in> set p. \<forall>x. f x = c \<longleftrightarrow> x = c"
  shows "trim_with ps (map f s) = map f (trim_with ps s)"
  using assms
proof (induction ps s rule: trim_with.induct)
  case (1 ps s)
  then show ?case
    by (cases "leading ps s = 0")
      (simp_all add: trim_with.simps [of ps s] trim_with.simps [of ps "map f s"] leading_map drop_map)
qed

lemma trim_map:
  assumes "\<forall>p \<in> set white_space. \<forall>c \<in> set p. \<forall>x. f x = c \<longleftrightarrow> x = c"
  shows "trim (map f s) = map f (trim s)"
proof -
  have "\<forall>p \<in> set (map rev white_space). \<forall>c \<in> set p. \<forall>x. f x = c \<longleftrightarrow> x = c"
    using assms by auto
  with assms show ?thesis
    by (simp add: trim_def trim_start_def trim_end_def trim_with_map rev_map del: set_map)
qed

definition no_letter :: "char \<Rightarrow> bool" where
  "no_letter c \<longleftrightarrow> (let n = of_char c :: nat in n < 65 \<or> (90 < n \<and> n < 97) \<or> 122 < n)"

lemma white_space_no_letters: "list_all (list_all no_letter) white_space"
  by (simp add: white_space_def no_letter_def Let_def)

lemma no_letter_upper: "no_letter c \<Longrightarrow> ascii_upper x = c \<longleftrightarrow> x = c"
proof (cases "97 \<le> (of_char x :: nat) \<and> (of_char x :: nat) \<le> 122")
  case True
  moreover from this have "(of_char (ascii_upper x) :: nat) = of_char x - 32"
    by (simp add: ascii_upper_def Let_def) (rule mod_less, linarith)
  ultimately have "\<not> no_letter (ascii_upper x)" "\<not> no_letter x"
    by (auto simp: no_letter_def Let_def)
  moreover assume "no_letter c"
  ultimately show ?thesis by blast
qed (auto simp: ascii_upper_def Let_def)

lemma no_letter_lower: "no_letter c \<Longrightarrow> ascii_lower x = c \<longleftrightarrow> x = c"
proof (cases "65 \<le> (of_char x :: nat) \<and> (of_char x :: nat) \<le> 90")
  case True
  moreover from this have "(of_char (ascii_lower x) :: nat) = of_char x + 32"
    by (simp add: ascii_lower_def Let_def)
  ultimately have "\<not> no_letter (ascii_lower x)" "\<not> no_letter x"
    by (auto simp: no_letter_def Let_def)
  moreover assume "no_letter c"
  ultimately show ?thesis by blast
qed (auto simp: ascii_lower_def Let_def)

lemma white_space_case:
  "\<forall>p \<in> set white_space. \<forall>c \<in> set p. \<forall>x. ascii_upper x = c \<longleftrightarrow> x = c"
  "\<forall>p \<in> set white_space. \<forall>c \<in> set p. \<forall>x. ascii_lower x = c \<longleftrightarrow> x = c"
  using white_space_no_letters no_letter_upper no_letter_lower unfolding list_all_iff by blast+

lemma trim_uppercase: "trim (to_ascii_uppercase s) = to_ascii_uppercase (trim s)"
  and trim_lowercase: "trim (to_ascii_lowercase s) = to_ascii_lowercase (trim s)"
  using white_space_case by (simp_all add: to_ascii_uppercase_def to_ascii_lowercase_def trim_map)

section \<open>Decimal numbers\<close>

definition digit_char :: "nat \<Rightarrow> char" where
  "digit_char d = char_of (48 + d)"

text \<open>\<open>to_string\<close> and \<open>{}\<close> of an unsigned integer.\<close>

fun show_nat :: "nat \<Rightarrow> string" where
  "show_nat n = (if n < 10 then [digit_char n] else show_nat (n div 10) @ [digit_char (n mod 10)])"

declare show_nat.simps [simp del]

definition show_word :: "'a::len word \<Rightarrow> string" where
  "show_word w = show_nat (unat w)"

definition digit_value :: "char \<Rightarrow> nat option" where
  "digit_value c = (let n = of_char c :: nat in if 48 \<le> n \<and> n \<le> 57 then Some (n - 48) else None)"

text \<open>
  \<open>str::parse\<close> to an unsigned integer of \<open>w\<close> bits: an empty string, a lone sign, a character
  that is no digit and a value past the maximum are the errors; a leading \<open>+\<close> is accepted. The
  digits are read from the left and the first error found ends the loop.
\<close>

fun parse_digits :: "nat \<Rightarrow> nat \<Rightarrow> string \<Rightarrow> string + nat" where
  "parse_digits m acc [] = Inr acc"
| "parse_digits m acc (c # cs) =
     (case digit_value c of
        None \<Rightarrow> Inl ''invalid digit found in string''
      | Some d \<Rightarrow>
          if m \<le> acc * 10 + d then Inl ''number too large to fit in target type''
          else parse_digits m (acc * 10 + d) cs)"

definition parse_unsigned :: "string \<Rightarrow> string + 'a::len word" where
  "parse_unsigned s =
     (if s = [] then Inl ''cannot parse integer from empty string''
      else if s = ''+'' \<or> s = ''-'' then Inl ''invalid digit found in string''
      else
        let digits = (if hd s = CHR ''+'' then tl s else s)
        in bind_sum (parse_digits (2 ^ LENGTH('a)) 0 digits) (\<lambda>n. Inr (of_nat n)))"

lemma digit_value_digit_char [simp]: "d < 10 \<Longrightarrow> digit_value (digit_char d) = Some d"
  by (simp add: digit_value_def digit_char_def)

lemma solid_digit_char [simp]: "d < 10 \<Longrightarrow> solid (digit_char d)"
  by (simp add: solid_def digit_char_def)

lemma show_nat_nonempty [simp]: "show_nat n \<noteq> []"
  by (subst show_nat.simps) simp

lemma show_nat_solid: "list_all solid (show_nat n)"
  by (induction n rule: show_nat.induct) (subst show_nat.simps, simp)

lemma parse_digits_append:
  "parse_digits m acc (xs @ ys) = bind_sum (parse_digits m acc xs) (\<lambda>a. parse_digits m a ys)"
  by (induction xs arbitrary: acc) (auto split: option.split)

lemma parse_digits_show_nat: "n < m \<Longrightarrow> parse_digits m 0 (show_nat n) = Inr n"
proof (induction n rule: show_nat.induct)
  case (1 n)
  show ?case
  proof (cases "n < 10")
    case True
    with 1 show ?thesis by (simp add: show_nat.simps [of n])
  next
    case False
    with 1 have "parse_digits m 0 (show_nat (n div 10)) = Inr (n div 10)" by simp
    with False 1 show ?thesis
      by (simp add: show_nat.simps [of n] parse_digits_append)
  qed
qed

lemma show_nat_inject [simp]: "show_nat m = show_nat n \<longleftrightarrow> m = n"
  by (metis Inr_inject lessI less_max_iff_disj parse_digits_show_nat)

lemma hd_show_nat: "\<exists>d < 10. hd (show_nat n) = digit_char d"
proof (induction n rule: show_nat.induct)
  case (1 n)
  then show ?case by (cases "n < 10") (auto simp: show_nat.simps [of n])
qed

lemma hd_show_nat_no_sign: "hd (show_nat n) \<noteq> CHR ''+''" "hd (show_nat n) \<noteq> CHR ''-''"
proof -
  obtain d where "d < 10" "hd (show_nat n) = digit_char d" using hd_show_nat by blast
  then have "digit_value (hd (show_nat n)) \<noteq> None" by simp
  then show "hd (show_nat n) \<noteq> CHR ''+''" "hd (show_nat n) \<noteq> CHR ''-''"
    by (auto simp: digit_value_def)
qed

lemma parse_show_word [simp]: "parse_unsigned (show_word w) = Inr w" for w :: "'a::len word"
proof -
  have "show_nat (unat w) \<noteq> ''+''" "show_nat (unat w) \<noteq> ''-''"
    using hd_show_nat_no_sign [of "unat w"] by auto
  then show ?thesis
    by (simp add: parse_unsigned_def show_word_def hd_show_nat_no_sign parse_digits_show_nat unat_bound)
qed

end
