(* ===== verification/BTree.thy ===== *)
theory BTree
  imports Rust_Text
begin

text \<open>
  \<open>std::collections::BTreeMap\<close> and \<open>BTreeSet\<close>.

  A \<open>BTreeMap<K, V>\<close> is the list of its entries in the order of the keys, which is the order in
  which it is iterated. \<open>bt_insert\<close>, \<open>bt_get\<close>, \<open>bt_update\<close> (the \<open>entry\<close> interface) and
  \<open>bt_values\<close> are the operations the sources use. Every map built by them from the empty map is
  \<open>bt_ordered\<close>, and two ordered maps with the same lookups are equal. A \<open>BTreeSet\<close> or \<open>HashSet\<close>
  that is only inserted into and asked for membership is a \<open>set\<close> of its elements.
\<close>

type_synonym ('k, 'v) btree = "('k \<times> 'v) list"

fun bt_insert :: "'k::linorder \<Rightarrow> 'v \<Rightarrow> ('k, 'v) btree \<Rightarrow> ('k, 'v) btree" where
  "bt_insert k v [] = [(k, v)]"
| "bt_insert k v ((k', v') # m) =
     (if k < k' then (k, v) # (k', v') # m
      else if k = k' then (k, v) # m
      else (k', v') # bt_insert k v m)"

abbreviation bt_get :: "('k, 'v) btree \<Rightarrow> 'k \<Rightarrow> 'v option" where
  "bt_get m k \<equiv> map_of m k"

abbreviation bt_values :: "('k, 'v) btree \<Rightarrow> 'v list" where
  "bt_values m \<equiv> map snd m"

abbreviation bt_keys :: "('k, 'v) btree \<Rightarrow> 'k list" where
  "bt_keys m \<equiv> map fst m"

text \<open>\<open>*m.entry(k).or_insert(d)\<close> updated by \<open>f\<close>, and \<open>get_mut\<close>, which does nothing without an entry.\<close>

definition bt_update :: "'k::linorder \<Rightarrow> ('v \<Rightarrow> 'v) \<Rightarrow> 'v \<Rightarrow> ('k, 'v) btree \<Rightarrow> ('k, 'v) btree" where
  "bt_update k f d m = bt_insert k (f (case bt_get m k of None \<Rightarrow> d | Some v \<Rightarrow> v)) m"

text \<open>Assignment through \<open>get_mut\<close>, which leaves the map as it is where the key has no entry.\<close>

fun bt_set :: "'k \<Rightarrow> 'v \<Rightarrow> ('k, 'v) btree \<Rightarrow> ('k, 'v) btree" where
  "bt_set k v [] = []"
| "bt_set k v ((k', v') # m) = (if k = k' then (k, v) # m else (k', v') # bt_set k v m)"

definition bt_ordered :: "('k::linorder, 'v) btree \<Rightarrow> bool" where
  "bt_ordered m \<longleftrightarrow> sorted_wrt (<) (bt_keys m)"

lemma bt_get_insert [simp]: "bt_get (bt_insert k v m) = (bt_get m)(k \<mapsto> v)"
  by (induction k v m rule: bt_insert.induct) (auto simp: fun_eq_iff)

lemma bt_get_update [simp]:
  "bt_get (bt_update k f d m) = (bt_get m)(k \<mapsto> f (case bt_get m k of None \<Rightarrow> d | Some v \<Rightarrow> v))"
  by (simp add: bt_update_def fun_eq_iff)

lemma bt_get_set: "bt_get (bt_set k v m) q = (if q = k \<and> bt_get m k \<noteq> None then Some v else bt_get m q)"
  by (induction k v m rule: bt_set.induct) auto

lemma bt_keys_set [simp]: "bt_keys (bt_set k v m) = bt_keys m"
  by (induction k v m rule: bt_set.induct) auto

lemma sum_bt_set:
  "bt_get m k = Some (v :: nat) \<Longrightarrow> sum_list (bt_values (bt_set k w m)) + v = sum_list (bt_values m) + w"
  by (induction k w m rule: bt_set.induct) auto

lemma keys_bt_insert [simp]: "set (bt_keys (bt_insert k v m)) = insert k (set (bt_keys m))"
  by (induction k v m rule: bt_insert.induct) auto

lemma fst_set_bt_insert [simp]: "fst ` set (bt_insert k v m) = insert k (fst ` set m)"
  using keys_bt_insert [of k v m] by simp

lemma keys_bt_update [simp]: "fst ` set (bt_update k f d m) = insert k (fst ` set m)"
  by (simp add: bt_update_def)

lemma bt_ordered_Nil [simp]: "bt_ordered []"
  by (simp add: bt_ordered_def)

lemma bt_ordered_Cons:
  "bt_ordered ((k, v) # m) \<longleftrightarrow> (\<forall>k' \<in> fst ` set m. k < k') \<and> bt_ordered m"
  by (auto simp: bt_ordered_def)

lemma bt_ordered_insert [simp]: "bt_ordered m \<Longrightarrow> bt_ordered (bt_insert k v m)"
  by (induction k v m rule: bt_insert.induct) (fastforce simp: bt_ordered_Cons)+

lemma bt_ordered_update [simp]: "bt_ordered m \<Longrightarrow> bt_ordered (bt_update k f d m)"
  by (simp add: bt_update_def)

lemma bt_ordered_distinct: "bt_ordered m \<Longrightarrow> distinct (bt_keys m)"
  by (simp add: bt_ordered_def strict_sorted_iff)

lemma bt_get_iff_mem: "bt_ordered m \<Longrightarrow> bt_get m k = Some v \<longleftrightarrow> (k, v) \<in> set m"
  by (simp add: bt_ordered_distinct map_of_eq_Some_iff)

lemma dom_bt_get: "dom (bt_get m) = fst ` set m"
  by (rule dom_map_of_conv_image_fst)

lemma bt_ordered_ext:
  assumes "bt_ordered m" "bt_ordered n" "\<And>k. bt_get m k = bt_get n k"
  shows "m = n"
proof -
  have "bt_get m = bt_get n" using assms(3) by blast
  then have e: "set m = set n"
    using assms(1,2) by (auto simp: bt_get_iff_mem [symmetric])
  have "sorted (bt_keys l) \<and> distinct (bt_keys l)" if "bt_ordered l" for l :: "('a, 'b) btree"
    using that by (simp add: bt_ordered_def strict_sorted_iff)
  moreover from this have "inj_on fst (set m \<union> set n)"
    using assms(1) e by (metis distinct_map sup.idem)
  ultimately show ?thesis
    using assms(1,2) e by (metis map_sorted_distinct_set_unique)
qed

lemma bt_insert_fresh_mset:
  "k \<notin> fst ` set m \<Longrightarrow> mset (bt_insert k v m) = add_mset (k, v) (mset m)"
  by (induction k v m rule: bt_insert.induct) auto

lemma bt_values_insert_fresh:
  "bt_get m k = None \<Longrightarrow> mset (bt_values (bt_insert k v m)) = add_mset v (mset (bt_values m))"
  using bt_insert_fresh_mset [of k m v, THEN arg_cong [where f = "image_mset snd"]]
  by (simp add: map_of_eq_None_iff)

lemma bt_insert_remove:
  "bt_ordered m \<Longrightarrow> bt_get m k = Some v0 \<Longrightarrow>
     mset (bt_insert k v m) + {#(k, v0)#} = mset m + {#(k, v)#}"
  by (induction k v m rule: bt_insert.induct)
    (auto simp: bt_ordered_Cons split: if_splits dest!: map_of_SomeD)

lemma set_values_insert:
  "set (bt_values (bt_insert k v m)) \<subseteq> insert v (set (bt_values m))"
  by (induction k v m rule: bt_insert.induct) auto

lemma bt_get_SomeD: "bt_get m k = Some v \<Longrightarrow> v \<in> set (bt_values m)"
  by (force dest: map_of_SomeD)

lemma bt_values_mem_iff:
  "bt_ordered m \<Longrightarrow> v \<in> set (bt_values m) \<longleftrightarrow> (\<exists>k. bt_get m k = Some v)"
  by (auto simp: bt_get_iff_mem intro: bt_get_SomeD) force

lemma mset_concat_bt_insert:
  "bt_ordered m \<Longrightarrow> bt_get m k = Some xs \<or> bt_get m k = None \<and> xs = [] \<Longrightarrow>
     mset (concat (bt_values (bt_insert k (xs @ ys) m))) = mset ys + mset (concat (bt_values m))"
proof (induction m)
  case (Cons e m)
  obtain k' v where e: "e = (k', v)" by (cases e)
  consider "k < k'" | "k = k'" | "k' < k" by fastforce
  then show ?case
  proof cases
    case 1
    with Cons.prems(1) e have "k \<notin> fst ` set (e # m)" by (auto simp: bt_ordered_Cons)
    then have "bt_get (e # m) k = None" by (subst map_of_eq_None_iff)
    with Cons.prems(2) 1 e show ?thesis by simp
  qed (use Cons e in \<open>auto simp: bt_ordered_Cons\<close>)
qed simp

end
