(* ===== verification/Codec.thy ===== *)
theory Codec
  imports BTree "HOL-Library.Monad_Syntax"
begin

text \<open>
  The byte writers of \<^verbatim>\<open>src/src/serialization.rs\<close> and of the private helpers of
  \<^verbatim>\<open>src/src/state.rs\<close> and \<^verbatim>\<open>src/src/record.rs\<close>. A Rust writer \<open>write_x(buf, v)\<close> appends
  bytes to its buffer; the model's \<open>write_x v\<close> is the bytes it appends.

  The locale \<open>codec\<close> is the contract of a self-delimiting format: a reader that gives back the
  value and whatever follows it. \<open>counted_codec\<close> and \<open>pair_codec\<close> derive the format of a counted
  sequence and of a pair from the formats of the parts. The readers are not in the sources (the
  kernel never parses these bytes); they are what makes "the bytes determine the value" a theorem.
\<close>

section \<open>Fixed-width integers\<close>

fun be_bytes :: "nat \<Rightarrow> nat \<Rightarrow> bytes" where
  "be_bytes 0 n = []"
| "be_bytes (Suc k) n = be_bytes k (n div 256) @ [of_nat n]"

definition to_be_bytes :: "'a::len word \<Rightarrow> bytes" where
  "to_be_bytes w = be_bytes (LENGTH('a) div 8) (unat w)"

definition be_value :: "bytes \<Rightarrow> nat" where
  "be_value bs = foldl (\<lambda>acc b. acc * 256 + unat b) 0 bs"

definition from_be_bytes :: "bytes \<Rightarrow> 'a::len word" where
  "from_be_bytes bs = of_nat (be_value bs)"

lemma length_be_bytes [simp]: "length (be_bytes k n) = k"
  by (induction k arbitrary: n) auto

lemma be_value_snoc [simp]: "be_value (bs @ [b]) = be_value bs * 256 + unat b"
  by (simp add: be_value_def)

lemma be_value_be_bytes: "be_value (be_bytes k n) = n mod 256 ^ k"
proof (induction k arbitrary: n)
  case 0
  show ?case by (simp add: be_value_def)
next
  case (Suc k)
  have "n mod 256 ^ Suc k = n div 256 mod 256 ^ k * 256 + n mod 256"
    using mod_mult2_eq [of n 256 "256 ^ k"] by simp
  with Suc show ?case by (simp add: unat_of_nat)
qed

lemma be_bytes_split: "be_bytes (j + k) n = be_bytes j (n div 256 ^ k) @ be_bytes k n"
proof (induction k arbitrary: n)
  case (Suc k)
  have "n div 256 div 256 ^ k = n div 256 ^ Suc k" by (simp add: div_mult2_eq)
  with Suc show ?case by simp
qed simp

lemma be_bytes_mod: "be_bytes k (n mod 256 ^ k) = be_bytes k n"
proof (induction k arbitrary: n)
  case (Suc k)
  have "n mod 256 ^ Suc k = 256 * (n div 256 mod 256 ^ k) + n mod 256"
    using mod_mult2_eq [of n 256 "256 ^ k"] by simp
  then have "n mod 256 ^ Suc k div 256 = n div 256 mod 256 ^ k" by simp
  moreover have "(of_nat (n mod 256 ^ Suc k) :: u8) = of_nat n"
    by (rule unsigned_word_eqI [where ?'a = nat]) (simp add: unat_of_nat mod_mod_cancel)
  ultimately show ?case using Suc [of "n div 256"] by simp
qed simp

lemma length_to_be_bytes: "length (to_be_bytes w) = LENGTH('a) div 8" for w :: "'a::len word"
  by (simp add: to_be_bytes_def)

lemma from_to_be_bytes:
  "8 dvd LENGTH('a) \<Longrightarrow> from_be_bytes (to_be_bytes w) = w" for w :: "'a::len word"
proof -
  assume "8 dvd LENGTH('a)"
  then have "(256 :: nat) ^ (LENGTH('a) div 8) = 2 ^ LENGTH('a)"
    using power_mult [of "2 :: nat" 8 "LENGTH('a) div 8"] by simp
  then show ?thesis
    using unat_bound [of w] by (simp add: to_be_bytes_def from_be_bytes_def be_value_be_bytes)
qed

section \<open>Self-delimiting formats\<close>

locale codec =
  fixes enc :: "'a \<Rightarrow> bytes"
    and dec :: "bytes \<Rightarrow> ('a \<times> bytes) option"
    and ok :: "'a \<Rightarrow> bool"
  assumes dec_enc: "ok x \<Longrightarrow> dec (enc x @ r) = Some (x, r)"
begin

lemma enc_prefix_free: "ok x \<Longrightarrow> ok y \<Longrightarrow> enc x @ r = enc y @ s \<longleftrightarrow> x = y \<and> r = s"
  by (metis dec_enc option.inject prod.inject)

lemma enc_inject: "ok x \<Longrightarrow> ok y \<Longrightarrow> enc x = enc y \<longleftrightarrow> x = y"
  using enc_prefix_free [of x y "[]" "[]"] by simp

end

fun dec_take :: "nat \<Rightarrow> bytes \<Rightarrow> (bytes \<times> bytes) option" where
  "dec_take n bs = (if length bs < n then None else Some (take n bs, drop n bs))"

definition dec_word :: "bytes \<Rightarrow> ('a::len word \<times> bytes) option" where
  "dec_word bs = map_option (\<lambda>(b, r). (from_be_bytes b, r)) (dec_take (LENGTH('a) div 8) bs)"

lemma dec_word_to_be_bytes:
  "8 dvd LENGTH('a) \<Longrightarrow> dec_word (to_be_bytes w @ r) = Some (w, r)" for w :: "'a::len word"
  by (simp add: dec_word_def length_to_be_bytes from_to_be_bytes)

primrec dec_many :: "(bytes \<Rightarrow> ('a \<times> bytes) option) \<Rightarrow> nat \<Rightarrow> bytes \<Rightarrow> ('a list \<times> bytes) option" where
  "dec_many d 0 bs = Some ([], bs)"
| "dec_many d (Suc n) bs =
     Option.bind (d bs) (\<lambda>(x, r). map_option (\<lambda>(xs, r'). (x # xs, r')) (dec_many d n r))"

definition write_counted :: "('a \<Rightarrow> bytes) \<Rightarrow> 'a list \<Rightarrow> bytes" where
  "write_counted enc xs = to_be_bytes (of_nat (length xs) :: u64) @ concat (map enc xs)"

definition dec_counted :: "(bytes \<Rightarrow> ('a \<times> bytes) option) \<Rightarrow> bytes \<Rightarrow> ('a list \<times> bytes) option" where
  "dec_counted d bs = Option.bind (dec_word bs) (\<lambda>(n :: u64, r). dec_many d (unat n) r)"

definition ok_counted :: "('a \<Rightarrow> bool) \<Rightarrow> 'a list \<Rightarrow> bool" where
  "ok_counted ok xs \<longleftrightarrow> length xs < 2 ^ 64 \<and> list_all ok xs"

text \<open>A counted sequence of self-delimiting elements is self-delimiting.\<close>

locale counted_codec = elem: codec enc dec ok
  for enc :: "'a \<Rightarrow> bytes" and dec and ok
begin

lemma dec_many_enc:
  "list_all ok xs \<Longrightarrow> dec_many dec (length xs) (concat (map enc xs) @ r) = Some (xs, r)"
  by (induction xs) (simp_all add: elem.dec_enc)

lemma concat_inject:
  assumes "list_all ok xs" "list_all ok ys" "length xs = length ys"
  shows "concat (map enc xs) = concat (map enc ys) \<longleftrightarrow> xs = ys"
proof
  assume "concat (map enc xs) = concat (map enc ys)"
  then have "Some (xs, []) = Some (ys, [])"
    using dec_many_enc [OF assms(1), of "[]"] dec_many_enc [OF assms(2), of "[]"] assms(3) by simp
  then show "xs = ys" by simp
qed simp

end

sublocale counted_codec \<subseteq> counted: codec "write_counted enc" "dec_counted dec" "ok_counted ok"
  by unfold_locales
    (simp add: write_counted_def dec_counted_def ok_counted_def dec_word_to_be_bytes
      dec_many_enc unat_of_nat)

definition enc_pair :: "('a \<Rightarrow> bytes) \<Rightarrow> ('b \<Rightarrow> bytes) \<Rightarrow> 'a \<times> 'b \<Rightarrow> bytes" where
  "enc_pair e f = (\<lambda>(x, y). e x @ f y)"

definition dec_pair ::
  "(bytes \<Rightarrow> ('a \<times> bytes) option) \<Rightarrow> (bytes \<Rightarrow> ('b \<times> bytes) option) \<Rightarrow> bytes \<Rightarrow> (('a \<times> 'b) \<times> bytes) option" where
  "dec_pair d e bs =
     Option.bind (d bs) (\<lambda>(x, r). map_option (\<lambda>(y, s). ((x, y), s)) (e r))"

locale pair_codec = first: codec enc1 dec1 ok1 + second: codec enc2 dec2 ok2
  for enc1 :: "'a \<Rightarrow> bytes" and dec1 ok1 and enc2 :: "'b \<Rightarrow> bytes" and dec2 ok2

sublocale pair_codec \<subseteq> pair: codec "enc_pair enc1 enc2" "dec_pair dec1 dec2" "\<lambda>(x, y). ok1 x \<and> ok2 y"
  by unfold_locales (auto simp: enc_pair_def dec_pair_def first.dec_enc second.dec_enc)

section \<open>The writers\<close>

definition write_u8 :: "u8 \<Rightarrow> bytes" where
  "write_u8 v = [v]"

definition write_bool :: "bool \<Rightarrow> bytes" where
  "write_bool v = write_u8 (if v then 1 else 0)"

definition write_u32 :: "u32 \<Rightarrow> bytes" where
  "write_u32 v = to_be_bytes v"

text \<open>\<open>serialization.rs\<close> writes a \<open>u64\<close> as its two halves.\<close>

definition write_u64 :: "u64 \<Rightarrow> bytes" where
  "write_u64 v =
     (let hi = ucast (drop_bit 32 v) :: u32;
          lo = ucast (and v 0xFFFFFFFF) :: u32
      in write_u32 hi @ write_u32 lo)"

text \<open>\<open>state.rs\<close> and \<open>record.rs\<close> use \<open>to_be_bytes\<close> directly.\<close>

definition state_write_u64 :: "u64 \<Rightarrow> bytes" where
  "state_write_u64 v = to_be_bytes v"

lemma write_u64_eq: "write_u64 v = state_write_u64 v"
proof -
  have "(0xFFFFFFFF :: u64) = mask 32" by (simp add: mask_eq_exp_minus_1)
  then have "and v 0xFFFFFFFF = take_bit 32 v" by (simp only: take_bit_eq_mask)
  then have lo: "unat (ucast (and v 0xFFFFFFFF) :: u32) = unat v mod 2 ^ 32"
    by (simp only: unsigned_ucast_eq unsigned_take_bit_eq) (simp add: take_bit_eq_mod)
  have "unat v div 2 ^ 32 < 2 ^ 32" using unat_bound [of v] by (simp add: div_less_iff_less_mult)
  then have hi: "unat (ucast (drop_bit 32 v) :: u32) = unat v div 2 ^ 32"
    by (simp only: unsigned_ucast_eq unat_drop_bit_eq) (simp add: take_bit_eq_mod drop_bit_eq_div)
  show ?thesis
    using be_bytes_split [of 4 4 "unat v"] be_bytes_mod [of 4 "unat v"]
    by (simp add: write_u64_def state_write_u64_def write_u32_def to_be_bytes_def lo hi)
qed

text \<open>A \<open>f64\<close> is its 64 bits: \<open>to_bits\<close> is the identity of the model.\<close>

type_synonym f64 = "64 word"

definition write_f64 :: "f64 \<Rightarrow> bytes" where
  "write_f64 v = to_be_bytes v"

definition write_str :: "string \<Rightarrow> bytes" where
  "write_str value = write_u64 (of_nat (length (as_bytes value))) @ as_bytes value"

definition write_bytes :: "bytes \<Rightarrow> bytes" where
  "write_bytes bs = write_u64 (of_nat (length bs)) @ bs"

definition write_vec_str :: "string list \<Rightarrow> bytes" where
  "write_vec_str values = write_u64 (of_nat (length values)) @ concat (map write_str values)"

definition write_btreemap_str_str :: "(string, string) btree \<Rightarrow> bytes" where
  "write_btreemap_str_str m =
     write_u64 (of_nat (length m)) @ concat (map (\<lambda>(k, v). write_str k @ write_str v) m)"

definition write_vec_u64 :: "u64 list \<Rightarrow> bytes" where
  "write_vec_u64 values = write_u64 (of_nat (length values)) @ concat (map write_u64 values)"

section \<open>Readers, and the formats as codecs\<close>

named_theorems dec_enc_simps \<open>a reader gives back what its writer wrote\<close>

definition dec_bool :: "bytes \<Rightarrow> (bool \<times> bytes) option" where
  "dec_bool bs = map_option (\<lambda>(b :: u8, r). (b = 1, r)) (dec_word bs)"

definition dec_bytes :: "bytes \<Rightarrow> (bytes \<times> bytes) option" where
  "dec_bytes bs = do { (n :: u64, r) \<leftarrow> dec_word bs; dec_take (unat n) r }"

definition dec_str :: "bytes \<Rightarrow> (string \<times> bytes) option" where
  "dec_str bs = map_option (\<lambda>(b, r). (from_bytes b, r)) (dec_bytes bs)"

fun write_opt :: "('a \<Rightarrow> bytes) \<Rightarrow> 'a option \<Rightarrow> bytes" where
  "write_opt w (Some x) = write_bool True @ w x"
| "write_opt w None = write_bool False"

definition dec_opt :: "(bytes \<Rightarrow> ('a \<times> bytes) option) \<Rightarrow> bytes \<Rightarrow> ('a option \<times> bytes) option" where
  "dec_opt d bs = do {
     (b, r) \<leftarrow> dec_bool bs;
     if b then map_option (\<lambda>(x, s). (Some x, s)) (d r) else Some (None, r)
   }"

definition ok_len :: "'a list \<Rightarrow> bool" where
  "ok_len xs \<longleftrightarrow> length xs < 2 ^ 64"

definition ok_map :: "(string, string) btree \<Rightarrow> bool" where
  "ok_map m \<longleftrightarrow> ok_counted (\<lambda>(k, v). ok_len k \<and> ok_len v) m"

lemma length_write_u64 [simp]: "length (write_u64 v) = 8"
  by (simp add: write_u64_eq state_write_u64_def length_to_be_bytes)

interpretation word64: codec "to_be_bytes :: u64 \<Rightarrow> bytes" dec_word "\<lambda>_. True"
  by unfold_locales (simp add: dec_word_to_be_bytes)

interpretation word128: codec "to_be_bytes :: u128 \<Rightarrow> bytes" dec_word "\<lambda>_. True"
  by unfold_locales (simp add: dec_word_to_be_bytes)

interpretation u64: codec write_u64 dec_word "\<lambda>_. True"
  by unfold_locales (simp add: write_u64_eq state_write_u64_def word64.dec_enc)

interpretation bool: codec write_bool dec_bool "\<lambda>_. True"
proof
  fix x :: bool and r
  have "dec_word (w # r) = Some (w, r)" for w :: u8
    using dec_word_to_be_bytes [of w r] by (simp add: to_be_bytes_def)
  then show "dec_bool (write_bool x @ r) = Some (x, r)"
    by (simp add: dec_bool_def write_bool_def write_u8_def)
qed

locale opt_codec = elem: codec enc dec ok
  for enc :: "'a \<Rightarrow> bytes" and dec and ok

sublocale opt_codec \<subseteq> opt: codec "write_opt enc" "dec_opt dec" "pred_option ok"
proof
  fix x r
  assume "pred_option ok x"
  then show "dec_opt dec (write_opt enc x @ r) = Some (x, r)"
    by (cases x) (simp_all add: dec_opt_def bool.dec_enc elem.dec_enc)
qed

interpretation byte_list: codec write_bytes dec_bytes ok_len
  by unfold_locales (simp add: write_bytes_def dec_bytes_def u64.dec_enc ok_len_def unat_of_nat)

interpretation str: codec write_str dec_str ok_len
  by unfold_locales
    (simp add: write_str_def dec_str_def dec_bytes_def u64.dec_enc ok_len_def unat_of_nat)

interpretation u64_vec: counted_codec write_u64 dec_word "\<lambda>_. True" ..

interpretation u128_vec: counted_codec "to_be_bytes :: u128 \<Rightarrow> bytes" dec_word "\<lambda>_. True" ..

interpretation u64_opt: opt_codec "to_be_bytes :: u64 \<Rightarrow> bytes" dec_word "\<lambda>_. True" ..

interpretation str_opt: opt_codec write_str dec_str ok_len ..

interpretation str_vec: counted_codec write_str dec_str ok_len ..

interpretation str_pair: pair_codec write_str dec_str ok_len write_str dec_str ok_len ..

interpretation str_map: counted_codec
  "enc_pair write_str write_str" "dec_pair dec_str dec_str" "\<lambda>(k, v). ok_len k \<and> ok_len v" ..

lemma write_vec_u64_counted: "write_vec_u64 = write_counted write_u64"
  by (simp add: fun_eq_iff write_vec_u64_def write_counted_def write_u64_eq state_write_u64_def)

lemma write_vec_str_counted: "write_vec_str = write_counted write_str"
  by (simp add: fun_eq_iff write_vec_str_def write_counted_def write_u64_eq state_write_u64_def)

lemma write_map_counted: "write_btreemap_str_str = write_counted (enc_pair write_str write_str)"
  by (simp add: fun_eq_iff write_btreemap_str_str_def write_counted_def write_u64_eq
      state_write_u64_def enc_pair_def)

definition dec_map :: "bytes \<Rightarrow> ((string, string) btree \<times> bytes) option" where
  "dec_map = dec_counted (dec_pair dec_str dec_str)"

lemma ok_counted_True: "ok_counted (\<lambda>_. True) xs \<longleftrightarrow> ok_len xs"
  by (simp add: ok_counted_def ok_len_def list_all_iff)

lemma dec_vec_u64 [dec_enc_simps]:
  "ok_len xs \<Longrightarrow> dec_counted dec_word (write_vec_u64 xs @ r) = Some (xs, r)"
  by (simp add: write_vec_u64_counted u64_vec.counted.dec_enc ok_counted_True)

lemma dec_vec_u128 [dec_enc_simps]:
  "ok_len xs \<Longrightarrow>
     dec_counted dec_word (write_counted (to_be_bytes :: u128 \<Rightarrow> bytes) xs @ r) = Some (xs, r)"
  by (simp add: u128_vec.counted.dec_enc ok_counted_True)

lemma dec_vec_str [dec_enc_simps]:
  "ok_counted ok_len xs \<Longrightarrow> dec_counted dec_str (write_vec_str xs @ r) = Some (xs, r)"
  by (simp add: write_vec_str_counted str_vec.counted.dec_enc)

lemma dec_map_write [dec_enc_simps]:
  "ok_map m \<Longrightarrow> dec_map (write_btreemap_str_str m @ r) = Some (m, r)"
  by (simp add: write_map_counted dec_map_def ok_map_def str_map.counted.dec_enc)

lemma dec_u64_opt [dec_enc_simps]:
  "dec_opt dec_word (write_opt (to_be_bytes :: u64 \<Rightarrow> bytes) x @ r) = Some (x, r)"
  by (rule u64_opt.opt.dec_enc) (simp add: option.pred_True)

lemma dec_str_opt [dec_enc_simps]:
  "pred_option ok_len x \<Longrightarrow> dec_opt dec_str (write_opt write_str x @ r) = Some (x, r)"
  by (rule str_opt.opt.dec_enc)

lemmas dec_enc_base [dec_enc_simps] =
  u64.dec_enc [simplified] word64.dec_enc [simplified] bool.dec_enc [simplified]
  byte_list.dec_enc str.dec_enc

end
