(* ===== verification/Vector_State.thy ===== *)
theory Vector_State
  imports Codec
begin

text \<open>
  \<^verbatim>\<open>src/src/state.rs\<close>: the canonical vector state \<open>VectorStateV1\<close>, its methods, its canonical bytes
  and the state root.

  The records and enums have the fields and variants of the Rust types; each field carries the
  initials of its type, since several types share field names. \<open>blake3::hash(..).to_hex()\<close> is the
  parameter \<open>H\<close>, and \<open>chk\<close> says whether the build has overflow checks.
\<close>

section \<open>Data\<close>

definition STATE_SCHEMA_V1 :: string where
  "STATE_SCHEMA_V1 = ''v.kernelx/VectorStateV1''"

datatype vector_type =
  VT_Standard | VT_Origin | VT_Projected | VT_Escrow | VT_Settlement | VT_Locked

datatype vector_status =
  VS_Active | VS_Projected | VS_Escrowed | VS_Settled | VS_Archived

record certification_state =
  cs_certified :: bool
  cs_auth_ratio :: u16
  cs_threshold :: u16
  cs_last_checked_at_ms :: u64
  cs_reason :: "string option"

record projection_state =
  ps_escrow_id :: string
  ps_projected_components :: "u128 list"
  ps_settled_components :: "u128 list"
  ps_started_at_ms :: u64
  ps_settlement_at_ms :: "u64 option"
  ps_outcome_tag :: "string option"

record origin_state =
  os_seed :: string
  os_nonce :: u64
  os_difficulty :: u32
  os_proof_hash :: string

record vector_state_v1 =
  v1_schema :: string
  v1_vector_id :: string
  v1_owner_pubkey :: string
  v1_space_id :: string
  v1_vector_type :: vector_type
  v1_status :: vector_status
  v1_components :: "u128 list"
  v1_type_metadata :: "(string, string) btree"
  v1_certification :: certification_state
  v1_projection :: "projection_state option"
  v1_origin :: "origin_state option"
  v1_version :: u64
  v1_created_at_ms :: u64
  v1_updated_at_ms :: u64

record direction_share =
  ds_component_index :: nat
  ds_numerator :: u128
  ds_denominator :: u128

record state_root =
  sr_root_hash :: string
  sr_event_count :: u64
  sr_logical_clock :: u64

section \<open>Methods of \<open>VectorStateV1\<close>\<close>

definition v1_new :: "string \<Rightarrow> string \<Rightarrow> string \<Rightarrow> u128 list \<Rightarrow> vector_type \<Rightarrow> u64 \<Rightarrow> vector_state_v1" where
  "v1_new vector_id owner_pubkey space_id components vector_type timestamp_ms =
     \<lparr> v1_schema = STATE_SCHEMA_V1,
       v1_vector_id = vector_id,
       v1_owner_pubkey = owner_pubkey,
       v1_space_id = space_id,
       v1_vector_type = vector_type,
       v1_status = VS_Active,
       v1_components = components,
       v1_type_metadata = [],
       v1_certification =
         \<lparr> cs_certified = False, cs_auth_ratio = 0, cs_threshold = 700,
           cs_last_checked_at_ms = timestamp_ms, cs_reason = Some ''not yet certified'' \<rparr>,
       v1_projection = None,
       v1_origin = None,
       v1_version = 1,
       v1_created_at_ms = timestamp_ms,
       v1_updated_at_ms = timestamp_ms \<rparr>"

definition magnitude :: "bool \<Rightarrow> vector_state_v1 \<Rightarrow> u128 outcome" where
  "magnitude chk st = sum_from chk 0 (v1_components st)"

definition is_zero :: "vector_state_v1 \<Rightarrow> bool" where
  "is_zero st = list_all (\<lambda>v. v = 0) (v1_components st)"

definition direction_shares :: "bool \<Rightarrow> vector_state_v1 \<Rightarrow> direction_share list outcome" where
  "direction_shares chk st =
     and_then (magnitude chk st) (\<lambda>m.
       if m = 0 then Err ZeroNormalization
       else Ok (map (\<lambda>(i, component).
              \<lparr> ds_component_index = i, ds_numerator = component, ds_denominator = m \<rparr>)
            (enumerate 0 (v1_components st))))"

definition ensure_same_shape :: "vector_state_v1 \<Rightarrow> vector_state_v1 \<Rightarrow> unit outcome" where
  "ensure_same_shape st other =
     (if length (v1_components st) \<noteq> length (v1_components other) then Err DimensionMismatch
      else Ok ())"

definition bump_version :: "bool \<Rightarrow> vector_state_v1 \<Rightarrow> vector_state_v1 outcome" where
  "bump_version chk st =
     and_then (plus_checked chk (v1_version st) 1) (\<lambda>v. Ok (st\<lparr>v1_version := v\<rparr>))"

definition with_components :: "bool \<Rightarrow> vector_state_v1 \<Rightarrow> u128 list \<Rightarrow> u64 \<Rightarrow> vector_state_v1 outcome" where
  "with_components chk st components timestamp_ms =
     bump_version chk (st\<lparr>v1_components := components, v1_updated_at_ms := timestamp_ms\<rparr>)"

definition with_status :: "bool \<Rightarrow> vector_state_v1 \<Rightarrow> vector_status \<Rightarrow> u64 \<Rightarrow> vector_state_v1 outcome" where
  "with_status chk st status timestamp_ms =
     bump_version chk (st\<lparr>v1_status := status, v1_updated_at_ms := timestamp_ms\<rparr>)"

definition validate_canonical_state :: "vector_state_v1 \<Rightarrow> unit outcome" where
  "validate_canonical_state st =
     (if v1_schema st \<noteq> STATE_SCHEMA_V1 then Err (InvalidState ''schema mismatch'')
      else if v1_components st = [] then
        Err (InvalidState ''a vector must contain at least one component'')
      else if v1_owner_pubkey st = [] \<or> v1_vector_id st = [] \<or> v1_space_id st = [] then
        Err (InvalidState ''vector_id, owner_pubkey, and space_id are required'')
      else Ok ())"

lemma validate_canonical_state_Ok:
  "validate_canonical_state st = Ok () \<longleftrightarrow>
     v1_schema st = STATE_SCHEMA_V1 \<and> v1_components st \<noteq> [] \<and> v1_owner_pubkey st \<noteq> [] \<and>
     v1_vector_id st \<noteq> [] \<and> v1_space_id st \<noteq> []"
  by (auto simp: validate_canonical_state_def)

lemma bump_version_Ok:
  "bump_version chk st = Ok st' \<Longrightarrow>
     st' = st\<lparr>v1_version := v1_version st + 1\<rparr> \<and>
     (chk \<longrightarrow> unat (v1_version st') = unat (v1_version st) + 1)"
  by (auto simp: bump_version_def plus_checked_Ok unat_add_no_overflow)

lemma bump_version_no_overflow:
  "unat (v1_version st) + 1 < 2 ^ 64 \<Longrightarrow>
     bump_version chk st = Ok (st\<lparr>v1_version := v1_version st + 1\<rparr>)"
  by (simp add: bump_version_def)

lemma is_zero_iff_nat_sum: "is_zero st \<longleftrightarrow> nat_sum (v1_components st) = 0"
proof -
  have "list_all (\<lambda>v. v = 0) xs \<longleftrightarrow> nat_sum xs = 0" for xs :: "u128 list"
    by (induction xs) (auto simp: unat_eq_zero)
  then show ?thesis by (simp add: is_zero_def)
qed

section \<open>Canonical bytes\<close>

definition state_write_str :: "string \<Rightarrow> bytes" where
  "state_write_str value = state_write_u64 (of_nat (length (as_bytes value))) @ as_bytes value"

definition write_vec_u128 :: "u128 list \<Rightarrow> bytes" where
  "write_vec_u128 values = state_write_u64 (of_nat (length values)) @ concat (map to_be_bytes values)"

definition state_write_btreemap_str_str :: "(string, string) btree \<Rightarrow> bytes" where
  "state_write_btreemap_str_str m =
     state_write_u64 (of_nat (length m)) @
     concat (map (\<lambda>(k, v). state_write_str k @ state_write_str v) m)"

fun vector_type_tag :: "vector_type \<Rightarrow> string" where
  "vector_type_tag VT_Standard = ''STANDARD''"
| "vector_type_tag VT_Origin = ''ORIGIN''"
| "vector_type_tag VT_Projected = ''PROJECTED''"
| "vector_type_tag VT_Escrow = ''ESCROW''"
| "vector_type_tag VT_Settlement = ''SETTLEMENT''"
| "vector_type_tag VT_Locked = ''LOCKED''"

fun vector_status_tag :: "vector_status \<Rightarrow> string" where
  "vector_status_tag VS_Active = ''ACTIVE''"
| "vector_status_tag VS_Projected = ''PROJECTED''"
| "vector_status_tag VS_Escrowed = ''ESCROWED''"
| "vector_status_tag VS_Settled = ''SETTLED''"
| "vector_status_tag VS_Archived = ''ARCHIVED''"

definition write_vector_type :: "vector_type \<Rightarrow> bytes" where
  "write_vector_type value = state_write_str (vector_type_tag value)"

definition write_vector_status :: "vector_status \<Rightarrow> bytes" where
  "write_vector_status value = state_write_str (vector_status_tag value)"

definition write_certification_state :: "certification_state \<Rightarrow> bytes" where
  "write_certification_state c =
     write_bool (cs_certified c) @
     state_write_u64 (ucast (cs_auth_ratio c)) @
     state_write_u64 (ucast (cs_threshold c)) @
     state_write_u64 (cs_last_checked_at_ms c) @
     write_opt state_write_str (cs_reason c)"

definition write_projection_state :: "projection_state \<Rightarrow> bytes" where
  "write_projection_state p =
     state_write_str (ps_escrow_id p) @
     write_vec_u128 (ps_projected_components p) @
     write_vec_u128 (ps_settled_components p) @
     state_write_u64 (ps_started_at_ms p) @
     write_opt state_write_u64 (ps_settlement_at_ms p) @
     write_opt state_write_str (ps_outcome_tag p)"

definition write_origin_state :: "origin_state \<Rightarrow> bytes" where
  "write_origin_state os =
     state_write_str (os_seed os) @
     state_write_u64 (os_nonce os) @
     state_write_u64 (ucast (os_difficulty os)) @
     state_write_str (os_proof_hash os)"

definition canonical_vector_state_bytes :: "vector_state_v1 \<Rightarrow> bytes" where
  "canonical_vector_state_bytes st =
     state_write_str (v1_schema st) @
     state_write_str (v1_vector_id st) @
     state_write_str (v1_owner_pubkey st) @
     state_write_str (v1_space_id st) @
     write_vector_type (v1_vector_type st) @
     write_vector_status (v1_status st) @
     write_vec_u128 (v1_components st) @
     state_write_btreemap_str_str (v1_type_metadata st) @
     write_certification_state (v1_certification st) @
     write_opt write_projection_state (v1_projection st) @
     write_opt write_origin_state (v1_origin st) @
     state_write_u64 (v1_version st) @
     state_write_u64 (v1_created_at_ms st) @
     state_write_u64 (v1_updated_at_ms st)"

section \<open>The state root\<close>

definition state_root_tag :: bytes where
  "state_root_tag = as_bytes ''v-kernelx/state-root-v1''"

text \<open>\<open>sort_by\<close> is a stable sort, as is \<open>sort_key\<close>; the comparator is lexicographic on these keys.\<close>

definition root_sort_key :: "vector_state_v1 \<Rightarrow> string \<times> u64 \<times> u64" where
  "root_sort_key st = (v1_vector_id st, v1_version st, v1_updated_at_ms st)"

definition state_root_preimage :: "vector_state_v1 list \<Rightarrow> u64 \<Rightarrow> bytes" where
  "state_root_preimage states logical_clock =
     (let ordered = sort_key root_sort_key states
      in state_root_tag @
         state_write_u64 (of_nat (length ordered)) @
         state_write_u64 logical_clock @
         concat (map (\<lambda>st. let canonical = canonical_vector_state_bytes st
                           in state_write_u64 (of_nat (length canonical)) @ canonical) ordered))"

definition compute_state_root :: "(bytes \<Rightarrow> string) \<Rightarrow> vector_state_v1 list \<Rightarrow> u64 \<Rightarrow> state_root" where
  "compute_state_root H states logical_clock =
     \<lparr> sr_root_hash = H (state_root_preimage states logical_clock),
       sr_event_count = of_nat (length states),
       sr_logical_clock = logical_clock \<rparr>"

definition compute_state_root_from_canonical_bytes :: "(bytes \<Rightarrow> string) \<Rightarrow> bytes \<Rightarrow> u64 \<Rightarrow> u64 \<Rightarrow> state_root" where
  "compute_state_root_from_canonical_bytes H canonical_state_bytes event_count logical_clock =
     \<lparr> sr_root_hash =
         H (state_root_tag @ state_write_u64 event_count @ state_write_u64 logical_clock @
            state_write_u64 (of_nat (length canonical_state_bytes)) @ canonical_state_bytes),
       sr_event_count = event_count,
       sr_logical_clock = logical_clock \<rparr>"

section \<open>The canonical bytes determine the state\<close>

lemma state_writers_shared:
  "state_write_u64 = to_be_bytes"
  "state_write_str = write_str"
  "write_vec_u128 = write_counted to_be_bytes"
  "state_write_btreemap_str_str = write_btreemap_str_str"
  by (simp_all add: fun_eq_iff state_write_u64_def state_write_str_def write_str_def write_u64_eq
      write_vec_u128_def write_counted_def state_write_btreemap_str_str_def write_btreemap_str_str_def)

definition dec_tag :: "('a \<Rightarrow> string) \<Rightarrow> 'a list \<Rightarrow> bytes \<Rightarrow> ('a \<times> bytes) option" where
  "dec_tag tag all bs = do {
     (s, r) \<leftarrow> dec_str bs;
     t \<leftarrow> find (\<lambda>t. tag t = s) all;
     Some (t, r)
   }"

definition dec_vector_type :: "bytes \<Rightarrow> (vector_type \<times> bytes) option" where
  "dec_vector_type =
     dec_tag vector_type_tag [VT_Standard, VT_Origin, VT_Projected, VT_Escrow, VT_Settlement, VT_Locked]"

definition dec_vector_status :: "bytes \<Rightarrow> (vector_status \<times> bytes) option" where
  "dec_vector_status =
     dec_tag vector_status_tag [VS_Active, VS_Projected, VS_Escrowed, VS_Settled, VS_Archived]"

definition dec_certification_state :: "bytes \<Rightarrow> (certification_state \<times> bytes) option" where
  "dec_certification_state bs = do {
     (c, bs) \<leftarrow> dec_bool bs;
     (a :: u64, bs) \<leftarrow> dec_word bs;
     (t :: u64, bs) \<leftarrow> dec_word bs;
     (l, bs) \<leftarrow> dec_word bs;
     (re, bs) \<leftarrow> dec_opt dec_str bs;
     Some (\<lparr> cs_certified = c, cs_auth_ratio = ucast a, cs_threshold = ucast t,
             cs_last_checked_at_ms = l, cs_reason = re \<rparr>, bs)
   }"

definition dec_projection_state :: "bytes \<Rightarrow> (projection_state \<times> bytes) option" where
  "dec_projection_state bs = do {
     (i, bs) \<leftarrow> dec_str bs;
     (p, bs) \<leftarrow> dec_counted dec_word bs;
     (s, bs) \<leftarrow> dec_counted dec_word bs;
     (t, bs) \<leftarrow> dec_word bs;
     (e, bs) \<leftarrow> dec_opt dec_word bs;
     (g, bs) \<leftarrow> dec_opt dec_str bs;
     Some (\<lparr> ps_escrow_id = i, ps_projected_components = p, ps_settled_components = s,
             ps_started_at_ms = t, ps_settlement_at_ms = e, ps_outcome_tag = g \<rparr>, bs)
   }"

definition dec_origin_state :: "bytes \<Rightarrow> (origin_state \<times> bytes) option" where
  "dec_origin_state bs = do {
     (s, bs) \<leftarrow> dec_str bs;
     (n, bs) \<leftarrow> dec_word bs;
     (d :: u64, bs) \<leftarrow> dec_word bs;
     (h, bs) \<leftarrow> dec_str bs;
     Some (\<lparr> os_seed = s, os_nonce = n, os_difficulty = ucast d, os_proof_hash = h \<rparr>, bs)
   }"

definition dec_vector_state :: "bytes \<Rightarrow> (vector_state_v1 \<times> bytes) option" where
  "dec_vector_state bs = do {
     (sc, bs) \<leftarrow> dec_str bs;
     (vi, bs) \<leftarrow> dec_str bs;
     (ow, bs) \<leftarrow> dec_str bs;
     (sp, bs) \<leftarrow> dec_str bs;
     (vt, bs) \<leftarrow> dec_vector_type bs;
     (st, bs) \<leftarrow> dec_vector_status bs;
     (co, bs) \<leftarrow> dec_counted dec_word bs;
     (md, bs) \<leftarrow> dec_map bs;
     (ce, bs) \<leftarrow> dec_certification_state bs;
     (pr, bs) \<leftarrow> dec_opt dec_projection_state bs;
     (og, bs) \<leftarrow> dec_opt dec_origin_state bs;
     (ve, bs) \<leftarrow> dec_word bs;
     (cr, bs) \<leftarrow> dec_word bs;
     (up, bs) \<leftarrow> dec_word bs;
     Some (\<lparr> v1_schema = sc, v1_vector_id = vi, v1_owner_pubkey = ow, v1_space_id = sp,
             v1_vector_type = vt, v1_status = st, v1_components = co, v1_type_metadata = md,
             v1_certification = ce, v1_projection = pr, v1_origin = og, v1_version = ve,
             v1_created_at_ms = cr, v1_updated_at_ms = up \<rparr>, bs)
   }"

text \<open>
  No length of a Rust value reaches \<open>2 ^ 64\<close>: the predicates say so of the lists of the model,
  which have no such bound.
\<close>

definition ok_certification :: "certification_state \<Rightarrow> bool" where
  "ok_certification c \<longleftrightarrow> pred_option ok_len (cs_reason c)"

definition ok_projection :: "projection_state \<Rightarrow> bool" where
  "ok_projection p \<longleftrightarrow> ok_len (ps_escrow_id p) \<and> ok_len (ps_projected_components p) \<and>
     ok_len (ps_settled_components p) \<and> pred_option ok_len (ps_outcome_tag p)"

definition ok_origin :: "origin_state \<Rightarrow> bool" where
  "ok_origin os \<longleftrightarrow> ok_len (os_seed os) \<and> ok_len (os_proof_hash os)"

definition ok_v1 :: "vector_state_v1 \<Rightarrow> bool" where
  "ok_v1 st \<longleftrightarrow> ok_len (v1_schema st) \<and> ok_len (v1_vector_id st) \<and> ok_len (v1_owner_pubkey st) \<and>
     ok_len (v1_space_id st) \<and> ok_len (v1_components st) \<and> ok_map (v1_type_metadata st) \<and>
     ok_certification (v1_certification st) \<and> pred_option ok_projection (v1_projection st) \<and>
     pred_option ok_origin (v1_origin st)"

lemma dec_vector_type_write [dec_enc_simps]:
  "dec_vector_type (write_vector_type t @ r) = Some (t, r)"
  by (cases t) (simp_all add: dec_vector_type_def dec_tag_def write_vector_type_def
      state_writers_shared str.dec_enc ok_len_def)

lemma dec_vector_status_write [dec_enc_simps]:
  "dec_vector_status (write_vector_status t @ r) = Some (t, r)"
  by (cases t) (simp_all add: dec_vector_status_def dec_tag_def write_vector_status_def
      state_writers_shared str.dec_enc ok_len_def)

lemma ucast_back [simp]:
  "(ucast (ucast (a :: u16) :: u64) :: u16) = a" "(ucast (ucast (d :: u32) :: u64) :: u32) = d"
  by (rule ucast_up_ucast_id, simp add: is_up)+

interpretation certification: codec write_certification_state dec_certification_state ok_certification
  by unfold_locales (simp add: write_certification_state_def dec_certification_state_def
      ok_certification_def state_writers_shared dec_enc_simps)

interpretation projection: codec write_projection_state dec_projection_state ok_projection
  by unfold_locales (simp add: write_projection_state_def dec_projection_state_def
      ok_projection_def state_writers_shared dec_enc_simps)

interpretation origin: codec write_origin_state dec_origin_state ok_origin
  by unfold_locales (simp add: write_origin_state_def dec_origin_state_def
      ok_origin_def state_writers_shared dec_enc_simps)

interpretation projection_opt: opt_codec write_projection_state dec_projection_state ok_projection ..

interpretation origin_opt: opt_codec write_origin_state dec_origin_state ok_origin ..

interpretation vector_state_v1: codec canonical_vector_state_bytes dec_vector_state ok_v1
  by unfold_locales (simp add: canonical_vector_state_bytes_def dec_vector_state_def ok_v1_def
      state_writers_shared dec_enc_simps certification.dec_enc
      projection_opt.opt.dec_enc origin_opt.opt.dec_enc)

section \<open>Properties\<close>

text \<open>
  The canonical bytes of a vector state determine every field of it: two states have the same
  bytes exactly when they are equal. No field is left out of the bytes and no two fields can be
  confused, whatever strings and lists they hold.
\<close>

theorem canonical_vector_state_bytes_inject:
  assumes "ok_v1 s" "ok_v1 t"
  shows "canonical_vector_state_bytes s = canonical_vector_state_bytes t \<longleftrightarrow> s = t"
  using assms by (rule vector_state_v1.enc_inject)

definition sample_state :: vector_state_v1 where
  "sample_state = v1_new ''v-a'' ''pk-a'' ''space-1'' [1000, 2000] VT_Origin 17"

lemma sample_state_ok: "ok_v1 sample_state"
  by (simp add: sample_state_def v1_new_def ok_v1_def ok_len_def ok_map_def ok_counted_def
      ok_certification_def STATE_SCHEMA_V1_def)

theorem canonical_vector_state_bytes_inject_witness:
  "canonical_vector_state_bytes sample_state \<noteq>
   canonical_vector_state_bytes (sample_state\<lparr>v1_version := 2\<rparr>)"
proof -
  have "ok_v1 (sample_state\<lparr>v1_version := 2\<rparr>)"
    using sample_state_ok by (simp add: ok_v1_def)
  moreover have "sample_state \<noteq> sample_state\<lparr>v1_version := 2\<rparr>"
    by (simp add: sample_state_def v1_new_def)
  ultimately show ?thesis
    using canonical_vector_state_bytes_inject [OF sample_state_ok] by blast
qed

definition sized_state_bytes :: "vector_state_v1 \<Rightarrow> bytes" where
  "sized_state_bytes st =
     to_be_bytes (of_nat (length (canonical_vector_state_bytes st)) :: u64) @
     canonical_vector_state_bytes st"

interpretation sized_state: counted_codec sized_state_bytes
  "\<lambda>bs. do { (n :: u64, r) \<leftarrow> dec_word bs; dec_vector_state r }" ok_v1
  by unfold_locales (simp add: sized_state_bytes_def dec_enc_simps vector_state_v1.dec_enc)

lemma state_root_preimage_eq:
  "state_root_preimage states clock =
     state_root_tag @ to_be_bytes (of_nat (length states) :: u64) @ to_be_bytes clock @
     concat (map sized_state_bytes (sort_key root_sort_key states))"
  by (simp add: state_root_preimage_def sized_state_bytes_def [abs_def] state_writers_shared Let_def)

lemma unat_of_nat_u64: "n < 2 ^ 64 \<Longrightarrow> unat (of_nat n :: u64) = n"
  by (simp add: unat_of_nat)

lemma of_nat_u64_inject: "m < 2 ^ 64 \<Longrightarrow> n < 2 ^ 64 \<Longrightarrow> (of_nat m :: u64) = of_nat n \<longleftrightarrow> m = n"
  by (metis unat_of_nat_u64)

lemma state_root_preimage_ordered:
  assumes "ok_counted ok_v1 ss" "ok_counted ok_v1 ts"
  shows "state_root_preimage ss c = state_root_preimage ts d \<longleftrightarrow>
           sort_key root_sort_key ss = sort_key root_sort_key ts \<and> c = d"
proof -
  let ?s = "sort_key root_sort_key ss" and ?t = "sort_key root_sort_key ts"
  have len: "length ss < 2 ^ 64" "length ts < 2 ^ 64"
    and all: "list_all ok_v1 ?s" "list_all ok_v1 ?t"
    using assms by (auto simp: ok_counted_def list_all_iff)
  have "state_root_preimage ss c = state_root_preimage ts d \<longleftrightarrow>
          length ss = length ts \<and> c = d \<and>
          concat (map sized_state_bytes ?s) = concat (map sized_state_bytes ?t)"
    using len by (simp add: state_root_preimage_eq word64.enc_prefix_free of_nat_u64_inject)
  also have "\<dots> \<longleftrightarrow> ?s = ?t \<and> c = d"
    using sized_state.concat_inject [OF all] by (metis length_sort)
  finally show ?thesis .
qed

text \<open>
  For states with distinct vector ids, what is hashed into the state root depends on the set of
  states and the logical clock alone, and determines both: the order in which the states are listed
  does not matter, and two different sets of states, or clocks, are never hashed from the same bytes.
\<close>

theorem state_root_preimage_iff:
  assumes "ok_counted ok_v1 ss" "ok_counted ok_v1 ts"
    and "distinct (map v1_vector_id ss)" "distinct (map v1_vector_id ts)"
  shows "state_root_preimage ss c = state_root_preimage ts d \<longleftrightarrow> set ss = set ts \<and> c = d"
proof -
  have "sort_key root_sort_key ss = sort_key root_sort_key ts \<longleftrightarrow> set ss = set ts"
  proof
    assume "set ss = set ts"
    with assms(3,4) have "mset ss = mset ts"
      by (metis distinct_map set_eq_iff_mset_eq_distinct)
    moreover have "inj_on root_sort_key (set ss)"
      using assms(3) by (auto simp: distinct_map inj_on_def root_sort_key_def)
    ultimately show "sort_key root_sort_key ss = sort_key root_sort_key ts"
      by (metis mset_sort sort_key_inj_key_eq sorted_sort_key)
  qed (metis set_sort)
  then show ?thesis
    using state_root_preimage_ordered [OF assms(1,2)] by simp
qed

theorem state_root_preimage_iff_witness:
  "state_root_preimage [sample_state, sample_state\<lparr>v1_vector_id := ''v-b''\<rparr>] 17 =
   state_root_preimage [sample_state\<lparr>v1_vector_id := ''v-b''\<rparr>, sample_state] 17"
proof -
  let ?b = "sample_state\<lparr>v1_vector_id := ''v-b''\<rparr>"
  have ok: "ok_v1 ?b" using sample_state_ok by (simp add: ok_v1_def ok_len_def)
  have "ok_counted ok_v1 [sample_state, ?b]" "ok_counted ok_v1 [?b, sample_state]"
    using ok sample_state_ok by (simp_all add: ok_counted_def)
  moreover have "distinct (map v1_vector_id [sample_state, ?b])"
    "distinct (map v1_vector_id [?b, sample_state])"
    by (simp_all add: sample_state_def v1_new_def)
  moreover have "set [sample_state, ?b] = set [?b, sample_state]" by auto
  ultimately show ?thesis using state_root_preimage_iff by blast
qed

end
