(* ===== verification/Certification.thy ===== *)
theory Certification
  imports Vector_State
begin

text \<open>
  \<^verbatim>\<open>src/src/certification.rs\<close> (the authorisation ratio and the certification of a state) and
  \<^verbatim>\<open>src/src/origin.rs\<close> (the origin proof and the creation of an origin vector).

  A call of \<open>now_ms()\<close> reads the system clock; the value it returns is an argument. An \<open>f64\<close> is its
  64 bits, and the quotient \<open>n as f64 / 1000.0\<close> is rounded to nearest, ties to even, as IEEE 754 and
  Rust prescribe.
\<close>

section \<open>Floating point\<close>

text \<open>
  \<open>norm_exp a b k\<close> is the greatest \<open>j \<le> k\<close> with \<open>a * 2 ^ j div b < 2 ^ 53\<close>: the scale at which the
  quotient has the 53 bits of a significand.
\<close>

fun norm_exp :: "nat \<Rightarrow> nat \<Rightarrow> nat \<Rightarrow> nat" where
  "norm_exp a b 0 = 0"
| "norm_exp a b (Suc k) = (if a * 2 ^ Suc k div b < 2 ^ 53 then Suc k else norm_exp a b k)"

definition round_quotient :: "nat \<Rightarrow> nat \<Rightarrow> nat" where
  "round_quotient n b =
     (let q = n div b; r = n mod b
      in if b < 2 * r \<or> (2 * r = b \<and> odd q) then q + 1 else q)"

definition f64_thousandths_bits :: "nat \<Rightarrow> nat" where
  "f64_thousandths_bits a =
     (if a = 0 then 0
      else let k = norm_exp a 1000 62; m = round_quotient (a * 2 ^ k) 1000
           in (1075 - k) * 2 ^ 52 + (m - 2 ^ 52))"

definition f64_thousandths :: "u16 \<Rightarrow> f64" where
  "f64_thousandths n = of_nat (f64_thousandths_bits (unat n))"

definition f64_abs_bits :: "f64 \<Rightarrow> nat" where
  "f64_abs_bits v = unat v mod 2 ^ 63"

definition f64_sign :: "f64 \<Rightarrow> bool" where
  "f64_sign v \<longleftrightarrow> 2 ^ 63 \<le> unat v"

definition f64_infinity_bits :: nat where
  "f64_infinity_bits = 0x7FF0000000000000"

definition f64_one_bits :: nat where
  "f64_one_bits = 0x3FF0000000000000"

definition f64_is_finite :: "f64 \<Rightarrow> bool" where
  "f64_is_finite v \<longleftrightarrow> f64_abs_bits v < f64_infinity_bits"

text \<open>\<open>v < 0.0\<close> and \<open>v > 1.0\<close>: false of a NaN, and \<open>-0.0\<close> is not below zero.\<close>

definition f64_below_zero :: "f64 \<Rightarrow> bool" where
  "f64_below_zero v \<longleftrightarrow> f64_sign v \<and> 0 < f64_abs_bits v \<and> f64_abs_bits v \<le> f64_infinity_bits"

definition f64_above_one :: "f64 \<Rightarrow> bool" where
  "f64_above_one v \<longleftrightarrow>
     \<not> f64_sign v \<and> f64_one_bits < f64_abs_bits v \<and> f64_abs_bits v \<le> f64_infinity_bits"

definition f64_one :: f64 where
  "f64_one = 0x3FF0000000000000"

lemma norm_exp_le: "norm_exp a b k \<le> k"
  by (induction k) auto

lemma norm_exp_small: "a div b < 2 ^ 53 \<Longrightarrow> a * 2 ^ norm_exp a b k div b < 2 ^ 53"
  by (induction k) auto

lemma norm_exp_large:
  "norm_exp a b k < k \<Longrightarrow> 2 ^ 53 \<le> a * 2 ^ Suc (norm_exp a b k) div b"
proof (induction k)
  case (Suc k)
  then show ?case
    by (cases "norm_exp a b k = k") (auto split: if_splits simp: not_less less_Suc_eq)
qed simp

lemma f64_thousandths_unit:
  assumes "a \<le> 1000"
  shows "f64_thousandths_bits a \<le> f64_one_bits"
proof (cases "a = 0")
  case True
  then show ?thesis by (simp add: f64_thousandths_bits_def f64_one_bits_def)
next
  case False
  define k where "k = norm_exp a 1000 62"
  define n where "n = a * 2 ^ k"
  have q: "n div 1000 < 2 ^ 53"
    unfolding n_def k_def by (rule norm_exp_small) (use assms in simp)
  have n: "n \<le> 1000 * 2 ^ k"
    unfolding n_def using assms by simp
  have k52: "52 \<le> k"
  proof (rule ccontr)
    assume "\<not> 52 \<le> k"
    then have "2 ^ 53 \<le> a * 2 ^ Suc k div 1000"
      using norm_exp_large [of a 1000 62] by (simp add: k_def)
    also have "\<dots> \<le> (1000 * 2 ^ Suc k) div 1000"
      using assms by (intro div_le_mono) simp
    also have "\<dots> = (2 :: nat) ^ Suc k" by (rule nonzero_mult_div_cancel_left) simp
    also have "\<dots> \<le> 2 ^ 52" using \<open>\<not> 52 \<le> k\<close> by (intro power_increasing) simp_all
    finally show False by simp
  qed
  have bits: "f64_thousandths_bits a = (1075 - k) * 2 ^ 52 + (round_quotient n 1000 - 2 ^ 52)"
    using False by (simp add: f64_thousandths_bits_def n_def k_def Let_def)
  show ?thesis
  proof (cases "k = 52")
    case True
    have "round_quotient n 1000 \<le> 2 ^ 52"
    proof (cases "n = 1000 * 2 ^ 52")
      case True
      then show ?thesis by (simp add: round_quotient_def)
    next
      case False
      with n \<open>k = 52\<close> have "n div 1000 < 2 ^ 52" by (simp add: div_less_iff_less_mult)
      then show ?thesis by (simp add: round_quotient_def Let_def)
    qed
    with True show ?thesis unfolding bits by (simp add: f64_one_bits_def)
  next
    case False
    have "round_quotient n 1000 \<le> 2 ^ 53"
      using q by (simp add: round_quotient_def Let_def)
    moreover have "(1075 - k) * 2 ^ 52 \<le> 1022 * (2 :: nat) ^ 52"
      using False k52 by (intro mult_le_mono1) simp
    ultimately show ?thesis unfolding bits by (simp add: f64_one_bits_def)
  qed
qed

text \<open>A ratio of at most 1000 thousandths is a finite \<open>f64\<close> between 0 and 1.\<close>

lemma f64_thousandths_in_unit:
  assumes "unat n \<le> 1000"
  shows "f64_is_finite (f64_thousandths n)"
    "\<not> f64_below_zero (f64_thousandths n)"
    "\<not> f64_above_one (f64_thousandths n)"
proof -
  have b: "f64_thousandths_bits (unat n) \<le> f64_one_bits"
    using assms by (rule f64_thousandths_unit)
  then have "unat (f64_thousandths n) = f64_thousandths_bits (unat n)"
    by (simp add: f64_thousandths_def f64_one_bits_def unat_of_nat_u64)
  with b show "f64_is_finite (f64_thousandths n)" "\<not> f64_below_zero (f64_thousandths n)"
    "\<not> f64_above_one (f64_thousandths n)"
    by (simp_all add: f64_is_finite_def f64_below_zero_def f64_above_one_def f64_sign_def
        f64_abs_bits_def f64_one_bits_def f64_infinity_bits_def)
qed

lemma f64_one_in_unit:
  "f64_is_finite f64_one" "\<not> f64_below_zero f64_one" "\<not> f64_above_one f64_one"
  by (simp_all add: f64_one_def f64_is_finite_def f64_below_zero_def f64_above_one_def f64_sign_def
      f64_abs_bits_def f64_one_bits_def f64_infinity_bits_def)

section \<open>Certification\<close>

definition compute_auth_ratio :: "bool \<Rightarrow> vector_state_v1 \<Rightarrow> bool \<Rightarrow> bool \<Rightarrow> u16 outcome" where
  "compute_auth_ratio chk st ownership_verified structure_verified =
     and_then (magnitude chk st) (\<lambda>m.
       let magnitude_score = (if m = 0 then 100 else 400) :: nat;
           direction_score = (if v1_components st = [] then 0 else 200);
           ownership_score = (if ownership_verified then 300 else 0);
           structure_score = (if structure_verified then 100 else 0);
           total = magnitude_score + direction_score + ownership_score + structure_score
       in Ok (of_nat (min total 1000)))"

definition compute_auth_ratio_unit :: "bool \<Rightarrow> vector_state_v1 \<Rightarrow> bool \<Rightarrow> bool \<Rightarrow> f64 outcome" where
  "compute_auth_ratio_unit chk st ownership_verified structure_verified =
     map_ok f64_thousandths (compute_auth_ratio chk st ownership_verified structure_verified)"

definition certify_state ::
  "bool \<Rightarrow> u64 \<Rightarrow> vector_state_v1 \<Rightarrow> bool \<Rightarrow> bool \<Rightarrow> certification_state outcome" where
  "certify_state chk now st ownership_verified structure_verified =
     and_then (compute_auth_ratio chk st ownership_verified structure_verified) (\<lambda>auth_ratio.
       let threshold = cs_threshold (v1_certification st)
       in Ok \<lparr> cs_certified = (threshold \<le> auth_ratio),
               cs_auth_ratio = auth_ratio,
               cs_threshold = threshold,
               cs_last_checked_at_ms = now,
               cs_reason =
                 (if threshold \<le> auth_ratio then None
                  else Some (''auth_ratio '' @ show_word auth_ratio @ '' below threshold '' @
                             show_word threshold)) \<rparr>)"

definition is_certified :: "vector_state_v1 \<Rightarrow> bool" where
  "is_certified st = cs_certified (v1_certification st)"

lemma magnitude_not_Err [simp]: "magnitude chk st \<noteq> Err e"
  by (simp add: magnitude_def)

lemma compute_auth_ratio_not_Err [simp]: "compute_auth_ratio chk st o' s' \<noteq> Err e"
  by (cases "magnitude chk st") (simp_all add: compute_auth_ratio_def Let_def)

lemma certify_state_not_Err [simp]: "certify_state chk now st o' s' \<noteq> Err e"
  by (cases "compute_auth_ratio chk st o' s'") (simp_all add: certify_state_def Let_def)

lemma compute_auth_ratio_verified:
  assumes "compute_auth_ratio chk st True True = Ok r" "v1_components st \<noteq> []"
  shows "r = 700 \<or> r = 1000"
  using assms by (auto simp: compute_auth_ratio_def Let_def split: if_splits)

lemma certify_state_Ok:
  "certify_state chk now st o' s' = Ok c \<Longrightarrow>
     compute_auth_ratio chk st o' s' = Ok (cs_auth_ratio c) \<and>
     cs_threshold c = cs_threshold (v1_certification st) \<and>
     cs_last_checked_at_ms c = now \<and>
     (cs_certified c \<longleftrightarrow> cs_threshold c \<le> cs_auth_ratio c) \<and>
     (cs_reason c = None \<longleftrightarrow> cs_certified c)"
  by (auto simp: certify_state_def Let_def split: if_splits)

lemma compute_auth_ratio_sum:
  assumes "compute_auth_ratio chk st own str = Ok r"
  shows "\<exists>m. magnitude chk st = Ok m \<and>
           unat r = (if m = 0 then 100 else 400) + (if v1_components st = [] then 0 else 200) +
             (if own then 300 else 0) + (if str then 100 else 0)"
proof -
  have t: "unat (of_nat (min t 1000) :: u16) = t" if "t \<le> 1000" for t :: nat
    using that by (simp add: unat_of_nat min_absorb1)
  obtain m where m: "magnitude chk st = Ok m" and
    r: "r = of_nat (min ((if m = 0 then 100 else 400) + (if v1_components st = [] then 0 else 200) +
             (if own then 300 else 0) + (if str then 100 else 0)) 1000)"
    using assms by (auto simp only: compute_auth_ratio_def Let_def and_then_Ok_iff result.inject)
  show ?thesis
    by (rule exI [of _ m], rule conjI [OF m], unfold r, rule t) simp
qed

lemma compute_auth_ratio_le: "compute_auth_ratio chk st o' s' = Ok r \<Longrightarrow> unat r \<le> 1000"
  by (auto simp: compute_auth_ratio_def Let_def unat_of_nat split: if_splits)

lemma certify_state_ratio_le: "certify_state chk now st o' s' = Ok c \<Longrightarrow> unat (cs_auth_ratio c) \<le> 1000"
  by (auto dest!: certify_state_Ok compute_auth_ratio_le)

lemma certify_state_default_threshold:
  assumes "certify_state chk now st True True = Ok c"
    and "v1_components st \<noteq> []" "cs_threshold (v1_certification st) = 700"
  shows "cs_certified c" "cs_threshold c = 700" "cs_auth_ratio c \<in> {700, 1000}"
  using certify_state_Ok [OF assms(1)] compute_auth_ratio_verified [OF _ assms(2)] assms(3)
  by fastforce+

lemma magnitude_within:
  "nat_sum (v1_components st) < 2 ^ 128 \<Longrightarrow>
     \<exists>m. magnitude chk st = Ok m \<and> unat m = nat_sum (v1_components st)"
  using sum_from_exact [of 0 "v1_components st" chk] by (simp add: magnitude_def)

lemma certify_state_returns:
  "nat_sum (v1_components st) < 2 ^ 128 \<Longrightarrow> \<exists>c. certify_state chk now st o' s' = Ok c"
  using magnitude_within [of st chk]
  by (auto simp: certify_state_def compute_auth_ratio_def Let_def)

lemma magnitude_release: "\<exists>m. magnitude False st = Ok m"
  by (simp add: magnitude_def sum_from_wraps)

lemma certify_state_release: "\<exists>c. certify_state False now st o' s' = Ok c"
  using magnitude_release [of st]
  by (auto simp: certify_state_def compute_auth_ratio_def Let_def)

section \<open>Origin\<close>

definition origin_proof_hash :: "(bytes \<Rightarrow> string) \<Rightarrow> string \<Rightarrow> u64 \<Rightarrow> string" where
  "origin_proof_hash H seed nonce = H (as_bytes seed @ to_be_bytes nonce)"

definition verify_origin :: "(bytes \<Rightarrow> string) \<Rightarrow> string \<Rightarrow> u64 \<Rightarrow> u32 \<Rightarrow> bool" where
  "verify_origin H seed nonce difficulty =
     (let proof' = origin_proof_hash H seed nonce;
          leading_zero_nibbles = of_nat (length (takeWhile (\<lambda>c. c = CHR ''0'') proof')) :: u32
      in difficulty \<le> leading_zero_nibbles)"

text \<open>\<open>(0..max_attempts).find(..)\<close>: the attempts left and the next nonce.\<close>

fun find_nonce_from :: "(u64 \<Rightarrow> bool) \<Rightarrow> nat \<Rightarrow> u64 \<Rightarrow> u64 option" where
  "find_nonce_from p 0 nonce = None"
| "find_nonce_from p (Suc left) nonce =
     (if p nonce then Some nonce else find_nonce_from p left (nonce + 1))"

definition find_valid_nonce :: "(bytes \<Rightarrow> string) \<Rightarrow> string \<Rightarrow> u32 \<Rightarrow> u64 \<Rightarrow> u64 option" where
  "find_valid_nonce H seed difficulty max_attempts =
     (if difficulty = 0 then Some 0
      else find_nonce_from (\<lambda>nonce. verify_origin H seed nonce difficulty) (unat max_attempts) 0)"

definition create_origin_vector ::
  "(bytes \<Rightarrow> string) \<Rightarrow> u64 \<Rightarrow> string \<Rightarrow> string \<Rightarrow> string \<Rightarrow> u128 list \<Rightarrow> string \<Rightarrow> u64 \<Rightarrow> u32 \<Rightarrow>
     vector_state_v1 outcome" where
  "create_origin_vector H now vector_id owner_pubkey space_id components seed nonce difficulty =
     (if \<not> verify_origin H seed nonce difficulty then Err OriginRejected
      else
        let proof_hash = origin_proof_hash H seed nonce;
            st = v1_new vector_id owner_pubkey space_id components VT_Origin now;
            st = st\<lparr>v1_origin := Some
                   \<lparr> os_seed = seed, os_nonce = nonce, os_difficulty = difficulty,
                     os_proof_hash = proof_hash \<rparr>\<rparr>
        in Ok (st\<lparr>v1_certification := (v1_certification st)
                 \<lparr> cs_certified := True, cs_auth_ratio := 1000, cs_reason := None \<rparr>\<rparr>))"

lemma find_nonce_from_Some:
  assumes "find_nonce_from p k (of_nat i) = Some n" "i + k < 2 ^ 64"
  shows "p n \<and> i \<le> unat n \<and> unat n < i + k \<and> (\<forall>j. i \<le> j \<and> j < unat n \<longrightarrow> \<not> p (of_nat j))"
  using assms
proof (induction k arbitrary: i)
  case (Suc k)
  show ?case
  proof (cases "p (of_nat i)")
    case True
    with Suc.prems show ?thesis by (auto simp: unat_of_nat_u64)
  next
    case False
    with Suc.prems have "find_nonce_from p k (of_nat (Suc i)) = Some n" by (simp add: add.commute)
    moreover have "Suc i + k < 2 ^ 64" using Suc.prems by simp
    ultimately have "p n \<and> Suc i \<le> unat n \<and> unat n < Suc i + k \<and>
      (\<forall>j. Suc i \<le> j \<and> j < unat n \<longrightarrow> \<not> p (of_nat j))" by (rule Suc.IH)
    with False show ?thesis by (auto, metis Suc_leI le_neq_implies_less)
  qed
qed simp

lemma find_nonce_from_None:
  assumes "find_nonce_from p k (of_nat i) = None" "i \<le> j" "j < i + k"
  shows "\<not> p (of_nat j)"
  using assms
proof (induction k arbitrary: i)
  case (Suc k)
  then have "\<not> p (of_nat i)" "find_nonce_from p k (of_nat (Suc i)) = None"
    by (auto split: if_splits simp: add.commute)
  with Suc.prems Suc.IH [of "Suc i"] show ?case by (cases "i = j") (auto simp del: of_nat_Suc)
qed simp

section \<open>Properties\<close>

text \<open>
  C34: The nonce search is sound, minimal and complete: it returns a nonce exactly when some nonce
  below the number of attempts meets the difficulty, and then the least such nonce (the nonce 0 at
  difficulty 0, which every proof meets).
\<close>

theorem find_valid_nonce_least:
  "find_valid_nonce H seed difficulty max_attempts = Some n \<longleftrightarrow>
     (if difficulty = 0 then n = 0
      else verify_origin H seed n difficulty \<and> n < max_attempts \<and>
           (\<forall>m<n. \<not> verify_origin H seed m difficulty))"
proof (cases "difficulty = 0")
  case False
  define p where "p = (\<lambda>n. verify_origin H seed n difficulty)"
  define k where "k = unat max_attempts"
  have k: "k < 2 ^ 64" using unat_bound [of max_attempts] by (simp add: k_def)
  have f: "find_valid_nonce H seed difficulty max_attempts = find_nonce_from p k (of_nat 0)"
    using False by (simp add: find_valid_nonce_def p_def k_def)
  have "find_nonce_from p k (of_nat 0) = Some n \<longleftrightarrow> p n \<and> unat n < k \<and> (\<forall>m<n. \<not> p m)"
  proof (intro iffI conjI allI impI)
    assume r: "find_nonce_from p k (of_nat 0) = Some n"
    note s = find_nonce_from_Some [OF r]
    from s k show "p n" "unat n < k" by simp_all
    fix m assume "m < n"
    then have "unat m < unat n" by (simp add: word_less_nat_alt)
    moreover from s k have "\<forall>j<unat n. \<not> p (of_nat j)" by simp
    ultimately have "\<not> p (of_nat (unat m))" by blast
    then show "\<not> p m" by simp
  next
    assume n: "p n \<and> unat n < k \<and> (\<forall>m<n. \<not> p m)"
    then obtain n' where n': "find_nonce_from p k (of_nat 0) = Some n'"
      using find_nonce_from_None [of p k 0 "unat n"] by (cases "find_nonce_from p k (of_nat 0)") auto
    note s = find_nonce_from_Some [OF n']
    have "\<not> n < n'"
    proof
      assume "n < n'"
      then have "unat n < unat n'" by (simp add: word_less_nat_alt)
      moreover from s k have "\<forall>j<unat n'. \<not> p (of_nat j)" by simp
      ultimately have "\<not> p (of_nat (unat n))" by blast
      with n show False by simp
    qed
    moreover have "\<not> n' < n" using s k n by auto
    ultimately show "find_nonce_from p k (of_nat 0) = Some n" using n' by simp
  qed
  with f False show ?thesis by (simp add: p_def k_def word_less_nat_alt)
qed (auto simp: find_valid_nonce_def)

theorem find_valid_nonce_least_witness:
  "find_valid_nonce (\<lambda>bs. if bs = as_bytes ''s'' @ to_be_bytes (1 :: u64) then ''0a'' else ''a0'')
     ''s'' 1 5 = Some 1"
proof -
  let ?H = "\<lambda>bs. if bs = as_bytes ''s'' @ to_be_bytes (1 :: u64) then ''0a'' else ''a0''"
  have "to_be_bytes (0 :: u64) \<noteq> to_be_bytes (1 :: u64)"
    by (simp add: word64.enc_inject)
  then have "verify_origin ?H ''s'' 1 1" "\<not> verify_origin ?H ''s'' 0 1"
    by (simp_all add: verify_origin_def origin_proof_hash_def Let_def)
  moreover have "m = 0" if "m < (1 :: u64)" for m
    using that by (simp add: word_less_nat_alt unat_eq_0)
  ultimately show ?thesis
    by (subst find_valid_nonce_least) auto
qed

lemma certify_state_verdict_parts:
  assumes "certify_state chk now st own str = Ok c"
  shows "cs_certified c \<longleftrightarrow> cs_threshold (v1_certification st) \<le> cs_auth_ratio c"
    and "cs_reason c = None \<longleftrightarrow> cs_certified c"
    and "\<exists>m. magnitude chk st = Ok m \<and>
           unat (cs_auth_ratio c) =
             (if m = 0 then 100 else 400) + (if v1_components st = [] then 0 else 200) +
             (if own then 300 else 0) + (if str then 100 else 0)"
    and "own \<Longrightarrow> str \<Longrightarrow> v1_components st \<noteq> [] \<Longrightarrow>
           cs_threshold (v1_certification st) \<le> 700 \<Longrightarrow> cs_certified c"
proof -
  note c = certify_state_Ok [OF assms]
  then show v: "cs_certified c \<longleftrightarrow> cs_threshold (v1_certification st) \<le> cs_auth_ratio c"
    and "cs_reason c = None \<longleftrightarrow> cs_certified c" by simp_all
  from c show "\<exists>m. magnitude chk st = Ok m \<and>
           unat (cs_auth_ratio c) =
             (if m = 0 then 100 else 400) + (if v1_components st = [] then 0 else 200) +
             (if own then 300 else 0) + (if str then 100 else 0)"
    by (intro compute_auth_ratio_sum) simp
  show "cs_certified c"
    if "own" "str" "v1_components st \<noteq> []" "cs_threshold (v1_certification st) \<le> 700"
  proof -
    have "cs_auth_ratio c = 700 \<or> cs_auth_ratio c = 1000"
      using c that by (intro compute_auth_ratio_verified [of chk st]) simp_all
    then have "(700 :: u16) \<le> cs_auth_ratio c" by auto
    with that(4) show ?thesis unfolding v by (rule order_trans)
  qed
qed

text \<open>
  Certification is decided by the threshold alone: the verdict, the reason and the ratio agree,
  and the ratio is the sum of the four scores, which never exceeds 1000. So with the default
  threshold of 700 a state with at least one component that is verified both ways is certified.
\<close>

theorem certify_state_verdict:
  assumes "certify_state chk now st own str = Ok c"
  shows "(cs_certified c \<longleftrightarrow> cs_threshold (v1_certification st) \<le> cs_auth_ratio c) \<and>
    (cs_reason c = None \<longleftrightarrow> cs_certified c) \<and>
    (\<exists>m. magnitude chk st = Ok m \<and>
       unat (cs_auth_ratio c) =
         (if m = 0 then 100 else 400) + (if v1_components st = [] then 0 else 200) +
         (if own then 300 else 0) + (if str then 100 else 0)) \<and>
    (own \<and> str \<and> v1_components st \<noteq> [] \<and> cs_threshold (v1_certification st) \<le> 700 \<longrightarrow>
       cs_certified c)"
  using certify_state_verdict_parts [OF assms] by blast


theorem certify_state_verdict_witness:
  "\<exists>c. certify_state True 20 sample_state True True = Ok c \<and> cs_certified c \<and> cs_reason c = None"
proof -
  obtain c where c: "certify_state True 20 sample_state True True = Ok c"
    using certify_state_returns [of sample_state True 20 True True]
    by (auto simp: sample_state_def v1_new_def)
  have "v1_components sample_state \<noteq> []" "cs_threshold (v1_certification sample_state) \<le> 700"
    by (simp_all add: sample_state_def v1_new_def)
  with certify_state_verdict [OF c] have "cs_certified c" by blast
  with c certify_state_verdict [OF c] show ?thesis by blast
qed

end
