(* ===== verification/Events.thy ===== *)
theory Events
  imports Certification
begin

text \<open>
  \<^verbatim>\<open>src/src/event.rs\<close>, the event part of \<^verbatim>\<open>src/src/serialization.rs\<close>, and
  \<^verbatim>\<open>src/src/hash.rs\<close>: events, their canonical bytes, and what is hashed. \<open>H\<close> stands for
  \<open>blake3::hash(..).to_hex().to_string()\<close>. The last section shows that the bytes hashed for an event
  determine every field the protocol means to bind, and none of the fields it means to leave out.
\<close>

section \<open>Events\<close>

datatype operation_type =
    Op_OriginCreate | Op_Certify | Op_Transfer | Op_Drain | Op_Project | Op_Reconstruct | Op_Move
  | Op_Rotate | Op_Scale | Op_Normalize | Op_Constrain | Op_Query | Op_Record | Op_Other string

fun canonical_name :: "operation_type \<Rightarrow> string" where
  "canonical_name Op_OriginCreate = ''ORIGIN_CREATE''"
| "canonical_name Op_Certify = ''CERTIFY''"
| "canonical_name Op_Transfer = ''TRANSFER''"
| "canonical_name Op_Drain = ''DRAIN''"
| "canonical_name Op_Project = ''PROJECT''"
| "canonical_name Op_Reconstruct = ''RECONSTRUCT''"
| "canonical_name Op_Move = ''MOVE''"
| "canonical_name Op_Rotate = ''ROTATE''"
| "canonical_name Op_Scale = ''SCALE''"
| "canonical_name Op_Normalize = ''NORMALIZE''"
| "canonical_name Op_Constrain = ''CONSTRAIN''"
| "canonical_name Op_Query = ''QUERY''"
| "canonical_name Op_Record = ''RECORD''"
| "canonical_name (Op_Other _) = ''OTHER''"

record vector_state =
  vs_components :: "u64 list"
  vs_owner_public_key :: string
  vs_type_tag :: string
  vs_metadata :: "(string, string) btree"

definition vs_new :: "u64 list \<Rightarrow> string \<Rightarrow> string \<Rightarrow> (string, string) btree \<Rightarrow> vector_state" where
  "vs_new components owner_public_key type_tag metadata =
     \<lparr> vs_components = components, vs_owner_public_key = owner_public_key,
       vs_type_tag = type_tag, vs_metadata = metadata \<rparr>"

definition vs_zero :: "nat \<Rightarrow> string \<Rightarrow> string \<Rightarrow> vector_state" where
  "vs_zero dimensions owner_public_key type_tag =
     \<lparr> vs_components = replicate dimensions 0, vs_owner_public_key = owner_public_key,
       vs_type_tag = type_tag, vs_metadata = [] \<rparr>"

definition vs_magnitude :: "bool \<Rightarrow> vector_state \<Rightarrow> u128 outcome" where
  "vs_magnitude chk v = sum_from chk 0 (map ucast (vs_components v))"

definition vs_is_zero :: "vector_state \<Rightarrow> bool" where
  "vs_is_zero v = list_all (\<lambda>x. x = 0) (vs_components v)"

record vector_event =
  ev_event_id :: string
  ev_parent_hashes :: "string list"
  ev_region_id :: string
  ev_entity_id :: string
  ev_operation :: operation_type
  ev_vector_before :: vector_state
  ev_vector_after :: vector_state
  ev_auth_ratio :: f64
  ev_certified :: bool
  ev_actor_public_key :: string
  ev_logical_clock :: u64
  ev_timestamp :: u64
  ev_payload_hash :: string
  ev_event_hash :: string
  ev_signature :: string

definition ev_new ::
  "string \<Rightarrow> string list \<Rightarrow> string \<Rightarrow> string \<Rightarrow> operation_type \<Rightarrow> vector_state \<Rightarrow> vector_state \<Rightarrow>
     f64 \<Rightarrow> bool \<Rightarrow> string \<Rightarrow> u64 \<Rightarrow> u64 \<Rightarrow> vector_event" where
  "ev_new event_id parent_hashes region_id entity_id operation vector_before vector_after
       auth_ratio certified actor_public_key logical_clock timestamp =
     \<lparr> ev_event_id = event_id, ev_parent_hashes = parent_hashes, ev_region_id = region_id,
       ev_entity_id = entity_id, ev_operation = operation, ev_vector_before = vector_before,
       ev_vector_after = vector_after, ev_auth_ratio = auth_ratio, ev_certified = certified,
       ev_actor_public_key = actor_public_key, ev_logical_clock = logical_clock,
       ev_timestamp = timestamp, ev_payload_hash = [], ev_event_hash = [], ev_signature = [] \<rparr>"

definition canonical_event_id :: "string \<Rightarrow> string \<Rightarrow> operation_type \<Rightarrow> u64 \<Rightarrow> u64 \<Rightarrow> string" where
  "canonical_event_id entity_id region_id operation logical_clock sequence =
     entity_id @ ''::'' @ region_id @ ''::'' @ canonical_name operation @ ''::'' @
     show_word logical_clock @ ''::'' @ show_word sequence"

section \<open>Canonical bytes\<close>

fun op_canonical_bytes :: "operation_type \<Rightarrow> bytes" where
  "op_canonical_bytes Op_OriginCreate = write_str ''ORIGIN_CREATE''"
| "op_canonical_bytes Op_Certify = write_str ''CERTIFY''"
| "op_canonical_bytes Op_Transfer = write_str ''TRANSFER''"
| "op_canonical_bytes Op_Drain = write_str ''DRAIN''"
| "op_canonical_bytes Op_Project = write_str ''PROJECT''"
| "op_canonical_bytes Op_Reconstruct = write_str ''RECONSTRUCT''"
| "op_canonical_bytes Op_Move = write_str ''MOVE''"
| "op_canonical_bytes Op_Rotate = write_str ''ROTATE''"
| "op_canonical_bytes Op_Scale = write_str ''SCALE''"
| "op_canonical_bytes Op_Normalize = write_str ''NORMALIZE''"
| "op_canonical_bytes Op_Constrain = write_str ''CONSTRAIN''"
| "op_canonical_bytes Op_Query = write_str ''QUERY''"
| "op_canonical_bytes Op_Record = write_str ''RECORD''"
| "op_canonical_bytes (Op_Other name) = write_str ''OTHER'' @ write_str name"

definition vs_canonical_bytes :: "vector_state \<Rightarrow> bytes" where
  "vs_canonical_bytes v =
     write_vec_u64 (vs_components v) @ write_str (vs_owner_public_key v) @
     write_str (vs_type_tag v) @ write_btreemap_str_str (vs_metadata v)"

definition canonical_event_payload_bytes :: "vector_event \<Rightarrow> bytes" where
  "canonical_event_payload_bytes e =
     write_str (ev_event_id e) @
     write_vec_str (ev_parent_hashes e) @
     write_str (ev_region_id e) @
     write_str (ev_entity_id e) @
     op_canonical_bytes (ev_operation e) @
     vs_canonical_bytes (ev_vector_before e) @
     vs_canonical_bytes (ev_vector_after e) @
     write_f64 (ev_auth_ratio e) @
     write_bool (ev_certified e) @
     write_str (ev_actor_public_key e) @
     write_u64 (ev_logical_clock e) @
     write_u64 (ev_timestamp e)"

definition canonical_event_bytes :: "vector_event \<Rightarrow> bytes" where
  "canonical_event_bytes e = canonical_event_payload_bytes e @ write_str (ev_payload_hash e)"

text \<open>The trait method of \<open>VectorEvent\<close>, which writes the same fields on its own.\<close>

definition ev_canonical_bytes :: "vector_event \<Rightarrow> bytes" where
  "ev_canonical_bytes e =
     write_str (ev_event_id e) @
     write_vec_str (ev_parent_hashes e) @
     write_str (ev_region_id e) @
     write_str (ev_entity_id e) @
     op_canonical_bytes (ev_operation e) @
     vs_canonical_bytes (ev_vector_before e) @
     vs_canonical_bytes (ev_vector_after e) @
     write_f64 (ev_auth_ratio e) @
     write_bool (ev_certified e) @
     write_str (ev_actor_public_key e) @
     write_u64 (ev_logical_clock e) @
     write_u64 (ev_timestamp e) @
     write_str (ev_payload_hash e)"

definition sr_canonical_bytes :: "state_root \<Rightarrow> bytes" where
  "sr_canonical_bytes r =
     write_str (sr_root_hash r) @ write_u64 (sr_event_count r) @ write_u64 (sr_logical_clock r)"

definition btreemap_canonical_bytes :: "('v \<Rightarrow> bytes) \<Rightarrow> (string, 'v) btree \<Rightarrow> bytes" where
  "btreemap_canonical_bytes canonical_bytes m =
     write_u64 (of_nat (length m)) @
     concat (map (\<lambda>(key, value). write_str key @ canonical_bytes value) m)"

definition canonical_state_map_bytes :: "(string, vector_state) btree \<Rightarrow> bytes" where
  "canonical_state_map_bytes state =
     write_u64 (of_nat (length state)) @
     concat (map (\<lambda>(entity_id, vector). write_str entity_id @ vs_canonical_bytes vector) state)"

definition canonical_event_sequence_bytes :: "string list \<Rightarrow> bytes" where
  "canonical_event_sequence_bytes event_hashes =
     write_u64 (of_nat (length event_hashes)) @ concat (map write_str event_hashes)"

definition canonical_blob_bytes :: "string \<Rightarrow> bytes \<Rightarrow> bytes" where
  "canonical_blob_bytes tag payload = write_str tag @ write_bytes payload"

section \<open>Hashes\<close>

definition canonical_payload_hash :: "(bytes \<Rightarrow> string) \<Rightarrow> vector_event \<Rightarrow> string" where
  "canonical_payload_hash H e = H (canonical_event_payload_bytes e)"

definition canonical_event_hash :: "(bytes \<Rightarrow> string) \<Rightarrow> vector_event \<Rightarrow> string" where
  "canonical_event_hash H e = H (canonical_event_bytes e)"

definition canonical_state_root_hash :: "(bytes \<Rightarrow> string) \<Rightarrow> state_root \<Rightarrow> string" where
  "canonical_state_root_hash H r = H (sr_canonical_bytes r)"

definition canonical_replay_hash :: "(bytes \<Rightarrow> string) \<Rightarrow> string list \<Rightarrow> string" where
  "canonical_replay_hash H event_hashes =
     H (canonical_blob_bytes ''replay-v1'' [] @ canonical_event_sequence_bytes event_hashes)"

definition canonical_tagged_hash :: "(bytes \<Rightarrow> string) \<Rightarrow> string \<Rightarrow> bytes \<Rightarrow> string" where
  "canonical_tagged_hash H tag payload = H (canonical_blob_bytes tag payload)"

lemma ev_canonical_bytes_eq: "ev_canonical_bytes e = canonical_event_bytes e"
  by (simp add: ev_canonical_bytes_def canonical_event_bytes_def canonical_event_payload_bytes_def)

lemma btreemap_canonical_bytes_state_map:
  "btreemap_canonical_bytes vs_canonical_bytes m = canonical_state_map_bytes m"
  by (simp add: btreemap_canonical_bytes_def canonical_state_map_bytes_def)

section \<open>Readers\<close>

definition dec_op :: "bytes \<Rightarrow> (operation_type \<times> bytes) option" where
  "dec_op bs = do {
     (s, r) \<leftarrow> dec_str bs;
     if s = ''OTHER'' then map_option (\<lambda>(name, r). (Op_Other name, r)) (dec_str r)
     else do {
       t \<leftarrow> find (\<lambda>t. canonical_name t = s)
         [Op_OriginCreate, Op_Certify, Op_Transfer, Op_Drain, Op_Project, Op_Reconstruct, Op_Move,
          Op_Rotate, Op_Scale, Op_Normalize, Op_Constrain, Op_Query, Op_Record];
       Some (t, r)
     }
   }"

definition dec_vs :: "bytes \<Rightarrow> (vector_state \<times> bytes) option" where
  "dec_vs bs = do {
     (c, bs) \<leftarrow> dec_counted dec_word bs;
     (ow, bs) \<leftarrow> dec_str bs;
     (t, bs) \<leftarrow> dec_str bs;
     (m, bs) \<leftarrow> dec_map bs;
     Some (\<lparr> vs_components = c, vs_owner_public_key = ow, vs_type_tag = t, vs_metadata = m \<rparr>, bs)
   }"

definition dec_event_payload :: "bytes \<Rightarrow> (vector_event \<times> bytes) option" where
  "dec_event_payload bs = do {
     (i, bs) \<leftarrow> dec_str bs;
     (ps, bs) \<leftarrow> dec_counted dec_str bs;
     (rg, bs) \<leftarrow> dec_str bs;
     (en, bs) \<leftarrow> dec_str bs;
     (opn, bs) \<leftarrow> dec_op bs;
     (vb, bs) \<leftarrow> dec_vs bs;
     (va, bs) \<leftarrow> dec_vs bs;
     (ar, bs) \<leftarrow> dec_word bs;
     (ce, bs) \<leftarrow> dec_bool bs;
     (ac, bs) \<leftarrow> dec_str bs;
     (lc, bs) \<leftarrow> dec_word bs;
     (ts, bs) \<leftarrow> dec_word bs;
     Some (ev_new i ps rg en opn vb va ar ce ac lc ts, bs)
   }"

definition ok_op :: "operation_type \<Rightarrow> bool" where
  "ok_op t \<longleftrightarrow> (case t of Op_Other name \<Rightarrow> ok_len name | _ \<Rightarrow> True)"

definition ok_vs :: "vector_state \<Rightarrow> bool" where
  "ok_vs v \<longleftrightarrow> ok_len (vs_components v) \<and> ok_len (vs_owner_public_key v) \<and>
     ok_len (vs_type_tag v) \<and> ok_map (vs_metadata v)"

definition ok_event :: "vector_event \<Rightarrow> bool" where
  "ok_event e \<longleftrightarrow> ok_len (ev_event_id e) \<and> ok_counted ok_len (ev_parent_hashes e) \<and>
     ok_len (ev_region_id e) \<and> ok_len (ev_entity_id e) \<and> ok_op (ev_operation e) \<and>
     ok_vs (ev_vector_before e) \<and> ok_vs (ev_vector_after e) \<and> ok_len (ev_actor_public_key e) \<and>
     ok_len (ev_payload_hash e)"

text \<open>The event without the fields outside the payload, and without those outside the event hash.\<close>

definition payload_of :: "vector_event \<Rightarrow> vector_event" where
  "payload_of e = e\<lparr> ev_payload_hash := [], ev_event_hash := [], ev_signature := [] \<rparr>"

definition content_of :: "vector_event \<Rightarrow> vector_event" where
  "content_of e = e\<lparr> ev_event_hash := [], ev_signature := [] \<rparr>"

interpretation op: codec op_canonical_bytes dec_op ok_op
proof
  fix x r assume "ok_op x"
  then show "dec_op (op_canonical_bytes x @ r) = Some (x, r)"
    by (cases x) (simp_all add: dec_op_def ok_op_def str.dec_enc ok_len_def)
qed

interpretation vs: codec vs_canonical_bytes dec_vs ok_vs
  by unfold_locales (simp add: vs_canonical_bytes_def dec_vs_def ok_vs_def dec_enc_simps)

lemma dec_event_payload_write:
  "ok_event e \<Longrightarrow> dec_event_payload (canonical_event_payload_bytes e @ r) = Some (payload_of e, r)"
  by (simp add: canonical_event_payload_bytes_def dec_event_payload_def ok_event_def dec_enc_simps
      op.dec_enc vs.dec_enc write_f64_def ev_new_def payload_of_def)

lemma payload_bytes_payload_of:
  "canonical_event_payload_bytes (payload_of e) = canonical_event_payload_bytes e"
  by (simp add: canonical_event_payload_bytes_def payload_of_def)

interpretation event_payload: codec canonical_event_payload_bytes dec_event_payload
  "\<lambda>e. ok_event e \<and> payload_of e = e"
  by unfold_locales (simp add: dec_event_payload_write)

section \<open>Properties\<close>

lemma ok_payload_of: "ok_event e \<Longrightarrow> ok_event (payload_of e) \<and> payload_of (payload_of e) = payload_of e"
  by (simp add: ok_event_def payload_of_def ok_len_def)

lemma content_of_eq_iff:
  "content_of e = content_of f \<longleftrightarrow>
     payload_of e = payload_of f \<and> ev_payload_hash e = ev_payload_hash f"
  by (cases e; cases f) (auto simp: content_of_def payload_of_def)

lemma event_bytes_iff:
  assumes "ok_event e" "ok_event f"
  shows "(canonical_event_bytes e = canonical_event_bytes f \<longleftrightarrow> content_of e = content_of f) \<and>
    (canonical_event_payload_bytes e = canonical_event_payload_bytes f \<longleftrightarrow>
       payload_of e = payload_of f)"
proof
  have prefix: "canonical_event_payload_bytes e @ r = canonical_event_payload_bytes f @ s \<longleftrightarrow>
      payload_of e = payload_of f \<and> r = s" for r s
    using event_payload.enc_prefix_free [of "payload_of e" "payload_of f" r s]
      ok_payload_of [OF assms(1)] ok_payload_of [OF assms(2)]
    by (simp add: payload_bytes_payload_of)
  from prefix [of "[]" "[]"]
  show "canonical_event_payload_bytes e = canonical_event_payload_bytes f \<longleftrightarrow>
           payload_of e = payload_of f" by simp
  have "write_str (ev_payload_hash e) = write_str (ev_payload_hash f) \<longleftrightarrow>
      ev_payload_hash e = ev_payload_hash f"
    using assms by (intro str.enc_inject) (simp_all add: ok_event_def)
  then show "canonical_event_bytes e = canonical_event_bytes f \<longleftrightarrow> content_of e = content_of f"
    unfolding canonical_event_bytes_def prefix content_of_eq_iff by simp
qed

text \<open>
  C35: The canonical event bytes, which \<open>event_hash\<close> is the hash of, bind exactly the event without
  its own hash and its signature: two events have the same bytes exactly when they agree on all other
  fields, the payload hash included. The payload bytes, which \<open>payload_hash\<close> hashes and a signature
  signs, leave out the payload hash as well.
\<close>

theorem canonical_event_bytes_binding:
  assumes "ok_event e" "ok_event f"
  shows "(canonical_event_bytes e = canonical_event_bytes f \<longleftrightarrow> content_of e = content_of f) \<and>
    (canonical_event_payload_bytes e = canonical_event_payload_bytes f \<longleftrightarrow>
       payload_of e = payload_of f)"
  by (rule event_bytes_iff [OF assms])

definition sample_event :: vector_event where
  "sample_event =
     ev_new ''v-a::space-1::ORIGIN_CREATE::1::1'' [] ''space-1'' ''v-a'' Op_OriginCreate
       (vs_zero 2 ''pk-a'' ''Origin'') (vs_new [1000, 2000] ''pk-a'' ''Origin'' [])
       f64_one True ''pk-a'' 1 17"

lemma sample_event_ok: "ok_event sample_event"
  by (simp add: sample_event_def ev_new_def vs_zero_def vs_new_def ok_event_def ok_vs_def ok_op_def
      ok_len_def ok_map_def ok_counted_def)

theorem canonical_event_bytes_binding_witness:
  "canonical_event_bytes sample_event = canonical_event_bytes (sample_event\<lparr>ev_signature := ''00''\<rparr>) \<and>
   canonical_event_bytes sample_event \<noteq> canonical_event_bytes (sample_event\<lparr>ev_timestamp := 18\<rparr>)"
proof -
  have ok: "ok_event (sample_event\<lparr>ev_signature := ''00''\<rparr>)" "ok_event (sample_event\<lparr>ev_timestamp := 18\<rparr>)"
    using sample_event_ok by (simp_all add: ok_event_def)
  have "content_of sample_event = content_of (sample_event\<lparr>ev_signature := ''00''\<rparr>)"
    "content_of sample_event \<noteq> content_of (sample_event\<lparr>ev_timestamp := 18\<rparr>)"
    by (simp_all add: content_of_def sample_event_def ev_new_def)
  with canonical_event_bytes_binding [OF sample_event_ok ok(1)]
    canonical_event_bytes_binding [OF sample_event_ok ok(2)] show ?thesis by blast
qed

end
