(* ===== verification/Kahn.thy ===== *)
theory Kahn
  imports Events
begin

text \<open>
  What \<open>validate_dag\<close>, \<open>topological_order\<close> (\<^verbatim>\<open>src/src/dag.rs\<close>) and \<open>order_entity_events\<close>
  (\<^verbatim>\<open>src/src/replay.rs\<close>) share: the graph of events by hash, the decrements of the in-degrees, and
  the loops that take the nodes without unvisited parents. A node is an event hash; \<open>look\<close> is the
  event of a hash. The lemmas say what such a loop computes on a graph whose degrees and children
  were filled from the parents of its nodes.
\<close>

section \<open>The loops\<close>

type_synonym degrees = "(string, nat) btree"
type_synonym graph = "(string, string list) btree"

text \<open>
  Sorting hashes by a key of their events; the comparison unwraps the lookup of both, which panics
  on a hash without event.
\<close>

definition sort_nodes ::
  "(vector_event \<Rightarrow> 'k::linorder) \<Rightarrow> (string \<Rightarrow> vector_event option) \<Rightarrow> string list \<Rightarrow>
     string list text_outcome" where
  "sort_nodes key look hs =
     (if 1 < length hs \<and> \<not> list_all (\<lambda>h. look h \<noteq> None) hs then Panicked
      else Ok (sort_key (\<lambda>h. map_option key (look h)) hs))"

text \<open>
  The children of a visited node: each loses one parent, and joins the queue when that was its last.
  The subtraction underflows at 0, a panic with overflow checks; the lemmas below show that no caller
  reaches it.
\<close>

fun release :: "string list \<Rightarrow> degrees \<Rightarrow> string list \<Rightarrow> (degrees \<times> string list) text_outcome" where
  "release [] d q = Ok (d, q)"
| "release (c # cs) d q =
     (case bt_get d c of
        None \<Rightarrow> release cs d q
      | Some 0 \<Rightarrow> Panicked
      | Some (Suc n) \<Rightarrow> release cs (bt_set c n d) (if n = 0 then q @ [c] else q))"

lemma release_decreases:
  "release cs d q = Ok (d', q') \<Longrightarrow>
     sum_list (bt_values d') + length q' \<le> sum_list (bt_values d) + length q"
proof (induction cs arbitrary: d q)
  case (Cons c cs)
  show ?case
  proof (cases "bt_get d c")
    case None
    with Cons show ?thesis by simp
  next
    case (Some k)
    with Cons.prems obtain n where n: "k = Suc n"
      "release cs (bt_set c n d) (if n = 0 then q @ [c] else q) = Ok (d', q')"
      by (cases k) simp_all
    from Cons.IH [OF n(2)] sum_bt_set [of d c k n] Some n(1) show ?thesis
      by (auto split: if_splits)
  qed
qed simp

lemma and_then_cong [fundef_cong]:
  "m = n \<Longrightarrow> (\<And>x. n = Ok x \<Longrightarrow> f x = g x) \<Longrightarrow> and_then m f = and_then n g"
  by (cases n) auto

text \<open>The loop of \<open>validate_dag\<close>: a queue, whose nodes are only counted.\<close>

function count_loop ::
  "(vector_event \<Rightarrow> 'k::linorder) \<Rightarrow> (string \<Rightarrow> vector_event option) \<Rightarrow> graph \<Rightarrow> degrees \<Rightarrow>
     string list \<Rightarrow> nat \<Rightarrow> nat text_outcome" where
  "count_loop key look children d [] visited = Ok visited"
| "count_loop key look children d (node # queue) visited =
     and_then (case bt_get children node of None \<Rightarrow> Ok [] | Some cs \<Rightarrow> sort_nodes key look cs) (\<lambda>cs.
     and_then (release cs d queue) (\<lambda>(d', queue').
     count_loop key look children d' queue' (visited + 1)))"
  by pat_completeness auto
termination
  by (relation "measure (\<lambda>(key, look, children, d, queue, visited). sum_list (bt_values d) + length queue)")
    (auto dest!: release_decreases)

text \<open>The loop of the two orderings: a list kept sorted, whose first node is taken.\<close>

function order_loop ::
  "(vector_event \<Rightarrow> 'k::linorder) \<Rightarrow> string \<Rightarrow> (string \<Rightarrow> vector_event option) \<Rightarrow> graph \<Rightarrow> degrees \<Rightarrow>
     string list \<Rightarrow> vector_event list \<Rightarrow> vector_event list text_outcome" where
  "order_loop key missing look children d [] ordered = Ok ordered"
| "order_loop key missing look children d (node # ready) ordered =
     and_then (ok_or (missing @ node) (look node)) (\<lambda>ev.
     and_then (sort_nodes key look (case bt_get children node of None \<Rightarrow> [] | Some cs \<Rightarrow> cs)) (\<lambda>cs.
     and_then (release cs d ready) (\<lambda>(d', ready').
     and_then (sort_nodes key look ready') (\<lambda>ready''.
     order_loop key missing look children d' ready'' (ordered @ [ev])))))"
  by pat_completeness auto
termination
  by (relation "measure (\<lambda>(key, missing, look, children, d, ready, ordered).
        sum_list (bt_values d) + length ready)")
    (auto dest!: release_decreases simp: sort_nodes_def split: if_splits)

section \<open>Filling the graph\<close>

text \<open>\<open>entry(hash).or_insert(0)\<close> and \<open>entry(hash).or_default()\<close>, then what one edge adds.\<close>

definition node_entry :: "string \<Rightarrow> graph \<times> degrees \<Rightarrow> graph \<times> degrees" where
  "node_entry h = (\<lambda>(g, d). (bt_update h (\<lambda>cs. cs) [] g, bt_update h (\<lambda>n. n) 0 d))"

definition edge_entry :: "string \<Rightarrow> string \<Rightarrow> graph \<times> degrees \<Rightarrow> graph \<times> degrees" where
  "edge_entry p h = (\<lambda>(g, d). (bt_update p (\<lambda>cs. cs @ [h]) [] g, bt_update h Suc 0 d))"

definition roots :: "degrees \<Rightarrow> string list" where
  "roots d = map fst (filter (\<lambda>(_, deg). deg = 0) d)"

section \<open>Graphs and their orders\<close>

text \<open>The nodes \<open>V\<close> with the parents \<open>par\<close> of each, and the children the map \<open>g\<close> gives.\<close>

definition kahn_graph :: "string set \<Rightarrow> (string \<Rightarrow> string list) \<Rightarrow> graph \<Rightarrow> bool" where
  "kahn_graph V par g \<longleftrightarrow>
     finite V \<and> (\<forall>h \<in> V. distinct (par h) \<and> set (par h) \<subseteq> V) \<and>
     (\<forall>p \<in> V. \<exists>cs. bt_get g p = Some cs \<and> distinct cs \<and> set cs = {h \<in> V. p \<in> set (par h)})"

definition edges :: "string set \<Rightarrow> (string \<Rightarrow> string list) \<Rightarrow> (string \<times> string) set" where
  "edges V par = {(p, h). h \<in> V \<and> p \<in> set (par h)}"

fun parents_before :: "(string \<Rightarrow> string list) \<Rightarrow> string set \<Rightarrow> string list \<Rightarrow> bool" where
  "parents_before par seen [] = True"
| "parents_before par seen (h # hs) = (set (par h) \<subseteq> seen \<and> parents_before par (insert h seen) hs)"

abbreviation parents_first :: "(string \<Rightarrow> string list) \<Rightarrow> string list \<Rightarrow> bool" where
  "parents_first par hs \<equiv> parents_before par {} hs"

definition available :: "string set \<Rightarrow> (string \<Rightarrow> string list) \<Rightarrow> string list \<Rightarrow> string set" where
  "available V par seen = {h \<in> V. set (par h) \<subseteq> set seen}"

definition unseen :: "string list \<Rightarrow> string list \<Rightarrow> nat" where
  "unseen seen ps = length (filter (\<lambda>p. p \<notin> set seen) ps)"

definition kahn_state ::
  "string set \<Rightarrow> (string \<Rightarrow> string list) \<Rightarrow> degrees \<Rightarrow> string list \<Rightarrow> string list \<Rightarrow> bool" where
  "kahn_state V par d queue seen \<longleftrightarrow>
     distinct (seen @ queue) \<and> set (seen @ queue) = available V par seen \<and>
     (\<forall>h \<in> V. bt_get d h = Some (unseen seen (par h))) \<and>
     parents_first par seen"

lemma parents_before_snoc:
  "parents_before par seen (hs @ [h]) \<longleftrightarrow>
     parents_before par seen hs \<and> set (par h) \<subseteq> seen \<union> set hs"
  by (induction hs arbitrary: seen) auto

lemma parents_first_acyclic:
  assumes "parents_first par hs" "set hs = V" "distinct hs"
  shows "acyclic (edges V par)"
proof -
  have "parents_before par seen hs \<Longrightarrow> distinct hs \<Longrightarrow> seen \<inter> set hs = {} \<Longrightarrow>
      \<forall>(p, h) \<in> edges (set hs) par. p \<in> seen \<or>
        (\<exists>i j. i < j \<and> j < length hs \<and> hs ! i = p \<and> hs ! j = h)" for seen
  proof (induction hs arbitrary: seen)
    case (Cons x xs)
    then have IH: "\<forall>(p, h) \<in> edges (set xs) par. p \<in> insert x seen \<or>
        (\<exists>i j. i < j \<and> j < length xs \<and> xs ! i = p \<and> xs ! j = h)"
      by (intro Cons.IH) auto
    show ?case
    proof (clarify, goal_cases)
      case (1 p h)
      show ?case
      proof (cases "h = x")
        case True
        with 1 Cons.prems show ?thesis by (auto simp: edges_def)
      next
        case False
        with 1(1) have m: "(p, h) \<in> edges (set xs) par" by (auto simp: edges_def)
        then obtain j where j: "j < length xs" "xs ! j = h"
          by (auto simp: edges_def in_set_conv_nth)
        note goal_case = 1
        from IH m consider "p = x" | "p \<in> seen"
          | i j where "i < j" "j < length xs" "xs ! i = p" "xs ! j = h" by auto
        then show ?thesis
        proof cases
          case 1
          with j have "0 < Suc j \<and> Suc j < length (x # xs) \<and> (x # xs) ! 0 = p \<and> (x # xs) ! Suc j = h"
            by simp
          then show ?thesis using goal_case by blast
        next
          case (3 i j)
          then have "Suc i < Suc j \<and> Suc j < length (x # xs) \<and> (x # xs) ! Suc i = p \<and>
              (x # xs) ! Suc j = h" by simp
          then show ?thesis using goal_case by blast
        qed (use goal_case in blast)
      qed
    qed
  qed (simp add: edges_def)
  from this [OF assms(1,3)] assms(2)
  have "\<forall>(p, h) \<in> edges V par. \<exists>i j. i < j \<and> j < length hs \<and> hs ! i = p \<and> hs ! j = h" by simp
  then have "edges V par \<subseteq> inv_image less_than (\<lambda>h. THE i. i < length hs \<and> hs ! i = h)"
  proof (safe, goal_cases)
    case (1 p h)
    then obtain i j where ij: "i < j" "j < length hs" "hs ! i = p" "hs ! j = h" by auto
    then have "(THE i. i < length hs \<and> hs ! i = p) = i" "(THE i. i < length hs \<and> hs ! i = h) = j"
      using assms(3) by (auto intro!: the_equality simp: nth_eq_iff_index_eq)
    with ij show ?case by simp
  qed
  then show ?thesis by (rule acyclic_subset [rotated]) (simp add: wf_acyclic wf_inv_image)
qed

lemma release_spec:
  assumes "distinct cs" "\<forall>c \<in> set cs. \<exists>k. bt_get d c = Some (Suc k)"
  shows "\<exists>d'. release cs d q = Ok (d', q @ filter (\<lambda>c. bt_get d c = Some 1) cs) \<and>
    (\<forall>h. bt_get d' h = (if h \<in> set cs then map_option (\<lambda>n. n - 1) (bt_get d h) else bt_get d h))"
  using assms
proof (induction cs arbitrary: d q)
  case (Cons c cs)
  then obtain k where k: "bt_get d c = Some (Suc k)" by auto
  let ?d = "bt_set c k d"
  have other: "bt_get ?d h = bt_get d h" if "h \<noteq> c" for h using that by (simp add: bt_get_set)
  have "c \<notin> set cs" "distinct cs" using Cons.prems(1) by simp_all
  have f: "filter (\<lambda>h. bt_get ?d h = Some 1) cs = filter (\<lambda>h. bt_get d h = Some 1) cs"
    using \<open>c \<notin> set cs\<close> by (intro filter_cong refl) (metis other)
  have "\<forall>h \<in> set cs. \<exists>k. bt_get ?d h = Some (Suc k)"
    using Cons.prems(2) \<open>c \<notin> set cs\<close> other by (metis list.set_intros(2))
  from Cons.IH [OF \<open>distinct cs\<close> this, of "if k = 0 then q @ [c] else q"]
  obtain d' where d': "release cs ?d (if k = 0 then q @ [c] else q) =
      Ok (d', (if k = 0 then q @ [c] else q) @ filter (\<lambda>c. bt_get d c = Some 1) cs)"
    "\<forall>h. bt_get d' h = (if h \<in> set cs then map_option (\<lambda>n. n - 1) (bt_get ?d h) else bt_get ?d h)"
    unfolding f by blast
  have "release (c # cs) d q = Ok (d', q @ filter (\<lambda>c. bt_get d c = Some 1) (c # cs))"
    using k d'(1) by simp
  moreover have "bt_get d' h =
      (if h \<in> set (c # cs) then map_option (\<lambda>n. n - 1) (bt_get d h) else bt_get d h)" for h
    using d'(2) k \<open>c \<notin> set cs\<close> by (cases "h = c") (simp_all add: other bt_get_set)
  ultimately show ?case by blast
qed simp

lemma unseen_0: "unseen seen ps = 0 \<longleftrightarrow> set ps \<subseteq> set seen"
  by (auto simp: unseen_def filter_empty_conv)

lemma unseen_snoc:
  assumes "distinct ps" "n \<notin> set seen"
  shows "unseen (seen @ [n]) ps = (if n \<in> set ps then unseen seen ps - 1 else unseen seen ps)"
proof -
  have "filter (\<lambda>p. p \<notin> set (seen @ [n])) ps = removeAll n (filter (\<lambda>p. p \<notin> set seen) ps)"
    unfolding removeAll_filter_not_eq filter_filter by (rule filter_cong) auto
  also have "\<dots> = remove1 n (filter (\<lambda>p. p \<notin> set seen) ps)"
    using assms(1) by (simp only: distinct_remove1_removeAll distinct_filter)
  finally show ?thesis
    using assms(2) by (simp add: unseen_def length_remove1 del: set_append)
qed

lemma kahn_step:
  assumes "kahn_graph V par g" "kahn_state V par d (n # q) seen"
    and "bt_get g n = Some cs" "mset cs' = mset cs"
  shows "\<exists>d' new. release cs' d q = Ok (d', q @ new) \<and> kahn_state V par d' (q @ new) (seen @ [n])"
proof -
  from assms(2) have n: "n \<in> V" "set (par n) \<subseteq> set seen" "n \<notin> set seen" "n \<notin> set q"
    and deg: "\<And>h. h \<in> V \<Longrightarrow> bt_get d h = Some (unseen seen (par h))"
    and av: "set (seen @ n # q) = available V par seen" "distinct (seen @ n # q)"
    by (auto simp: kahn_state_def available_def)
  have cs: "set cs' = {h \<in> V. n \<in> set (par h)}" "distinct cs'"
  proof -
    from assms(1) n(1) obtain cs0 where c: "bt_get g n = Some cs0" "distinct cs0"
      "set cs0 = {h \<in> V. n \<in> set (par h)}"
      unfolding kahn_graph_def by blast
    with assms(3) have "cs0 = cs" by simp
    with c mset_eq_setD [OF assms(4)] mset_eq_imp_distinct_iff [OF assms(4)]
    show "set cs' = {h \<in> V. n \<in> set (par h)}" "distinct cs'" by simp_all
  qed
  have pos: "unseen seen (par h) \<noteq> 0" if "h \<in> V" "n \<in> set (par h)" for h
    using that n(3) by (auto simp: unseen_0)
  have "\<forall>c \<in> set cs'. \<exists>k. bt_get d c = Some (Suc k)"
    using cs(1) deg pos by (auto simp: not0_implies_Suc)
  from release_spec [OF cs(2) this, of q] obtain d' where
    r: "release cs' d q = Ok (d', q @ filter (\<lambda>c. bt_get d c = Some 1) cs')"
    and d': "\<And>h. bt_get d' h = (if h \<in> set cs' then map_option (\<lambda>n. n - 1) (bt_get d h) else bt_get d h)"
    by blast
  let ?new = "filter (\<lambda>c. bt_get d c = Some 1) cs'"
  have dist: "distinct (par h)" if "h \<in> V" for h using assms(1) that by (simp add: kahn_graph_def)
  have deg': "bt_get d' h = Some (unseen (seen @ [n]) (par h))" if "h \<in> V" for h
    using that unfolding d' unseen_snoc [OF dist [OF that] n(3)] by (simp add: deg cs(1))
  have avail: "h \<in> available V par seen \<longleftrightarrow> h \<in> V \<and> unseen seen (par h) = 0" for h
    by (auto simp: available_def unseen_0)
  have avail': "h \<in> available V par (seen @ [n]) \<longleftrightarrow>
      h \<in> V \<and> unseen (seen @ [n]) (par h) = 0" for h
    by (auto simp: available_def unseen_0)
  have new: "h \<in> set ?new \<longleftrightarrow> h \<in> V \<and> n \<in> set (par h) \<and> unseen seen (par h) = 1" for h
    using deg by (auto simp: cs(1))
  have "set ((seen @ [n]) @ q @ ?new) = available V par (seen @ [n])"
  proof (rule set_eqI)
    fix h
    have "h \<in> set ((seen @ [n]) @ q @ ?new) \<longleftrightarrow> h \<in> available V par seen \<or> h \<in> set ?new"
      using av(1) by auto
    also have "\<dots> \<longleftrightarrow> h \<in> V \<and> (unseen seen (par h) = 0 \<or> n \<in> set (par h) \<and> unseen seen (par h) = 1)"
      unfolding avail new by blast
    also have "\<dots> \<longleftrightarrow> h \<in> available V par (seen @ [n])"
      unfolding avail' by (cases "h \<in> V") (auto simp: unseen_snoc [OF dist n(3)])
    finally show "h \<in> set ((seen @ [n]) @ q @ ?new) \<longleftrightarrow> h \<in> available V par (seen @ [n])" .
  qed
  moreover have "set ?new \<inter> available V par seen = {}"
    unfolding set_eq_iff Int_iff avail new by auto
  then have "distinct ((seen @ [n]) @ q @ ?new)"
    using av cs(2) by auto
  moreover have "parents_first par (seen @ [n])"
    using assms(2) n(2) by (simp add: kahn_state_def parents_before_snoc)
  ultimately show ?thesis
    using r deg' by (intro exI [of _ d'] exI [of _ ?new]) (simp add: kahn_state_def)
qed

lemma kahn_end:
  assumes "kahn_graph V par g" "kahn_state V par d [] seen"
  shows "set seen \<subseteq> V \<and> distinct seen \<and> parents_first par seen \<and>
    (set seen = V \<longleftrightarrow> acyclic (edges V par))"
proof -
  have s: "set seen = available V par seen" "distinct seen" "parents_first par seen"
    using assms(2) by (simp_all add: kahn_state_def)
  have "available V par seen \<subseteq> V" by (auto simp: available_def)
  with s(1) have "set seen \<subseteq> V" by blast
  moreover have "set seen = V" if "acyclic (edges V par)"
  proof (rule ccontr)
    assume "set seen \<noteq> V"
    with \<open>set seen \<subseteq> V\<close> obtain h where h: "h \<in> V - set seen" by blast
    have "edges V par \<subseteq> V \<times> V" "finite (V \<times> V)"
      using assms(1) by (auto simp: kahn_graph_def edges_def)
    then have "finite (edges V par)" by (rule finite_subset)
    then have "wf (edges V par)" using that by (rule finite_acyclic_wf)
    from wfE_min [OF this h] obtain m where m: "m \<in> V - set seen"
      "\<And>p. (p, m) \<in> edges V par \<Longrightarrow> p \<notin> V - set seen" by blast
    have "set (par m) \<subseteq> set seen"
    proof
      fix p assume p: "p \<in> set (par m)"
      then have "p \<in> V" using assms(1) m(1) by (auto simp: kahn_graph_def)
      moreover have "p \<notin> V - set seen"
        using p m(1) by (intro m(2)) (simp add: edges_def)
      ultimately show "p \<in> set seen" by blast
    qed
    then have "m \<in> available V par seen" using m(1) by (simp add: available_def)
    with m(1) show False unfolding s(1) [symmetric] by blast
  qed
  ultimately show ?thesis
    using s parents_first_acyclic [OF s(3) _ s(2), of V] by blast
qed

section \<open>What the loops compute\<close>

lemma sort_nodes_Ok:
  assumes "\<forall>h \<in> set hs. look h \<noteq> None"
  shows "\<exists>hs'. sort_nodes key look hs = Ok hs' \<and> mset hs' = mset hs"
  using assms by (auto simp: sort_nodes_def list_all_iff)

lemma kahn_children:
  assumes "kahn_graph V par g" "n \<in> V" "\<forall>h \<in> V. look h \<noteq> None"
  shows "\<exists>cs cs'. bt_get g n = Some cs \<and> sort_nodes key look cs = Ok cs' \<and> mset cs' = mset cs"
proof -
  from assms(1,2) obtain cs where "bt_get g n = Some cs" "set cs \<subseteq> V"
    by (auto simp: kahn_graph_def)
  with sort_nodes_Ok [of cs look key] assms(3) show ?thesis by blast
qed

lemma kahn_state_node: "kahn_state V par d (n # q) seen \<Longrightarrow> n \<in> V"
  by (auto simp: kahn_state_def available_def)

lemma count_loop_Ok:
  assumes "kahn_graph V par g" "\<forall>h \<in> V. look h \<noteq> None" "kahn_state V par d q seen"
  shows "\<exists>d' seen'. kahn_state V par d' [] seen' \<and>
    count_loop key look g d q (length seen) = Ok (length seen')"
  using assms(3)
proof (induction "sum_list (bt_values d) + length q" arbitrary: d q seen rule: less_induct)
  case less
  show ?case
  proof (cases q)
    case Nil
    with less.prems show ?thesis by auto
  next
    case (Cons n q1)
    with less.prems have n: "kahn_state V par d (n # q1) seen" by simp
    from kahn_children [OF assms(1) kahn_state_node [OF n] assms(2), of key] obtain cs cs' where
      cs: "bt_get g n = Some cs" "sort_nodes key look cs = Ok cs'" "mset cs' = mset cs" by blast
    from kahn_step [OF assms(1) n cs(1,3)] obtain d' new where
      r: "release cs' d q1 = Ok (d', q1 @ new)" "kahn_state V par d' (q1 @ new) (seen @ [n])" by blast
    have "sum_list (bt_values d') + length (q1 @ new) < sum_list (bt_values d) + length q"
      using release_decreases [OF r(1)] Cons by simp
    from less.hyps [OF this r(2)] r(1) cs Cons show ?thesis by simp
  qed
qed

lemma order_loop_Ok:
  assumes "kahn_graph V par g" "\<forall>h \<in> V. \<exists>e. look h = Some e \<and> ev_event_hash e = h"
    and "kahn_state V par d q (map ev_event_hash ordered)" "\<forall>e \<in> set ordered. look (ev_event_hash e) = Some e"
  shows "\<exists>d' ordered'. kahn_state V par d' [] (map ev_event_hash ordered') \<and>
    (\<forall>e \<in> set ordered'. look (ev_event_hash e) = Some e) \<and>
    order_loop key missing look g d q ordered = Ok ordered'"
  using assms(3,4)
proof (induction "sum_list (bt_values d) + length q" arbitrary: d q ordered rule: less_induct)
  case less
  have l: "\<forall>h \<in> V. look h \<noteq> None" using assms(2) by auto
  show ?case
  proof (cases q)
    case Nil
    with less.prems show ?thesis by auto
  next
    case (Cons n q1)
    with less.prems have n: "kahn_state V par d (n # q1) (map ev_event_hash ordered)" by simp
    obtain e where e: "look n = Some e" "ev_event_hash e = n"
      using assms(2) kahn_state_node [OF n] by blast
    from kahn_children [OF assms(1) kahn_state_node [OF n] l, of key] obtain cs cs' where
      cs: "bt_get g n = Some cs" "sort_nodes key look cs = Ok cs'" "mset cs' = mset cs" by blast
    from kahn_step [OF assms(1) n cs(1,3)] obtain d' new where
      r: "release cs' d q1 = Ok (d', q1 @ new)"
      "kahn_state V par d' (q1 @ new) (map ev_event_hash ordered @ [n])" by blast
    have "set (q1 @ new) \<subseteq> V" using r(2) by (auto simp: kahn_state_def available_def)
    with l sort_nodes_Ok [of "q1 @ new" look key] obtain q' where
      q': "sort_nodes key look (q1 @ new) = Ok q'" "mset q' = mset (q1 @ new)" by blast
    have "kahn_state V par d' q' (map ev_event_hash (ordered @ [e]))"
      using r(2) mset_eq_setD [OF q'(2)] mset_eq_imp_distinct_iff [OF q'(2)] e(2)
      by (auto simp: kahn_state_def)
    moreover have "sum_list (bt_values d') + length q' < sum_list (bt_values d) + length q"
      using release_decreases [OF r(1)] Cons mset_eq_length [OF q'(2)] by simp
    moreover have "\<forall>x \<in> set (ordered @ [e]). look (ev_event_hash x) = Some x"
      using less.prems(2) e by simp
    ultimately obtain d2 ordered' where
      "kahn_state V par d2 [] (map ev_event_hash ordered') \<and>
       (\<forall>e \<in> set ordered'. look (ev_event_hash e) = Some e) \<and>
       order_loop key missing look g d' q' (ordered @ [e]) = Ok ordered'"
      using less.hyps by blast
    then show ?thesis using cs r(1) q'(1) e(1) Cons by auto
  qed
qed

section \<open>The filled graph\<close>

definition edge_list :: "(string \<Rightarrow> string list) \<Rightarrow> string list \<Rightarrow> (string \<times> string) list" where
  "edge_list par hs = concat (map (\<lambda>h. map (\<lambda>p. (p, h)) (par h)) hs)"

definition filled :: "(string \<Rightarrow> string list) \<Rightarrow> string list \<Rightarrow> graph \<times> degrees" where
  "filled par hs = fold (\<lambda>(p, h). edge_entry p h) (edge_list par hs) (fold node_entry hs ([], []))"

lemma node_entries:
  assumes "fold node_entry hs (g, d) = (g', d')"
  shows "bt_get d' h = (if h \<in> set hs \<and> bt_get d h = None then Some 0 else bt_get d h) \<and>
    bt_get g' h = (if h \<in> set hs \<and> bt_get g h = None then Some [] else bt_get g h) \<and>
    (bt_ordered d \<longrightarrow> bt_ordered d') \<and> fst ` set d' = set hs \<union> fst ` set d \<and>
    fst ` set g' = set hs \<union> fst ` set g"
  using assms
proof (induction hs arbitrary: g d)
  case (Cons x hs)
  then show ?case
    by (auto simp: node_entry_def split: option.splits)
qed simp

lemma edge_entries:
  assumes "fold (\<lambda>(p, h). edge_entry p h) ps (g, d) = (g', d')"
  shows "(\<forall>n. bt_get d h = Some n \<longrightarrow> bt_get d' h = Some (n + length (filter (\<lambda>(_, h'). h' = h) ps))) \<and>
    (\<forall>cs. bt_get g p = Some cs \<longrightarrow> bt_get g' p = Some (cs @ map snd (filter (\<lambda>(p', _). p' = p) ps))) \<and>
    (bt_ordered d \<longrightarrow> bt_ordered d') \<and> fst ` set d' = snd ` set ps \<union> fst ` set d \<and>
    fst ` set g' = fst ` set ps \<union> fst ` set g"
  using assms
proof (induction ps arbitrary: g d)
  case (Cons x ps)
  obtain q k where x: "x = (q, k)" by (cases x)
  let ?g = "bt_update q (\<lambda>cs. cs @ [k]) [] g" and ?d = "bt_update k Suc 0 d"
  have "fold (\<lambda>(p, h). edge_entry p h) ps (?g, ?d) = (g', d')"
    using Cons.prems by (simp add: x edge_entry_def)
  from Cons.IH [OF this] show ?case by (auto simp: x)
qed simp

lemma edge_list_into:
  "distinct hs \<Longrightarrow> h \<in> set hs \<Longrightarrow> filter (\<lambda>(_, h'). h' = h) (edge_list par hs) = map (\<lambda>p. (p, h)) (par h)"
proof (induction hs)
  case (Cons x hs)
  have out: "filter (\<lambda>(_, h'). h' = h) (edge_list par ys) = []" if "h \<notin> set ys" for ys
    using that by (auto simp: edge_list_def filter_empty_conv)
  show ?case
  proof (cases "x = h")
    case True
    with Cons.prems out [of hs] show ?thesis by (simp add: edge_list_def filter_map comp_def)
  next
    case False
    with Cons show ?thesis by (simp add: edge_list_def filter_map comp_def)
  qed
qed simp

lemma edge_list_from:
  "\<forall>h \<in> set hs. distinct (par h) \<Longrightarrow>
     map snd (filter (\<lambda>(p', _). p' = p) (edge_list par hs)) = filter (\<lambda>h. p \<in> set (par h)) hs"
proof (induction hs)
  case (Cons x hs)
  have "map snd (filter (\<lambda>(p', _). p' = p) (map (\<lambda>p. (p, x)) ps)) = (if p \<in> set ps then [x] else [])"
    if "distinct ps" for ps
    using that by (induction ps) auto
  with Cons show ?case by (simp add: edge_list_def)
qed (simp add: edge_list_def)

lemma filled_graph:
  assumes "distinct hs" "\<forall>h \<in> set hs. distinct (par h) \<and> set (par h) \<subseteq> set hs" "filled par hs = (g, d)"
  shows "kahn_graph (set hs) par g \<and> kahn_state (set hs) par d (roots d) [] \<and> bt_ordered d \<and>
    fst ` set d = set hs \<and> (\<forall>h \<in> set hs. bt_get d h = Some (length (par h))) \<and>
    fst ` set g = set hs"
proof -
  obtain g0 d0 where 0: "fold node_entry hs ([], []) = (g0, d0)" by fastforce
  note n = node_entries [OF 0] and e = edge_entries [OF assms(3) [unfolded filled_def 0]]
  have deg: "bt_get d h = Some (length (par h))" if "h \<in> set hs" for h
    using e [of h] n [of h] that edge_list_into [OF assms(1) that, of par] by simp
  have ch: "bt_get g p = Some (filter (\<lambda>h. p \<in> set (par h)) hs)" if "p \<in> set hs" for p
    using e [of _ p] n [of p] that edge_list_from [of hs par p] assms(2) by simp
  have k: "fst ` set (edge_list par hs) \<subseteq> set hs" "snd ` set (edge_list par hs) \<subseteq> set hs"
    using assms(2) by (fastforce simp: edge_list_def)+
  have k0: "bt_ordered d0" "fst ` set d0 = set hs" "fst ` set g0 = set hs"
    using n by simp_all
  have d: "bt_ordered d" "fst ` set d = set hs" "fst ` set g = set hs"
    using e k k0 by (simp_all add: Un_absorb1)
  have "set (roots d) = {h \<in> set hs. par h = []}"
  proof (rule set_eqI)
    fix h
    have "h \<in> set (roots d) \<longleftrightarrow> bt_get d h = Some 0"
      unfolding bt_get_iff_mem [OF d(1)] by (auto simp: roots_def image_iff)
    also have "\<dots> \<longleftrightarrow> h \<in> set hs \<and> bt_get d h = Some 0"
      using d(2) dom_bt_get [of d] by auto
    also have "\<dots> \<longleftrightarrow> h \<in> {h \<in> set hs. par h = []}" using deg by auto
    finally show "h \<in> set (roots d) \<longleftrightarrow> h \<in> {h \<in> set hs. par h = []}" .
  qed
  moreover have "distinct (roots d)"
    using bt_ordered_distinct [OF d(1)] by (simp add: roots_def distinct_map_filter)
  ultimately have "kahn_state (set hs) par d (roots d) []"
    using deg by (simp add: kahn_state_def available_def unseen_def)
  with deg ch d assms show ?thesis by (simp add: kahn_graph_def)
qed

section \<open>The order depends on the set of events only\<close>

lemma sort_nodes_cong:
  assumes "mset hs = mset hs'" "inj_on (\<lambda>h. map_option key (look h)) (dom look)"
  shows "sort_nodes key look hs = sort_nodes key look hs'"
proof (cases "list_all (\<lambda>h. look h \<noteq> None) hs")
  case True
  then have "set hs \<subseteq> dom look" by (auto simp: list_all_iff)
  with assms have "sort_key (\<lambda>h. map_option key (look h)) hs = sort_key (\<lambda>h. map_option key (look h)) hs'"
    by (intro sort_key_inj_key_eq) (auto intro: inj_on_subset)
  with True mset_eq_setD [OF assms(1)] mset_eq_length [OF assms(1)] show ?thesis
    by (simp add: sort_nodes_def list_all_iff)
next
  case False
  have f: "\<not> list_all (\<lambda>h. look h \<noteq> None) hs'"
    using False mset_eq_setD [OF assms(1)] by (simp add: list_all_iff)
  show ?thesis
  proof (cases "1 < length hs")
    case True
    with False f mset_eq_length [OF assms(1)] show ?thesis by (simp add: sort_nodes_def)
  next
    case short: False
    have "hs = hs'"
    proof (cases hs)
      case (Cons x xs)
      with short have "hs = [x]" by simp
      with assms(1) show ?thesis by simp
    qed (use assms(1) in simp)
    then show ?thesis by simp
  qed
qed

lemma release_cong:
  assumes "bt_get d = bt_get e"
  shows "release cs d q = Ok (d', q') \<Longrightarrow> \<exists>e'. release cs e q = Ok (e', q') \<and> bt_get d' = bt_get e'"
  using assms
proof (induction cs arbitrary: d e q)
  case (Cons c cs)
  have s: "bt_get (bt_set c n d) = bt_get (bt_set c n e)" for n
    using Cons.prems(2) by (simp add: fun_eq_iff bt_get_set)
  from Cons.prems Cons.IH [OF _ s] Cons.IH [OF _ Cons.prems(2)] show ?case
    by (auto split: option.splits nat.splits)
qed simp

lemma order_loop_cong:
  assumes "inj_on (\<lambda>h. map_option key (look h)) (dom look)"
    and "\<And>n. mset (case bt_get g n of None \<Rightarrow> [] | Some cs \<Rightarrow> cs) =
            mset (case bt_get g' n of None \<Rightarrow> [] | Some cs \<Rightarrow> cs)"
  shows "bt_get d = bt_get e \<Longrightarrow> order_loop key missing look g d ready ordered = Ok xs \<Longrightarrow>
    order_loop key missing look g' e ready ordered = Ok xs"
proof (induction "sum_list (bt_values d) + length ready" arbitrary: d e ready ordered rule: less_induct)
  case less
  show ?case
  proof (cases ready)
    case Nil
    with less.prems show ?thesis by simp
  next
    case (Cons n q)
    with less.prems(2) obtain ev cs d' q' q'' where o: "look n = Some ev"
      "sort_nodes key look (case bt_get g n of None \<Rightarrow> [] | Some cs \<Rightarrow> cs) = Ok cs"
      "release cs d q = Ok (d', q')" "sort_nodes key look q' = Ok q''"
      "order_loop key missing look g d' q'' (ordered @ [ev]) = Ok xs"
      by (auto split: prod.splits)
    obtain e' where e': "release cs e q = Ok (e', q')" "bt_get d' = bt_get e'"
      using release_cong [OF less.prems(1) o(3)] by blast
    have "length q'' = length q'" using o(4) by (auto simp: sort_nodes_def split: if_splits)
    then have "sum_list (bt_values d') + length q'' < sum_list (bt_values d) + length ready"
      using release_decreases [OF o(3)] Cons by simp
    from less.hyps [OF this e'(2) o(5)] Cons o e'(1) sort_nodes_cong [OF assms(2) assms(1), of n]
    show ?thesis by simp
  qed
qed

lemma filled_order_cong:
  assumes "mset hs = mset hs'" "distinct hs" "\<forall>h \<in> set hs. distinct (par h) \<and> set (par h) \<subseteq> set hs"
    and "filled par hs = (g, d)" "filled par hs' = (g', d')"
    and "inj_on (\<lambda>h. map_option key (look h)) (dom look)"
    and "order_loop key missing look g d ready [] = Ok xs"
  shows "d' = d \<and> order_loop key missing look g' d' ready [] = Ok xs"
proof -
  have hs': "distinct hs'" "set hs' = set hs"
    using assms(1,2) by (metis mset_eq_imp_distinct_iff, metis mset_eq_setD)
  note f = filled_graph [OF assms(2,3,4)]
  have par': "\<forall>h \<in> set hs'. distinct (par h) \<and> set (par h) \<subseteq> set hs'" using assms(3) hs'(2) by simp
  note f' = filled_graph [OF hs'(1) par' assms(5), unfolded hs'(2)]
  have "bt_get d h = bt_get d' h" for h
  proof (cases "h \<in> set hs")
    case True
    with f f' show ?thesis by simp
  next
    case False
    with f f' show ?thesis by (metis map_of_eq_None_iff)
  qed
  then have d: "d' = d" using f f' by (metis bt_ordered_ext)
  have "mset (case bt_get g n of None \<Rightarrow> [] | Some cs \<Rightarrow> cs) =
      mset (case bt_get g' n of None \<Rightarrow> [] | Some cs \<Rightarrow> cs)" for n
  proof (cases "n \<in> set hs")
    case True
    with f obtain cs where "bt_get g n = Some cs" "distinct cs" "set cs = {h \<in> set hs. n \<in> set (par h)}"
      unfolding kahn_graph_def by blast
    moreover from True f' obtain cs' where "bt_get g' n = Some cs'" "distinct cs'"
      "set cs' = {h \<in> set hs. n \<in> set (par h)}"
      unfolding kahn_graph_def by blast
    ultimately show ?thesis
      using set_eq_iff_mset_eq_distinct [of cs cs'] by simp
  next
    case False
    with f f' have "bt_get g n = None" "bt_get g' n = None" by (metis map_of_eq_None_iff)+
    then show ?thesis by simp
  qed
  from order_loop_cong [OF assms(6) this _ assms(7)] d show ?thesis by simp
qed

end
