(* ===== verification/Dag.thy ===== *)
theory Dag
  imports Kahn
begin

text \<open>
  \<^verbatim>\<open>src/src/dag.rs\<close>: the index of the events by hash, the conflicts of a set of events, the check
  that a set of events is a well-formed acyclic graph within regions, and its canonical order.
\<close>

section \<open>Operations\<close>

record dag_conflict =
  dc_event_hash :: string
  dc_reason :: string

fun index_loop ::
  "nat \<Rightarrow> (string, nat) btree \<Rightarrow> vector_event list \<Rightarrow> (string, nat) btree text_outcome" where
  "index_loop i index [] = Ok index"
| "index_loop i index (event # events) =
     (if ev_event_hash event = []
      then Err (''event '' @ ev_event_id event @ '' has empty event_hash'')
      else if bt_get index (ev_event_hash event) \<noteq> None
      then Err (''duplicate event_hash detected: '' @ ev_event_hash event)
      else index_loop (i + 1) (bt_insert (ev_event_hash event) i index) events)"

definition event_index :: "vector_event list \<Rightarrow> (string, nat) btree text_outcome" where
  "event_index events = index_loop 0 [] events"

definition dag_sort_key :: "vector_event \<Rightarrow> u64 \<times> u64 \<times> string \<times> string" where
  "dag_sort_key e = (ev_logical_clock e, ev_timestamp e, ev_event_hash e, ev_event_id e)"

fun parent_conflicts ::
  "(string, nat) btree \<Rightarrow> string \<Rightarrow> string set \<Rightarrow> string list \<Rightarrow> dag_conflict list" where
  "parent_conflicts index hash seen_parents [] = []"
| "parent_conflicts index hash seen_parents (parent # ps) =
     (if parent \<in> seen_parents
      then [\<lparr> dc_event_hash = hash, dc_reason = ''duplicate parent hash in event: '' @ parent \<rparr>]
      else []) @
     (if bt_get index parent = None
      then [\<lparr> dc_event_hash = hash, dc_reason = ''missing parent event: '' @ parent \<rparr>]
      else []) @
     parent_conflicts index hash (insert parent seen_parents) ps"

definition detect_conflicts :: "vector_event list \<Rightarrow> dag_conflict list text_outcome" where
  "detect_conflicts events =
     (case event_index events of
        Err err \<Rightarrow> Ok [\<lparr> dc_event_hash = [], dc_reason = err \<rparr>]
      | Panicked \<Rightarrow> Panicked
      | Ok index \<Rightarrow>
          Ok (concat (map (\<lambda>event.
            (if ev_event_hash event \<in> set (ev_parent_hashes event)
             then [\<lparr> dc_event_hash = ev_event_hash event,
                     dc_reason = ''self-parent cycle detected'' \<rparr>]
             else []) @
            parent_conflicts index (ev_event_hash event) {} (ev_parent_hashes event)) events)))"

definition validate_region_admissibility ::
  "vector_event \<Rightarrow> vector_event \<Rightarrow> unit text_outcome" where
  "validate_region_admissibility parent child =
     (if ev_region_id parent \<noteq> ev_region_id child
      then Err (''region inadmissible: parent region '' @ ev_region_id parent @
                '' != child region '' @ ev_region_id child)
      else Ok ())"

fun link_parents ::
  "vector_event list \<Rightarrow> (string, nat) btree \<Rightarrow> vector_event \<Rightarrow> string set \<Rightarrow> string list \<Rightarrow>
     graph \<times> degrees \<Rightarrow> (graph \<times> degrees) text_outcome" where
  "link_parents events index event seen_parents [] gd = Ok gd"
| "link_parents events index event seen_parents (parent_hash # ps) gd =
     (if parent_hash \<in> seen_parents
      then Err (''duplicate parent hash in event: '' @ ev_event_hash event)
      else
        and_then (ok_or (''missing parent event: '' @ parent_hash)
          (bt_get index parent_hash)) (\<lambda>parent_index.
        and_then (validate_region_admissibility (events ! parent_index) event) (\<lambda>_.
        link_parents events index event (insert parent_hash seen_parents) ps
          (edge_entry parent_hash (ev_event_hash event) gd))))"

fun link_events ::
  "vector_event list \<Rightarrow> (string, nat) btree \<Rightarrow> vector_event list \<Rightarrow> graph \<times> degrees \<Rightarrow>
     (graph \<times> degrees) text_outcome" where
  "link_events events index [] gd = Ok gd"
| "link_events events index (event # es) gd =
     and_then (link_parents events index event {} (ev_parent_hashes event) gd)
       (link_events events index es)"

definition validate_dag :: "vector_event list \<Rightarrow> unit text_outcome" where
  "validate_dag events =
     and_then (event_index events) (\<lambda>index.
     and_then (link_events events index events
       (fold (\<lambda>event. node_entry (ev_event_hash event)) events ([], []))) (\<lambda>(graph, indegree).
     and_then (count_loop dag_sort_key (\<lambda>h. map_option ((!) events) (bt_get index h)) graph indegree
       (roots indegree) 0) (\<lambda>visited.
     if visited \<noteq> length events then Err ''cycle detected in event DAG'' else Ok ())))"

definition topological_order :: "vector_event list \<Rightarrow> vector_event list text_outcome" where
  "topological_order events =
     and_then (validate_dag events) (\<lambda>_.
       let event_map = fold (\<lambda>event. bt_insert (ev_event_hash event) event) events [];
           gd = fold (\<lambda>event. node_entry (ev_event_hash event)) events ([], []);
           (children, indegree) = fold (\<lambda>event gd.
             fold (\<lambda>parent. edge_entry parent (ev_event_hash event)) (ev_parent_hashes event) gd)
             events gd
       in and_then (sort_nodes dag_sort_key (bt_get event_map) (roots indegree)) (\<lambda>ready.
          and_then (order_loop dag_sort_key ''missing node in event map: '' (bt_get event_map)
            children indegree ready []) (\<lambda>ordered.
          if length ordered \<noteq> length events
          then Err ''topological ordering failed due to unresolved cycle or missing ancestry''
          else Ok ordered)))"

section \<open>What well-formed means\<close>

definition parent_edges :: "vector_event list \<Rightarrow> (string \<times> string) set" where
  "parent_edges events = {(p, ev_event_hash e) |p e. e \<in> set events \<and> p \<in> set (ev_parent_hashes e)}"

definition linked_events :: "vector_event list \<Rightarrow> bool" where
  "linked_events events \<longleftrightarrow>
     [] \<notin> ev_event_hash ` set events \<and> distinct (map ev_event_hash events) \<and>
     (\<forall>e \<in> set events. distinct (ev_parent_hashes e) \<and>
        (\<forall>p \<in> set (ev_parent_hashes e).
           \<exists>q \<in> set events. ev_event_hash q = p \<and> ev_region_id q = ev_region_id e))"

definition well_formed_dag :: "vector_event list \<Rightarrow> bool" where
  "well_formed_dag events \<longleftrightarrow> linked_events events \<and> acyclic (parent_edges events)"

definition parents_of :: "vector_event list \<Rightarrow> string \<Rightarrow> string list" where
  "parents_of events h =
     (case map_of (map (\<lambda>e. (ev_event_hash e, ev_parent_hashes e)) events) h of
        None \<Rightarrow> [] | Some ps \<Rightarrow> ps)"

lemma parent_edges_Cons:
  "parent_edges (e # es) = (\<lambda>p. (p, ev_event_hash e)) ` set (ev_parent_hashes e) \<union> parent_edges es"
  by (auto simp: parent_edges_def)

section \<open>Facts\<close>

lemma parents_of_event:
  assumes "distinct (map ev_event_hash events)" "e \<in> set events"
  shows "parents_of events (ev_event_hash e) = ev_parent_hashes e"
proof -
  have "map_of (map (\<lambda>e. (ev_event_hash e, ev_parent_hashes e)) events) (ev_event_hash e) =
      Some (ev_parent_hashes e)"
    using assms by (intro map_of_is_SomeI) (auto simp: comp_def)
  then show ?thesis by (simp add: parents_of_def)
qed

definition indexable :: "(string, nat) btree \<Rightarrow> vector_event list \<Rightarrow> bool" where
  "indexable index events \<longleftrightarrow>
     [] \<notin> ev_event_hash ` set events \<and> distinct (map ev_event_hash events) \<and>
     (\<forall>e \<in> set events. bt_get index (ev_event_hash e) = None)"

lemma index_loop_not_panicked [simp]: "index_loop i index events \<noteq> Panicked"
  by (induction i index events rule: index_loop.induct) simp_all

lemma index_loop_iff: "(\<exists>index'. index_loop i index events = Ok index') \<longleftrightarrow> indexable index events"
proof (induction i index events rule: index_loop.induct)
  case (2 i index event events)
  then show ?case by (auto simp: indexable_def image_iff)
qed (simp add: indexable_def)

lemma index_loop_get:
  "index_loop i index events = Ok index' \<Longrightarrow>
     bt_get index' h = Some j \<longleftrightarrow>
       bt_get index h = Some j \<or> (\<exists>k < length events. ev_event_hash (events ! k) = h \<and> j = i + k)"
proof (induction i index events rule: index_loop.induct)
  case (2 i index event events)
  from "2.prems" have e: "ev_event_hash event \<noteq> []" "bt_get index (ev_event_hash event) = None"
    "index_loop (i + 1) (bt_insert (ev_event_hash event) i index) events = Ok index'"
    by (auto split: if_splits)
  have "(\<exists>k < length (event # events). ev_event_hash ((event # events) ! k) = h \<and> j = i + k) \<longleftrightarrow>
      (ev_event_hash event = h \<and> j = i) \<or>
      (\<exists>k < length events. ev_event_hash (events ! k) = h \<and> j = i + 1 + k)"
    by (auto simp: less_Suc_eq_0_disj)
  with "2.IH" [OF e(1) _ e(3)] e(2) show ?case by auto
qed simp

lemma event_index_iff:
  "(\<exists>index. event_index events = Ok index) \<longleftrightarrow>
     [] \<notin> ev_event_hash ` set events \<and> distinct (map ev_event_hash events)"
  by (simp add: event_index_def index_loop_iff indexable_def)

lemma event_index_Ok:
  "event_index events = Ok index \<Longrightarrow>
     bt_get index h = Some i \<longleftrightarrow> i < length events \<and> ev_event_hash (events ! i) = h"
  using index_loop_get [of 0 "[]" events index h i] by (auto simp: event_index_def)

lemma link_parents_Ok:
  assumes "event_index events = Ok index"
  shows "link_parents events index event seen ps gd = Ok gd' \<longleftrightarrow>
    distinct ps \<and> set ps \<inter> seen = {} \<and>
    (\<forall>p \<in> set ps. \<exists>q \<in> set events. ev_event_hash q = p \<and> ev_region_id q = ev_region_id event) \<and>
    gd' = fold (\<lambda>p. edge_entry p (ev_event_hash event)) ps gd"
proof (induction ps arbitrary: seen gd)
  case (Cons p ps)
  have "(\<exists>i. bt_get index p = Some i \<and> ev_region_id (events ! i) = ev_region_id event) \<longleftrightarrow>
      (\<exists>q \<in> set events. ev_event_hash q = p \<and> ev_region_id q = ev_region_id event)"
    unfolding event_index_Ok [OF assms] by (metis in_set_conv_nth)
  moreover have "validate_region_admissibility q event = Ok u \<longleftrightarrow> ev_region_id q = ev_region_id event" for q u
    by (simp add: validate_region_admissibility_def)
  ultimately show ?case
    by (auto simp: Cons.IH)
qed auto

lemma link_events_Ok:
  assumes "event_index events = Ok index"
  shows "link_events events index es gd = Ok gd' \<longleftrightarrow>
    (\<forall>e \<in> set es. distinct (ev_parent_hashes e) \<and>
       (\<forall>p \<in> set (ev_parent_hashes e).
          \<exists>q \<in> set events. ev_event_hash q = p \<and> ev_region_id q = ev_region_id e)) \<and>
    gd' = fold (\<lambda>e gd. fold (\<lambda>p. edge_entry p (ev_event_hash e)) (ev_parent_hashes e) gd) es gd"
  by (induction es arbitrary: gd) (auto simp: link_parents_Ok [OF assms])

abbreviation hashes :: "vector_event list \<Rightarrow> string list" where
  "hashes events \<equiv> map ev_event_hash events"

abbreviation linked_graph :: "vector_event list \<Rightarrow> graph \<times> degrees" where
  "linked_graph events \<equiv>
     fold (\<lambda>e gd. fold (\<lambda>p. edge_entry p (ev_event_hash e)) (ev_parent_hashes e) gd) events
       (fold (\<lambda>e. node_entry (ev_event_hash e)) events ([], []))"

lemma linked_graph_filled:
  assumes "distinct (hashes events)"
  shows "linked_graph events = filled (parents_of events) (hashes events)"
proof -
  have e: "fold (\<lambda>e gd. fold (\<lambda>p. edge_entry p (ev_event_hash e)) (ev_parent_hashes e) gd) es gd =
      fold (\<lambda>(p, h). edge_entry p h) (edge_list (parents_of events) (hashes es)) gd"
    if "set es \<subseteq> set events" for es gd
    using that
  proof (induction es arbitrary: gd)
    case (Cons e es)
    then show ?case
      using parents_of_event [OF assms, of e]
      by (simp add: edge_list_def fold_map comp_def)
  qed (simp add: edge_list_def)
  have n: "fold (\<lambda>e. node_entry (ev_event_hash e)) es gd = fold node_entry (hashes es) gd" for es gd
    by (simp add: fold_map comp_def)
  show ?thesis unfolding filled_def n by (simp add: e)
qed

lemma linked_events_graph:
  assumes "linked_events events" "linked_graph events = (g, d)"
  shows "kahn_graph (set (hashes events)) (parents_of events) g"
    and "kahn_state (set (hashes events)) (parents_of events) d (roots d) []"
    and "edges (set (hashes events)) (parents_of events) = parent_edges events"
proof -
  have d: "distinct (hashes events)" using assms(1) by (simp add: linked_events_def)
  have p: "\<forall>h \<in> set (hashes events). distinct (parents_of events h) \<and>
      set (parents_of events h) \<subseteq> set (hashes events)"
    using assms(1) parents_of_event [OF d] by (fastforce simp: linked_events_def)
  from filled_graph [OF d p] assms(2) linked_graph_filled [OF d]
  show "kahn_graph (set (hashes events)) (parents_of events) g"
    "kahn_state (set (hashes events)) (parents_of events) d (roots d) []" by auto
  show "edges (set (hashes events)) (parents_of events) = parent_edges events"
    using parents_of_event [OF d] by (fastforce simp: edges_def parent_edges_def)
qed

lemma link_parents_not_panicked [simp]: "link_parents events index e seen ps gd \<noteq> Panicked"
proof (induction ps arbitrary: seen gd)
  case (Cons p ps)
  then show ?case
    by (cases "bt_get index p") (simp_all add: validate_region_admissibility_def)
qed simp

lemma link_events_not_panicked [simp]: "link_events events index es gd \<noteq> Panicked"
proof (induction es arbitrary: gd)
  case (Cons e es)
  then show ?case
    by (cases "link_parents events index e {} (ev_parent_hashes e) gd") simp_all
qed simp

lemma linked_events_iff:
  "(\<exists>index gd. event_index events = Ok index \<and>
      link_events events index events (fold (\<lambda>e. node_entry (ev_event_hash e)) events ([], [])) = Ok gd) \<longleftrightarrow>
   linked_events events"
  using event_index_iff [of events] by (auto simp: linked_events_def link_events_Ok simp del: split_paired_Ex)

lemma count_events:
  assumes "linked_events events" "event_index events = Ok index" "linked_graph events = (g, d)"
  shows "\<exists>seen. set seen \<subseteq> set (hashes events) \<and> distinct seen \<and>
    (set seen = set (hashes events) \<longleftrightarrow> acyclic (parent_edges events)) \<and>
    count_loop dag_sort_key (\<lambda>h. map_option ((!) events) (bt_get index h)) g d (roots d) 0 =
      Ok (length seen)"
proof -
  note g = linked_events_graph [OF assms(1,3)]
  let ?look = "\<lambda>h. map_option ((!) events) (bt_get index h)"
  have "\<forall>h \<in> set (hashes events). ?look h \<noteq> None"
  proof
    fix h assume "h \<in> set (hashes events)"
    then obtain i where "i < length events" "ev_event_hash (events ! i) = h"
      by (auto simp: in_set_conv_nth)
    then have "bt_get index h = Some i" by (simp add: event_index_Ok [OF assms(2)])
    then show "?look h \<noteq> None" by simp
  qed
  from count_loop_Ok [OF g(1) this g(2), of dag_sort_key] obtain d' seen where
    "kahn_state (set (hashes events)) (parents_of events) d' [] seen"
    "count_loop dag_sort_key ?look g d (roots d) 0 = Ok (length seen)" by auto
  with kahn_end [OF g(1)] g(3) show ?thesis by metis
qed

lemma distinct_subset_all:
  "distinct xs \<Longrightarrow> distinct ys \<Longrightarrow> set xs \<subseteq> set ys \<Longrightarrow> length xs = length ys \<longleftrightarrow> set xs = set ys"
  by (metis card_subset_eq distinct_card finite_set)

lemma validate_dag_iff: "validate_dag events = Ok () \<longleftrightarrow> well_formed_dag events"
proof (cases "linked_events events")
  case False
  then have "validate_dag events \<noteq> Ok ()"
    unfolding linked_events_iff [symmetric] by (auto simp: validate_dag_def)
  with False show ?thesis by (simp add: well_formed_dag_def)
next
  case True
  then obtain index gd where ig: "event_index events = Ok index"
    "link_events events index events (fold (\<lambda>e. node_entry (ev_event_hash e)) events ([], [])) = Ok gd"
    unfolding linked_events_iff [symmetric] by blast
  obtain g d where gd: "gd = (g, d)" by (cases gd)
  with ig(2) have "linked_graph events = (g, d)" by (simp add: link_events_Ok [OF ig(1)])
  from count_events [OF True ig(1) this] obtain seen where
    s: "set seen \<subseteq> set (hashes events)" "distinct seen"
    "set seen = set (hashes events) \<longleftrightarrow> acyclic (parent_edges events)"
    "count_loop dag_sort_key (\<lambda>h. map_option ((!) events) (bt_get index h)) g d (roots d) 0 =
      Ok (length seen)" by blast
  have "distinct (hashes events)" using True by (simp add: linked_events_def)
  from distinct_subset_all [OF s(2) this s(1)] s(3) True show ?thesis
    unfolding validate_dag_def ig gd by (simp add: ig s(4) gd well_formed_dag_def)
qed

lemma validate_dag_not_panicked: "validate_dag events \<noteq> Panicked"
proof (cases "linked_events events")
  case False
  then show ?thesis
    unfolding linked_events_iff [symmetric]
    by (cases "event_index events"; cases "link_events events (SOME i. event_index events = Ok i) events
          (fold (\<lambda>e. node_entry (ev_event_hash e)) events ([], []))")
      (auto simp: validate_dag_def event_index_def)
next
  case True
  then obtain index gd where ig: "event_index events = Ok index"
    "link_events events index events (fold (\<lambda>e. node_entry (ev_event_hash e)) events ([], [])) = Ok gd"
    unfolding linked_events_iff [symmetric] by blast
  obtain g d where gd: "gd = (g, d)" by (cases gd)
  with ig(2) have "linked_graph events = (g, d)" by (simp add: link_events_Ok [OF ig(1)])
  from count_events [OF True ig(1) this] show ?thesis
    by (auto simp: validate_dag_def ig gd split: if_splits)
qed

lemma get_event_map:
  assumes "distinct (hashes events)" "\<forall>e \<in> set events. bt_get m (ev_event_hash e) = None"
  shows "bt_get (fold (\<lambda>e. bt_insert (ev_event_hash e) e) events m) h = Some e \<longleftrightarrow>
    bt_get m h = Some e \<or> e \<in> set events \<and> ev_event_hash e = h"
  using assms
proof (induction events arbitrary: m)
  case (Cons a events)
  then have "\<forall>e \<in> set events. bt_get (bt_insert (ev_event_hash a) a m) (ev_event_hash e) = None"
    by (auto simp: image_iff)
  with Cons have "bt_get (fold (\<lambda>e. bt_insert (ev_event_hash e) e) (a # events) m) h = Some e \<longleftrightarrow>
      bt_get (bt_insert (ev_event_hash a) a m) h = Some e \<or> e \<in> set events \<and> ev_event_hash e = h"
    by simp
  also have "\<dots> \<longleftrightarrow> bt_get m h = Some e \<or> e \<in> set (a # events) \<and> ev_event_hash e = h"
    using Cons.prems(2) by auto
  finally show ?case .
qed simp

lemma topological_order_Ok:
  assumes "well_formed_dag events"
  shows "\<exists>xs. topological_order events = Ok xs \<and> mset xs = mset events \<and>
    parents_first (parents_of events) (hashes xs)"
proof -
  have lk: "linked_events events" and ac: "acyclic (parent_edges events)"
    and d: "distinct (hashes events)"
    using assms by (auto simp: well_formed_dag_def linked_events_def)
  obtain g dg where gd: "linked_graph events = (g, dg)" by fastforce
  note gr = linked_events_graph [OF lk gd]
  define look where "look = bt_get (fold (\<lambda>e. bt_insert (ev_event_hash e) e) events [])"
  have look: "\<forall>h \<in> set (hashes events). \<exists>e. look h = Some e \<and> ev_event_hash e = h"
    and look_iff: "\<And>h e. look h = Some e \<longleftrightarrow> e \<in> set events \<and> ev_event_hash e = h"
    using get_event_map [OF d, of "[]"] by (auto simp: look_def)
  have "set (roots dg) \<subseteq> set (hashes events)"
    using gr(2) by (auto simp: kahn_state_def available_def)
  then have "\<forall>h \<in> set (roots dg). look h \<noteq> None" using look by force
  from sort_nodes_Ok [OF this] obtain ready where
    r: "sort_nodes dag_sort_key look (roots dg) = Ok ready" "mset ready = mset (roots dg)" by blast
  have "kahn_state (set (hashes events)) (parents_of events) dg ready (map ev_event_hash [])"
    using gr(2) mset_eq_setD [OF r(2)] mset_eq_imp_distinct_iff [OF r(2)] by (simp add: kahn_state_def)
  from order_loop_Ok [OF gr(1) look this, of dag_sort_key "''missing node in event map: ''"]
  obtain d' xs where xs: "kahn_state (set (hashes events)) (parents_of events) d' [] (hashes xs)"
    "\<forall>e \<in> set xs. look (ev_event_hash e) = Some e"
    "order_loop dag_sort_key ''missing node in event map: '' look g dg ready [] = Ok xs" by auto
  from kahn_end [OF gr(1) xs(1)] ac gr(3)
  have e: "set (hashes xs) = set (hashes events)" "distinct (hashes xs)"
    "parents_first (parents_of events) (hashes xs)" by auto
  have sub: "set xs \<subseteq> set events" using xs(2) look_iff by blast
  have "set events \<subseteq> set xs"
  proof
    fix e assume e': "e \<in> set events"
    then obtain x where x: "x \<in> set xs" "ev_event_hash x = ev_event_hash e"
      using e(1) by (metis (no_types, lifting) image_iff list.set_map)
    with sub e' d show "e \<in> set xs" by (auto simp: distinct_map inj_on_def)
  qed
  with sub have "set xs = set events" by blast
  moreover have "distinct xs" "distinct events" using e(2) d by (simp_all add: distinct_map)
  ultimately have m: "mset xs = mset events" by (simp add: set_eq_iff_mset_eq_distinct)
  then have "length xs = length events" by (rule mset_eq_length)
  then have "topological_order events = Ok xs"
    using validate_dag_iff [of events] assms r(1) xs(3) gd
    by (simp add: topological_order_def Let_def look_def)
  with m e(3) show ?thesis by blast
qed

lemma parents_first_before:
  "parents_before par seen (ys @ h # zs) \<Longrightarrow> set (par h) \<subseteq> seen \<union> set ys"
  by (induction ys arbitrary: seen) auto

section \<open>Properties\<close>

text \<open>
  C22: The check of the event graph decides well-formedness exactly, and never panics: it returns
  without error if and only if every event has a hash of its own, names each parent once, every named
  parent is an event of the same region, and no event is its own ancestor.
\<close>

theorem validate_dag_decides:
  "(validate_dag events = Ok () \<longleftrightarrow> well_formed_dag events) \<and> validate_dag events \<noteq> Panicked"
  using validate_dag_iff validate_dag_not_panicked by blast

text \<open>
  C24: On a well-formed graph the canonical order returns: it holds every event exactly once, and no
  event comes before one of its parents.
\<close>

theorem topological_order_sound:
  assumes "well_formed_dag events"
  shows "\<exists>xs. topological_order events = Ok xs \<and> mset xs = mset events \<and>
    (\<forall>ys e zs. xs = ys @ e # zs \<longrightarrow> set (ev_parent_hashes e) \<subseteq> ev_event_hash ` set ys)"
proof -
  obtain xs where xs: "topological_order events = Ok xs" "mset xs = mset events"
    "parents_first (parents_of events) (hashes xs)"
    using topological_order_Ok [OF assms] by blast
  have "set (ev_parent_hashes e) \<subseteq> ev_event_hash ` set ys" if "xs = ys @ e # zs" for ys e zs
  proof -
    have "e \<in> set events" using mset_eq_setD [OF xs(2)] that by auto
    then have "parents_of events (ev_event_hash e) = ev_parent_hashes e"
      using assms by (intro parents_of_event) (auto simp: well_formed_dag_def linked_events_def)
    with parents_first_before [of "parents_of events" "{}" "hashes ys" "ev_event_hash e" "hashes zs"]
      xs(3) that show ?thesis by simp
  qed
  with xs show ?thesis by blast
qed

definition sample_log :: "vector_event list" where
  "sample_log =
     [sample_event\<lparr> ev_event_hash := ''h2'', ev_parent_hashes := [''h1''] \<rparr>,
      sample_event\<lparr> ev_event_hash := ''h1'' \<rparr>]"

lemma sample_log_well_formed: "well_formed_dag sample_log"
proof -
  have "parent_edges sample_log = {(''h1'', ''h2'')}"
    by (simp add: parent_edges_Cons sample_log_def sample_event_def ev_new_def)
      (simp add: parent_edges_def)
  moreover have "linked_events sample_log"
    by (simp add: linked_events_def sample_log_def sample_event_def ev_new_def)
  moreover have "acyclic {(''h1'', ''h2'')}"
    by (simp add: acyclic_insert wf_acyclic)
  ultimately show ?thesis by (simp add: well_formed_dag_def)
qed

theorem topological_order_sound_witness:
  "\<exists>xs. topological_order sample_log = Ok xs \<and> mset xs = mset sample_log"
  using topological_order_sound [OF sample_log_well_formed] by blast

end
