(* ===== verification/Signature.thy ===== *)
theory Signature
  imports Rust_Text
begin

text \<open>
  \<^verbatim>\<open>src/src/signature.rs\<close>, and the signature check of \<^verbatim>\<open>src/src/wallet.rs\<close>: hexadecimal text, keys
  and signatures.

  The crate \<open>ed25519_dalek\<close> is the parameter \<open>E\<close>: a signing or verifying key is its 32 bytes, a
  signature its 64 bytes, and each operation of the crate the sources call is a field. The wallet
  decodes with the crate \<open>hex\<close>, the parameter \<open>hexd\<close>; the functions of \<^verbatim>\<open>signature.rs\<close> are
  the sources' own, and the last section shows what texts they accept.
\<close>

unbundle bit_operations_syntax

section \<open>The crate ed25519\_dalek\<close>

record ed25519 =
  ed_sign :: "bytes \<Rightarrow> bytes \<Rightarrow> bytes"
  ed_public :: "bytes \<Rightarrow> bytes"
  ed_key_error :: "bytes \<Rightarrow> string option"
  ed_signature_error :: "bytes \<Rightarrow> string option"
  ed_verify :: "bytes \<Rightarrow> bytes \<Rightarrow> bytes \<Rightarrow> bool"

section \<open>Hexadecimal text\<close>

definition HEX :: string where
  "HEX = ''0123456789abcdef''"

definition hex_digit :: "u8 \<Rightarrow> char" where
  "hex_digit v = HEX ! unat v"

fun hex_encode :: "bytes \<Rightarrow> string" where
  "hex_encode [] = []"
| "hex_encode (b # bs) = hex_digit (drop_bit 4 b) # hex_digit (b AND 0x0f) # hex_encode bs"

text \<open>The UTF-8 text of \<open>byte as char\<close>, the character with that code point.\<close>

definition byte_as_char :: "u8 \<Rightarrow> string" where
  "byte_as_char b =
     (if unat b < 128 then [char_of (unat b)]
      else [char_of (192 + unat b div 64), char_of (128 + unat b mod 64)])"

definition hex_value :: "u8 \<Rightarrow> string + u8" where
  "hex_value byte =
     (if 48 \<le> byte \<and> byte \<le> 57 then Inr (byte - 48)
      else if 97 \<le> byte \<and> byte \<le> 102 then Inr (byte - 97 + 10)
      else if 65 \<le> byte \<and> byte \<le> 70 then Inr (byte - 65 + 10)
      else Inl (''invalid hex character: '' @ byte_as_char byte))"

fun hex_pairs :: "bytes \<Rightarrow> string + bytes" where
  "hex_pairs (h # l # bs) =
     bind_sum (hex_value h) (\<lambda>hi.
     bind_sum (hex_value l) (\<lambda>lo.
     bind_sum (hex_pairs bs) (\<lambda>out. Inr ((push_bit 4 hi OR lo) # out))))"
| "hex_pairs bs = Inr []"

definition hex_decode :: "string \<Rightarrow> string + bytes" where
  "hex_decode input =
     (if odd (length input) then Inl ''hex string must have even length''
      else hex_pairs (as_bytes input))"

section \<open>Signatures\<close>

definition sign_event :: "ed25519 \<Rightarrow> bytes \<Rightarrow> bytes \<Rightarrow> string" where
  "sign_event E signing_key payload = hex_encode (ed_sign E signing_key payload)"

definition verify_event_signature :: "ed25519 \<Rightarrow> bytes \<Rightarrow> bytes \<Rightarrow> string \<Rightarrow> string + bool" where
  "verify_event_signature E verifying_key payload signature_hex =
     bind_sum (hex_decode signature_hex) (\<lambda>sig_bytes.
       case ed_signature_error E sig_bytes of
         Some e \<Rightarrow> Inl (''signature parse error: '' @ e)
       | None \<Rightarrow> Inr (ed_verify E verifying_key payload sig_bytes))"

definition verifying_key_from_hex :: "ed25519 \<Rightarrow> string \<Rightarrow> string + bytes" where
  "verifying_key_from_hex E public_key_hex =
     bind_sum (hex_decode public_key_hex) (\<lambda>key_bytes.
       if length key_bytes \<noteq> 32 then Inl ''ed25519 verifying key must be 32 bytes''
       else case ed_key_error E key_bytes of
         Some e \<Rightarrow> Inl (''public key parse error: '' @ e)
       | None \<Rightarrow> Inr key_bytes)"

definition signing_key_from_hex :: "string \<Rightarrow> string + bytes" where
  "signing_key_from_hex secret_key_hex =
     bind_sum (hex_decode secret_key_hex) (\<lambda>key_bytes.
       if length key_bytes \<noteq> 32 then Inl ''ed25519 signing key must be 32 bytes''
       else Inr key_bytes)"

text \<open>\<^verbatim>\<open>wallet.rs\<close>: every failure is the one error \<open>KernelXError::Signature\<close>.\<close>

definition wallet_verifying_key_from_hex ::
  "(string \<Rightarrow> bytes option) \<Rightarrow> ed25519 \<Rightarrow> string \<Rightarrow> bytes outcome" where
  "wallet_verifying_key_from_hex hexd E public_key_hex =
     and_then (ok_or SignatureError (hexd public_key_hex)) (\<lambda>pk_bytes.
     if length pk_bytes \<noteq> 32 \<or> ed_key_error E pk_bytes \<noteq> None then Err SignatureError
     else Ok pk_bytes)"

definition verify_signature ::
  "(string \<Rightarrow> bytes option) \<Rightarrow> ed25519 \<Rightarrow> string \<Rightarrow> bytes \<Rightarrow> string \<Rightarrow> unit outcome" where
  "verify_signature hexd E public_key_hex message signature_hex =
     and_then (wallet_verifying_key_from_hex hexd E public_key_hex) (\<lambda>verifying_key.
     and_then (ok_or SignatureError (hexd signature_hex)) (\<lambda>sig_bytes.
     and_then (guard (ed_signature_error E sig_bytes = None) SignatureError) (\<lambda>_.
     guard (ed_verify E verifying_key message sig_bytes) SignatureError)))"

section \<open>What the hexadecimal functions accept\<close>


lemma hex_digit_code:
  "n < 16 \<Longrightarrow> hex_digit (word_of_nat n) = char_of (if n < 10 then 48 + n else 87 + n)"
proof -
  have "list_all (\<lambda>n. HEX ! n = char_of (if n < 10 then 48 + n else 87 + n)) [0..<16]"
    by code_simp
  then show "n < 16 \<Longrightarrow> ?thesis"
    by (simp add: hex_digit_def list_all_iff unat_of_nat)
qed

lemma char_of_inject:
  "m < 256 \<Longrightarrow> n < 256 \<Longrightarrow> char_of m = char_of n \<longleftrightarrow> m = n" for m n :: nat
  by (metis mod_less of_char_of)

lemma ascii_lower_char_of:
  "n < 256 \<Longrightarrow> ascii_lower (char_of n) = char_of (if 65 \<le> n \<and> n \<le> 90 then n + 32 else n)" for n :: nat
  by (simp add: ascii_lower_def Let_def)

definition hex_number :: "nat \<Rightarrow> nat option" where
  "hex_number n =
     (if 48 \<le> n \<and> n \<le> 57 then Some (n - 48)
      else if 97 \<le> n \<and> n \<le> 102 then Some (n - 87)
      else if 65 \<le> n \<and> n \<le> 70 then Some (n - 55)
      else None)"

lemma hex_value_nat:
  "n < 256 \<Longrightarrow> hex_value (word_of_nat n) =
    (case hex_number n of
       None \<Rightarrow> Inl (''invalid hex character: '' @ byte_as_char (word_of_nat n))
     | Some k \<Rightarrow> Inr (word_of_nat k))"
  by (auto simp: hex_value_def hex_number_def word_le_nat_alt unat_of_nat of_nat_diff)

lemma hex_number_small: "hex_number n = Some k \<Longrightarrow> k < 16"
  by (auto simp: hex_number_def split: if_splits)

lemma hex_number_iff:
  "n < 256 \<Longrightarrow> k < 16 \<Longrightarrow>
     hex_number n = Some k \<longleftrightarrow> ascii_lower (char_of n) = hex_digit (word_of_nat k)"
  by (auto simp: hex_number_def hex_digit_code ascii_lower_char_of char_of_inject)

lemma hex_value_range: "hex_value b = Inr v \<Longrightarrow> v < 16"
  using hex_value_nat [of "unat b"] unat_bound [of b]
  by (auto simp: word_less_nat_alt unat_of_nat dest!: hex_number_small split: option.splits)

lemma word_of_nat_u8: "i < 256 \<Longrightarrow> j < 256 \<Longrightarrow> word_of_nat i = (word_of_nat j :: u8) \<longleftrightarrow> i = j"
  by (auto simp: word_unat_eq_iff unat_of_nat)

lemma hex_value_iff:
  assumes "m < 16"
  shows "hex_value (word_of_nat (of_char c)) = Inr (word_of_nat m) \<longleftrightarrow>
    ascii_lower c = hex_digit (word_of_nat m)"
proof -
  have n: "(of_char c :: nat) < 256" by simp
  have "hex_value (word_of_nat (of_char c)) = Inr (word_of_nat m) \<longleftrightarrow> hex_number (of_char c) = Some m"
    using assms hex_number_small [of "of_char c"]
    by (auto simp: hex_value_nat [OF n] word_of_nat_u8 split: option.splits)
  with hex_number_iff [OF n assms] show ?thesis by simp
qed

lemma hex_value_char:
  assumes "v < 16"
  shows "hex_value (word_of_nat (of_char c)) = Inr v \<longleftrightarrow> ascii_lower c = hex_digit v"
  using hex_value_iff [of "unat v" c] assms by (simp add: word_less_nat_alt)

lemma nibble_take: "v < 16 \<longleftrightarrow> take_bit 4 v = v" for v :: u8
  by (auto simp: word_less_nat_alt word_unat_eq_iff unsigned_take_bit_eq take_bit_eq_mod unat_mod_distrib)

lemma nibbles_join:
  fixes hi lo x :: u8
  assumes "hi < 16" "lo < 16"
  shows "x = push_bit 4 hi OR lo \<longleftrightarrow> drop_bit 4 x = hi \<and> x AND 0x0f = lo"
proof -
  have m: "x AND 0x0f = take_bit 4 x" for x :: u8
    by (simp add: take_bit_eq_mask mask_numeral)
  have l: "take_bit 4 lo = lo" "take_bit 4 hi = hi" using assms by (simp_all add: nibble_take)
  have b: "bit lo n \<Longrightarrow> n < 4" "bit hi n \<Longrightarrow> n < 4" for n
    using l by (metis bit_take_bit_iff)+
  have "drop_bit 4 (push_bit 4 hi OR lo) = hi"
    by (rule bit_eqI) (auto simp: bit_simps dest: b)
  moreover have "take_bit 4 (push_bit 4 hi OR lo) = lo"
    by (rule bit_eqI) (auto simp: bit_simps dest: b)
  moreover have "push_bit 4 (drop_bit 4 x) OR take_bit 4 x = x"
    by (rule bit_eqI) (auto simp: bit_simps)
  ultimately show ?thesis unfolding m by metis
qed

lemma nibbles_small: "drop_bit 4 x < (16 :: u8)" "x AND 0x0f < (16 :: u8)"
proof -
  show "drop_bit 4 x < (16 :: u8)"
    using unat_bound [of x]
    by (simp add: word_less_nat_alt unat_drop_bit_eq drop_bit_eq_div [where ?'a = nat])
  have "x AND 0x0f = take_bit 4 x"
    by (simp add: take_bit_eq_mask mask_numeral)
  then show "x AND 0x0f < (16 :: u8)" by (simp add: nibble_take)
qed

lemma hex_pairs_iff:
  "even (length s) \<and> hex_pairs (as_bytes s) = Inr bs \<longleftrightarrow> to_ascii_lowercase s = hex_encode bs"
proof (induction s arbitrary: bs rule: induct_list012)
  case 1
  then show ?case by (cases bs) (auto simp: to_ascii_lowercase_def)
next
  case (2 c)
  then show ?case by (cases bs) (auto simp: to_ascii_lowercase_def)
next
  case (3 c d s)
  show ?case
  proof (cases bs)
    case Nil
    then show ?thesis by (auto simp: to_ascii_lowercase_def as_bytes_def)
  next
    case (Cons x out)
    let ?v = "\<lambda>c. hex_value (word_of_nat (of_char c))"
    have "(\<exists>hi lo. ?v c = Inr hi \<and> ?v d = Inr lo \<and> x = push_bit 4 hi OR lo) \<longleftrightarrow>
        ?v c = Inr (drop_bit 4 x) \<and> ?v d = Inr (x AND 0x0f)"
      using nibbles_join hex_value_range nibbles_small by metis
    also have "\<dots> \<longleftrightarrow> ascii_lower c = hex_digit (drop_bit 4 x) \<and> ascii_lower d = hex_digit (x AND 0x0f)"
      by (simp add: hex_value_char nibbles_small)
    finally show ?thesis
      using 3(1) [of out] Cons by (auto simp: to_ascii_lowercase_def as_bytes_def)
  qed
qed

lemma hex_decode_iff: "hex_decode s = Inr bs \<longleftrightarrow> to_ascii_lowercase s = hex_encode bs"
  using hex_pairs_iff [of s bs] by (auto simp: hex_decode_def)

lemma hex_digit_lower: "v < 16 \<Longrightarrow> ascii_lower (hex_digit v) = hex_digit v"
  and hex_digit_solid: "v < 16 \<Longrightarrow> solid (hex_digit v)"
proof -
  have "list_all (\<lambda>v. ascii_lower (HEX ! v) = HEX ! v \<and> solid (HEX ! v)) [0..<16]"
    by code_simp
  then show "v < 16 \<Longrightarrow> ascii_lower (hex_digit v) = hex_digit v" "v < 16 \<Longrightarrow> solid (hex_digit v)"
    by (simp_all add: hex_digit_def list_all_iff word_less_nat_alt)
qed

lemma hex_encode_lower: "to_ascii_lowercase (hex_encode bs) = hex_encode bs"
  by (induction bs) (simp_all add: to_ascii_lowercase_def hex_digit_lower nibbles_small)

lemma hex_encode_solid: "list_all solid (hex_encode bs)"
  by (induction bs) (simp_all add: hex_digit_solid nibbles_small)

lemma length_hex_encode: "length (hex_encode bs) = 2 * length bs"
  by (induction bs) simp_all

lemma hex_decode_encode [simp]: "hex_decode (hex_encode bs) = Inr bs"
  by (simp add: hex_decode_iff hex_encode_lower)

section \<open>Properties\<close>

text \<open>
  Decoding reads back every encoded text, and accepts a text exactly when, in lower case, it is
  the encoding of the bytes it returns: no other character, no odd length, nothing lost or added.
\<close>

theorem hex_decode_exact:
  "hex_decode (hex_encode bs) = Inr bs \<and>
   (hex_decode s = Inr bs \<longleftrightarrow> to_ascii_lowercase s = hex_encode bs)"
  by (simp add: hex_decode_iff hex_encode_lower)

text \<open>The documented behaviour of the crate: the key of a signer verifies what it signed.\<close>

definition ed25519_signs :: "ed25519 \<Rightarrow> bytes \<Rightarrow> bool" where
  "ed25519_signs E sk \<longleftrightarrow>
     length (ed_public E sk) = 32 \<and> ed_key_error E (ed_public E sk) = None \<and>
     (\<forall>m. ed_signature_error E (ed_sign E sk m) = None \<and>
          ed_verify E (ed_public E sk) m (ed_sign E sk m))"

text \<open>
  A signature made with a signing key read from its text verifies under the public key that
  belongs to it, read from the text in turn, and it verifies whatever the case of its digits.
\<close>

theorem sign_then_verify:
  assumes "signing_key_from_hex secret = Inr sk" "ed25519_signs E sk"
    and "to_ascii_lowercase sig = sign_event E sk payload"
  shows "\<exists>vk. verifying_key_from_hex E (hex_encode (ed_public E sk)) = Inr vk \<and>
    verify_event_signature E vk payload sig = Inr True \<and> length secret = 64"
proof -
  from assms(1) have "to_ascii_lowercase secret = hex_encode sk" "length sk = 32"
    by (auto simp: signing_key_from_hex_def hex_decode_iff split: if_splits)
  then have "length secret = 64"
    by (metis length_hex_encode length_map mult_2 numeral_Bit0 to_ascii_lowercase_def)
  moreover from assms(3) have "hex_decode sig = Inr (ed_sign E sk payload)"
    by (simp add: hex_decode_iff sign_event_def)
  ultimately show ?thesis
    using assms(2)
    by (simp add: verifying_key_from_hex_def verify_event_signature_def ed25519_signs_def)
qed

text \<open>A toy instance of the crate: a signature is the key followed by the message.\<close>

definition sample_ed25519 :: ed25519 where
  "sample_ed25519 =
     \<lparr> ed_sign = \<lambda>k m. k @ m, ed_public = \<lambda>k. k, ed_key_error = \<lambda>_. None,
       ed_signature_error = \<lambda>_. None, ed_verify = \<lambda>k m s. s = k @ m \<rparr>"

theorem sign_then_verify_witness:
  "\<exists>vk. verifying_key_from_hex sample_ed25519 (hex_encode (replicate 32 171)) = Inr vk \<and>
    verify_event_signature sample_ed25519 vk [1] (hex_encode (replicate 32 171 @ [1])) = Inr True \<and>
    length (hex_encode (replicate 32 171)) = 64"
proof -
  have "signing_key_from_hex (hex_encode (replicate 32 171)) = Inr (replicate 32 171)"
    by (simp add: signing_key_from_hex_def)
  moreover have "ed25519_signs sample_ed25519 (replicate 32 171)"
    by (simp add: ed25519_signs_def sample_ed25519_def)
  moreover have "to_ascii_lowercase (hex_encode (replicate 32 171 @ [1])) =
      sign_event sample_ed25519 (replicate 32 171) [1]"
    by (simp add: sign_event_def sample_ed25519_def hex_encode_lower del: hex_encode.simps)
  ultimately show ?thesis
    using sign_then_verify [of "hex_encode (replicate 32 171)" "replicate 32 171" sample_ed25519
        "hex_encode (replicate 32 171 @ [1])" "[1]"]
    by (simp add: sample_ed25519_def del: hex_encode.simps)
qed

end
