(* ===== verification/Region.thy ===== *)
theory Region
  imports Events Signature
begin

text \<open>
  \<^verbatim>\<open>src/src/region.rs\<close>: region requests, the genesis event of a region, the region a genesis event
  describes, the core registry of regions, and access to a region.

  \<open>H\<close> is \<open>blake3::hash(..).to_hex()\<close> and \<open>E\<close> the crate \<open>ed25519_dalek\<close>. The crate \<open>serde_json\<close>
  is two parameters: \<open>J\<close> gives the JSON text of a string map, or its error, and \<open>JR\<close> that of a
  region. The crate \<open>hex\<close> is \<open>hexe\<close>.
\<close>

section \<open>Requests\<close>

definition REGION_CREATE_OPERATION_NAME :: string where
  "REGION_CREATE_OPERATION_NAME = ''REGION_CREATE''"

definition REGION_TYPE_TAG :: string where
  "REGION_TYPE_TAG = ''region''"

definition DEFAULT_REGION_AUTH_RATIO_BPS :: u64 where
  "DEFAULT_REGION_AUTH_RATIO_BPS = 1000"

datatype region_visibility = RV_Public | RV_Private

fun visibility_as_str :: "region_visibility \<Rightarrow> string" where
  "visibility_as_str RV_Public = ''public''"
| "visibility_as_str RV_Private = ''private''"

record region_create_request =
  rq_region_name :: string
  rq_region_prefix :: "string option"
  rq_suggested_title :: "string option"
  rq_visibility :: region_visibility
  rq_section :: u64
  rq_trigger_event_hash :: string
  rq_creation_proof :: string
  rq_access_key :: "string option"
  rq_metadata :: "(string, string) btree"
  rq_request_signature :: string

text \<open>\<open>Option::filter\<close>, and \<open>unwrap_or_default\<close> of an optional or fallible text.\<close>

definition option_filter :: "('a \<Rightarrow> bool) \<Rightarrow> 'a option \<Rightarrow> 'a option" where
  "option_filter p x = (case x of Some v \<Rightarrow> (if p v then Some v else None) | None \<Rightarrow> None)"

fun or_default :: "string option \<Rightarrow> string" where
  "or_default (Some s) = s"
| "or_default None = []"

fun ok_or_default :: "'e + string \<Rightarrow> string" where
  "ok_or_default (Inr s) = s"
| "ok_or_default (Inl _) = []"

text \<open>The trimmed upper-case prefix, none where it is blank: the closure the sources repeat.\<close>

definition prefix_key :: "string option \<Rightarrow> string option" where
  "prefix_key p = option_filter (\<lambda>v. v \<noteq> []) (map_option (\<lambda>v. to_ascii_uppercase (trim v)) p)"

definition normalized_name :: "region_create_request \<Rightarrow> string" where
  "normalized_name rq = to_ascii_lowercase (trim (rq_region_name rq))"

definition normalized_prefix :: "region_create_request \<Rightarrow> string option" where
  "normalized_prefix rq = prefix_key (rq_region_prefix rq)"

definition request_lookup_key :: "region_create_request \<Rightarrow> string" where
  "request_lookup_key rq = or_default (normalized_prefix rq) @ ''::'' @ normalized_name rq"

section \<open>Regions and the core\<close>

record region_state =
  rs_region_id :: string
  rs_region_root :: string
  rs_region_name :: string
  rs_normalized_name :: string
  rs_region_prefix :: "string option"
  rs_suggested_title :: "string option"
  rs_visibility :: region_visibility
  rs_section :: u64
  rs_auth_ratio_bps :: u64
  rs_creator_public_key :: string
  rs_trigger_event_hash :: string
  rs_creation_proof_hash :: string
  rs_access_key_hash :: "string option"
  rs_created_at_ms :: u64
  rs_updated_at_ms :: u64
  rs_version :: u64
  rs_metadata :: "(string, string) btree"

definition region_lookup_key :: "region_state \<Rightarrow> string" where
  "region_lookup_key rs =
     or_default (prefix_key (rs_region_prefix rs)) @ ''::'' @
     to_ascii_lowercase (trim (rs_normalized_name rs))"

record core_state =
  core_regions :: "(string, region_state) btree"
  core_total_auth_ratio_bps :: u64
  core_root :: string
  core_version :: u64

definition canonical_core_bytes ::
  "((string, string) btree \<Rightarrow> string + string) \<Rightarrow> (region_state \<Rightarrow> string + string) \<Rightarrow>
     core_state \<Rightarrow> bytes" where
  "canonical_core_bytes J JR core =
     (let payload = bt_insert ''version'' (show_word (core_version core)) [];
          payload = bt_insert ''total_auth_ratio_bps''
            (show_word (core_total_auth_ratio_bps core)) payload;
          payload = bt_insert ''region_count'' (show_nat (length (core_regions core))) payload;
          regions = fold (\<lambda>(region_id, region) m. bt_insert region_id (ok_or_default (JR region)) m)
            (core_regions core) [];
          payload = bt_insert ''regions'' (ok_or_default (J regions)) payload
      in as_bytes (ok_or_default (J payload)))"

definition canonical_core_root ::
  "(bytes \<Rightarrow> string) \<Rightarrow> ((string, string) btree \<Rightarrow> string + string) \<Rightarrow>
     (region_state \<Rightarrow> string + string) \<Rightarrow> core_state \<Rightarrow> string" where
  "canonical_core_root H J JR core = H (canonical_core_bytes J JR core)"

definition core_new ::
  "(bytes \<Rightarrow> string) \<Rightarrow> ((string, string) btree \<Rightarrow> string + string) \<Rightarrow>
     (region_state \<Rightarrow> string + string) \<Rightarrow> core_state" where
  "core_new H J JR =
     (let core = \<lparr> core_regions = [], core_total_auth_ratio_bps = 0, core_root = [], core_version = 0 \<rparr>
      in core\<lparr> core_root := canonical_core_root H J JR core \<rparr>)"

text \<open>\<open>insert_region\<close> works on \<open>&mut self\<close>: the core after it is returned beside the result.\<close>

definition insert_region ::
  "(bytes \<Rightarrow> string) \<Rightarrow> ((string, string) btree \<Rightarrow> string + string) \<Rightarrow>
     (region_state \<Rightarrow> string + string) \<Rightarrow> core_state \<Rightarrow> region_state \<Rightarrow> core_state \<times> unit outcome" where
  "insert_region H J JR core region =
     (if bt_get (core_regions core) (rs_region_id region) \<noteq> None
      then (core, Err (InvalidState (''region already exists in core: '' @ rs_region_id region)))
      else case checked_add (core_total_auth_ratio_bps core) (rs_auth_ratio_bps region) of
        None \<Rightarrow> (core, Err (InvalidState ''core auth ratio overflow''))
      | Some ratio \<Rightarrow>
          let core = core\<lparr> core_total_auth_ratio_bps := ratio,
                core_regions := bt_insert (rs_region_id region) region (core_regions core) \<rparr>
          in case checked_add (core_version core) 1 of
            None \<Rightarrow> (core, Err (InvalidState ''core version overflow''))
          | Some v \<Rightarrow>
              let core = core\<lparr> core_version := v \<rparr>
              in (core\<lparr> core_root := canonical_core_root H J JR core \<rparr>, Ok ()))"

section \<open>Canonical texts of a request\<close>

definition hash_hex :: "(bytes \<Rightarrow> string) \<Rightarrow> string \<Rightarrow> string" where
  "hash_hex H input = H (as_bytes input)"

definition canonical_region_seed_bytes ::
  "(bytes \<Rightarrow> string) \<Rightarrow> ((string, string) btree \<Rightarrow> string + string) \<Rightarrow>
     region_create_request \<Rightarrow> string \<Rightarrow> bytes outcome" where
  "canonical_region_seed_bytes H J rq actor_public_key =
     (let payload = fold (\<lambda>(k, v). bt_insert k v)
            [(''actor_public_key'', actor_public_key),
             (''region_name'', rq_region_name rq),
             (''region_prefix'', or_default (rq_region_prefix rq)),
             (''suggested_title'', or_default (rq_suggested_title rq)),
             (''visibility'', visibility_as_str (rq_visibility rq)),
             (''section'', show_word (rq_section rq)),
             (''trigger_event_hash'', rq_trigger_event_hash rq),
             (''creation_proof_hash'', hash_hex H (rq_creation_proof rq)),
             (''access_key_hash'', or_default (map_option (hash_hex H) (rq_access_key rq)))] []
      in and_then (map_err (\<lambda>e. InvalidState (''region metadata serialization error: '' @ e))
             (J (rq_metadata rq))) (\<lambda>metadata.
           map_ok as_bytes (map_err (\<lambda>e. InvalidState (''region seed serialization error: '' @ e))
             (J (bt_insert ''metadata'' metadata payload)))))"

definition canonical_region_request_signature_bytes ::
  "((string, string) btree \<Rightarrow> string + string) \<Rightarrow> region_create_request \<Rightarrow> bytes outcome" where
  "canonical_region_request_signature_bytes J rq =
     (let payload = fold (\<lambda>(k, v). bt_insert k v)
            [(''region_name'', rq_region_name rq),
             (''region_prefix'', or_default (rq_region_prefix rq)),
             (''suggested_title'', or_default (rq_suggested_title rq)),
             (''visibility'', visibility_as_str (rq_visibility rq)),
             (''section'', show_word (rq_section rq)),
             (''trigger_event_hash'', rq_trigger_event_hash rq),
             (''creation_proof'', rq_creation_proof rq),
             (''access_key'', or_default (rq_access_key rq))] []
      in and_then (map_err (\<lambda>e. InvalidState (''region metadata serialization error: '' @ e))
             (J (rq_metadata rq))) (\<lambda>metadata.
           map_ok as_bytes (map_err (\<lambda>e. InvalidState (''region request serialization error: '' @ e))
             (J (bt_insert ''metadata'' metadata payload)))))"

definition validate_region_create_request :: "region_create_request \<Rightarrow> unit outcome" where
  "validate_region_create_request rq =
     (if trim (rq_region_name rq) = [] then Err (InvalidState ''region_name cannot be empty'')
      else if rq_section rq = 0 then Err (InvalidState ''section must be greater than zero'')
      else if trim (rq_trigger_event_hash rq) = []
        then Err (InvalidState ''trigger_event_hash cannot be empty'')
      else if trim (rq_creation_proof rq) = []
        then Err (InvalidState ''creation_proof cannot be empty'')
      else if trim (rq_request_signature rq) = []
        then Err (InvalidState ''request_signature cannot be empty'')
      else case rq_visibility rq of
        RV_Public \<Rightarrow>
          if rq_access_key rq \<noteq> None
          then Err (InvalidState ''public regions must not include an access_key'') else Ok ()
      | RV_Private \<Rightarrow>
          if (case rq_access_key rq of Some v \<Rightarrow> trim v = [] | None \<Rightarrow> True)
          then Err (InvalidState ''private regions require a non-empty access_key'') else Ok ())"

section \<open>The signature of a request\<close>

record region_request_signature_debug =
  rd_lookup_key :: string
  rd_actor_public_key :: string
  rd_payload_len :: nat
  rd_payload_hash :: string
  rd_signature_len :: nat
  rd_verified :: bool
  rd_canonical_preview_hex :: string

definition debug_region_create_request_signature ::
  "(bytes \<Rightarrow> string) \<Rightarrow> ed25519 \<Rightarrow> ((string, string) btree \<Rightarrow> string + string) \<Rightarrow>
     (bytes \<Rightarrow> string) \<Rightarrow> string \<Rightarrow> region_create_request \<Rightarrow> region_request_signature_debug outcome" where
  "debug_region_create_request_signature H E J hexe actor_public_key rq =
     and_then (map_err (\<lambda>e. InvalidState (''region actor key error: '' @ e))
       (verifying_key_from_hex E actor_public_key)) (\<lambda>vk.
     and_then (canonical_region_request_signature_bytes J rq) (\<lambda>bytes.
     and_then (map_err (\<lambda>e. InvalidState (''region request signature error: '' @ e))
       (verify_event_signature E vk bytes (rq_request_signature rq))) (\<lambda>verified.
     Ok \<lparr> rd_lookup_key = request_lookup_key rq, rd_actor_public_key = actor_public_key,
          rd_payload_len = length bytes, rd_payload_hash = H bytes,
          rd_signature_len = length (rq_request_signature rq), rd_verified = verified,
          rd_canonical_preview_hex = hexe (take (min (length bytes) 32) bytes) \<rparr>)))"

definition verify_region_create_request_signature ::
  "(bytes \<Rightarrow> string) \<Rightarrow> ed25519 \<Rightarrow> ((string, string) btree \<Rightarrow> string + string) \<Rightarrow>
     (bytes \<Rightarrow> string) \<Rightarrow> string \<Rightarrow> region_create_request \<Rightarrow> unit outcome" where
  "verify_region_create_request_signature H E J hexe actor_public_key rq =
     and_then (debug_region_create_request_signature H E J hexe actor_public_key rq) (\<lambda>report.
     if rd_verified report then Ok ()
     else Err (InvalidState ''region request signature verification failed''))"

section \<open>The genesis event\<close>

definition canonical_region_id ::
  "(bytes \<Rightarrow> string) \<Rightarrow> ((string, string) btree \<Rightarrow> string + string) \<Rightarrow>
     region_create_request \<Rightarrow> string \<Rightarrow> u64 \<Rightarrow> string outcome" where
  "canonical_region_id H J rq actor_public_key sequence =
     map_ok (\<lambda>seed.
       let digest = H seed;
           short = take (min 24 (length digest)) digest;
           prefix = (case normalized_prefix rq of Some p \<Rightarrow> p | None \<Rightarrow> ''RGN'')
       in prefix @ ''::rgn_'' @ short @ ''::'' @ show_word sequence)
     (canonical_region_seed_bytes H J rq actor_public_key)"

definition region_create_operation :: operation_type where
  "region_create_operation = Op_Other REGION_CREATE_OPERATION_NAME"

text \<open>The metadata of the state after the genesis event, in the order of the insertions.\<close>

definition genesis_metadata ::
  "(bytes \<Rightarrow> string) \<Rightarrow> region_create_request \<Rightarrow> string \<Rightarrow> (string, string) btree" where
  "genesis_metadata H rq actor_public_key =
     (let metadata = fold (\<lambda>(k, v). bt_insert k v)
            [(''region_kind'', REGION_TYPE_TAG),
             (''region_name'', rq_region_name rq),
             (''normalized_name'', normalized_name rq),
             (''region_prefix'', or_default (normalized_prefix rq)),
             (''section'', show_word (rq_section rq)),
             (''suggested_title'', or_default (rq_suggested_title rq)),
             (''visibility'', visibility_as_str (rq_visibility rq)),
             (''creator_public_key'', actor_public_key),
             (''trigger_event_hash'', rq_trigger_event_hash rq),
             (''creation_proof_hash'', hash_hex H (rq_creation_proof rq)),
             (''access_key_hash'', or_default (map_option (hash_hex H) (rq_access_key rq))),
             (''initial_auth_ratio_bps'', show_word DEFAULT_REGION_AUTH_RATIO_BPS),
             (''core_registry'', ''core''),
             (''default_auth_ratio'', ''1.0'')] []
      in fold (\<lambda>(k, v). bt_insert (''meta:'' @ k) v) (rq_metadata rq) metadata)"

definition build_region_genesis_event ::
  "(bytes \<Rightarrow> string) \<Rightarrow> ((string, string) btree \<Rightarrow> string + string) \<Rightarrow>
     region_create_request \<Rightarrow> string \<Rightarrow> u64 \<Rightarrow> u64 \<Rightarrow> u64 \<Rightarrow> vector_event outcome" where
  "build_region_genesis_event H J rq actor_public_key logical_clock timestamp sequence =
     and_then (validate_region_create_request rq) (\<lambda>_.
     and_then (canonical_region_id H J rq actor_public_key sequence) (\<lambda>region_id.
       let before = vs_zero 0 [] REGION_TYPE_TAG;
           after = vs_new [] [] REGION_TYPE_TAG (genesis_metadata H rq actor_public_key);
           operation = region_create_operation;
           event_id = canonical_event_id region_id region_id operation logical_clock sequence;
           event = ev_new event_id [] region_id region_id operation before after f64_one True
             actor_public_key logical_clock timestamp;
           event = event\<lparr> ev_signature := rq_request_signature rq \<rparr>;
           event = event\<lparr> ev_payload_hash := canonical_payload_hash H event \<rparr>;
           event = event\<lparr> ev_event_hash := canonical_event_hash H event \<rparr>
       in Ok event))"

definition is_region_create_event :: "vector_event \<Rightarrow> bool" where
  "is_region_create_event event \<longleftrightarrow>
     (ev_operation event = Op_OriginCreate \<and>
        bt_get (vs_metadata (ev_vector_after event)) ''region_kind'' = Some REGION_TYPE_TAG) \<or>
     ev_operation event = Op_Other REGION_CREATE_OPERATION_NAME"

section \<open>The region of a genesis event\<close>

text \<open>An optional text of the metadata: absent, or blank, it is none.\<close>

definition nonblank_get :: "(string, string) btree \<Rightarrow> string \<Rightarrow> string option" where
  "nonblank_get md k =
     (case bt_get md k of Some v \<Rightarrow> (if trim v \<noteq> [] then Some v else None) | None \<Rightarrow> None)"

definition strip_prefix :: "string \<Rightarrow> string \<Rightarrow> string option" where
  "strip_prefix p s = (if take (length p) s = p then Some (drop (length p) s) else None)"

definition parse_visibility :: "string option \<Rightarrow> region_visibility outcome" where
  "parse_visibility v =
     (case v of
        None \<Rightarrow> Err (InvalidState ''missing visibility'')
      | Some s \<Rightarrow>
          if s = ''public'' then Ok RV_Public
          else if s = ''private'' then Ok RV_Private
          else Err (InvalidState (''invalid region visibility: '' @ s)))"

text \<open>The loop over the metadata that keeps the entries under \<^verbatim>\<open>meta:\<close>.\<close>

definition strip_meta :: "(string, string) btree \<Rightarrow> (string, string) btree" where
  "strip_meta md =
     fold (\<lambda>(k, v) m. case strip_prefix ''meta:'' k of
             Some stripped \<Rightarrow> bt_insert stripped v m | None \<Rightarrow> m) md []"

definition region_state_from_event :: "vector_event \<Rightarrow> region_state outcome" where
  "region_state_from_event event =
     (if \<not> is_region_create_event event
      then Err (InvalidState ''event is not a region creation event'')
      else if trim (ev_event_hash event) = []
      then Err (InvalidState ''region event hash cannot be empty'')
      else
        let md = vs_metadata (ev_vector_after event) in
        and_then (ok_or (InvalidState ''missing region_name'') (bt_get md ''region_name'')) (\<lambda>region_name.
        and_then (ok_or (InvalidState ''missing normalized_name'')
          (bt_get md ''normalized_name'')) (\<lambda>normalized_name.
        let region_prefix = nonblank_get md ''region_prefix'' in
        and_then (ok_or (InvalidState ''missing section'') (bt_get md ''section'')) (\<lambda>section_text.
        and_then (map_err (\<lambda>e. InvalidState (''invalid section: '' @ e))
          (parse_unsigned section_text)) (\<lambda>sect.
        and_then (case bt_get md ''initial_auth_ratio_bps'' of
            Some v \<Rightarrow> map_err (\<lambda>e. InvalidState (''invalid initial_auth_ratio_bps: '' @ e))
              (parse_unsigned v)
          | None \<Rightarrow> Ok DEFAULT_REGION_AUTH_RATIO_BPS) (\<lambda>auth_ratio_bps.
        if auth_ratio_bps = 0
        then Err (InvalidState ''initial_auth_ratio_bps must be greater than zero'')
        else
        let suggested_title = nonblank_get md ''suggested_title'' in
        and_then (parse_visibility (bt_get md ''visibility'')) (\<lambda>visibility.
        and_then (ok_or (InvalidState ''missing creator_public_key'')
          (bt_get md ''creator_public_key'')) (\<lambda>creator_public_key.
        and_then (ok_or (InvalidState ''missing trigger_event_hash'')
          (bt_get md ''trigger_event_hash'')) (\<lambda>trigger_event_hash.
        and_then (ok_or (InvalidState ''missing creation_proof_hash'')
          (bt_get md ''creation_proof_hash'')) (\<lambda>creation_proof_hash.
        let access_key_hash = nonblank_get md ''access_key_hash'' in
        Ok \<lparr> rs_region_id = ev_entity_id event, rs_region_root = ev_event_hash event,
             rs_region_name = region_name, rs_normalized_name = normalized_name,
             rs_region_prefix = region_prefix, rs_suggested_title = suggested_title,
             rs_visibility = visibility, rs_section = sect, rs_auth_ratio_bps = auth_ratio_bps,
             rs_creator_public_key = creator_public_key,
             rs_trigger_event_hash = trigger_event_hash,
             rs_creation_proof_hash = creation_proof_hash, rs_access_key_hash = access_key_hash,
             rs_created_at_ms = ev_timestamp event, rs_updated_at_ms = ev_timestamp event,
             rs_version = 1, rs_metadata = strip_meta md \<rparr>))))))))))"

section \<open>The registry and the listing\<close>

definition apply_region_event ::
  "(bytes \<Rightarrow> string) \<Rightarrow> ((string, string) btree \<Rightarrow> string + string) \<Rightarrow>
     (region_state \<Rightarrow> string + string) \<Rightarrow> core_state \<Rightarrow> vector_event \<Rightarrow> core_state \<times> unit outcome" where
  "apply_region_event H J JR core event =
     (case region_state_from_event event of
        Ok region \<Rightarrow> insert_region H J JR core region
      | Err e \<Rightarrow> (core, Err e)
      | Panicked \<Rightarrow> (core, Panicked))"

fun core_events_loop ::
  "(bytes \<Rightarrow> string) \<Rightarrow> ((string, string) btree \<Rightarrow> string + string) \<Rightarrow>
     (region_state \<Rightarrow> string + string) \<Rightarrow> core_state \<Rightarrow> vector_event list \<Rightarrow> core_state outcome" where
  "core_events_loop H J JR core [] = Ok core"
| "core_events_loop H J JR core (event # events) =
     (if is_region_create_event event
      then let (core', r) = apply_region_event H J JR core event
           in and_then r (\<lambda>_. core_events_loop H J JR core' events)
      else core_events_loop H J JR core events)"

definition core_state_from_events ::
  "(bytes \<Rightarrow> string) \<Rightarrow> ((string, string) btree \<Rightarrow> string + string) \<Rightarrow>
     (region_state \<Rightarrow> string + string) \<Rightarrow> vector_event list \<Rightarrow> core_state outcome" where
  "core_state_from_events H J JR events = core_events_loop H J JR (core_new H J JR) events"

definition authorize_region_access :: "(bytes \<Rightarrow> string) \<Rightarrow> region_state \<Rightarrow> string option \<Rightarrow> bool" where
  "authorize_region_access H region access_key =
     (case rs_visibility region of
        RV_Public \<Rightarrow> True
      | RV_Private \<Rightarrow>
          (case rs_access_key_hash region of
             None \<Rightarrow> False
           | Some expected \<Rightarrow>
               (case access_key of None \<Rightarrow> False | Some provided \<Rightarrow> hash_hex H provided = expected)))"

fun collect_regions ::
  "(string, region_state) btree \<Rightarrow> vector_event list \<Rightarrow> (string, region_state) btree outcome" where
  "collect_regions regions [] = Ok regions"
| "collect_regions regions (event # events) =
     (if is_region_create_event event
      then and_then (region_state_from_event event) (\<lambda>region.
             collect_regions (bt_insert (rs_region_id region) region regions) events)
      else collect_regions regions events)"

definition region_order ::
  "region_state \<Rightarrow> string \<times> string option \<times> u64 \<times> string" where
  "region_order r = (rs_normalized_name r, rs_region_prefix r, rs_section r, rs_region_id r)"

definition list_regions_from_events :: "vector_event list \<Rightarrow> region_state list outcome" where
  "list_regions_from_events events =
     map_ok (\<lambda>regions. sort_key region_order (bt_values regions)) (collect_regions [] events)"

definition find_region_by_lookup_key ::
  "vector_event list \<Rightarrow> string \<Rightarrow> string option \<Rightarrow> region_state option outcome" where
  "find_region_by_lookup_key events region_name region_prefix =
     map_ok (\<lambda>regions.
       find (\<lambda>region.
           rs_normalized_name region = to_ascii_lowercase (trim region_name) \<and>
           prefix_key (rs_region_prefix region) = prefix_key region_prefix) regions)
     (list_regions_from_events events)"

section \<open>Facts\<close>

lemma strip_prefix_Some: "strip_prefix p q = Some k \<longleftrightarrow> q = p @ k"
  by (auto simp: strip_prefix_def) (metis append_take_drop_id)

lemma strip_prefix_append [simp]: "strip_prefix p (p @ k) = Some k"
  by (simp add: strip_prefix_def)

lemma get_inserted:
  assumes "distinct (map fst m)"
  shows "bt_get (fold (\<lambda>(k, v). bt_insert (p @ k) v) m acc) q =
    (case strip_prefix p q of
       None \<Rightarrow> bt_get acc q
     | Some k \<Rightarrow> (case map_of m k of None \<Rightarrow> bt_get acc q | Some v \<Rightarrow> Some v))"
  using assms
proof (induction m arbitrary: acc)
  case (Cons e m)
  obtain k v where e: "e = (k, v)" by (cases e)
  have "map_of m k = None"
    using Cons.prems e by (auto simp: map_of_eq_None_iff)
  with Cons show ?case
    by (cases "strip_prefix p q") (auto simp: e strip_prefix_Some split: option.split)
qed (simp split: option.split)

lemma get_stripped:
  assumes "distinct (map fst md)"
  shows "bt_get (fold (\<lambda>(q, v) m. case strip_prefix p q of
             Some stripped \<Rightarrow> bt_insert stripped v m | None \<Rightarrow> m) md acc) k =
      (case bt_get md (p @ k) of None \<Rightarrow> bt_get acc k | Some v \<Rightarrow> Some v)"
  using assms
proof (induction md arbitrary: acc)
  case (Cons e md)
  obtain q v where e: "e = (q, v)" by (cases e)
  have "map_of md q = None"
    using Cons.prems e by (auto simp: map_of_eq_None_iff)
  with Cons show ?case
    by (cases "strip_prefix p q") (auto simp: e strip_prefix_Some split: option.split)
qed simp

lemma get_strip_meta:
  "distinct (map fst md) \<Longrightarrow> bt_get (strip_meta md) k = bt_get md (''meta:'' @ k)"
  unfolding strip_meta_def by (subst get_stripped) (simp_all split: option.split)

lemma strip_meta_ordered: "bt_ordered (strip_meta md)"
proof -
  have "bt_ordered acc \<Longrightarrow> bt_ordered (fold (\<lambda>(k, v) m. case strip_prefix ''meta:'' k of
      Some stripped \<Rightarrow> bt_insert stripped v m | None \<Rightarrow> m) md acc)" for acc :: "(string, string) btree"
    by (induction md arbitrary: acc) (auto split: option.split)
  then show ?thesis by (simp add: strip_meta_def)
qed

lemma fold_insert_ordered:
  "bt_ordered acc \<Longrightarrow> bt_ordered (fold (\<lambda>(k, v). bt_insert (f k) v) m acc)"
  by (induction m arbitrary: acc) auto

lemma genesis_metadata_ordered: "bt_ordered (genesis_metadata H rq pk)"
  unfolding genesis_metadata_def Let_def by (intro fold_insert_ordered fold_insert_ordered [of _ id, simplified]) simp

lemma get_genesis_fixed:
  assumes "bt_ordered (rq_metadata rq)"
  shows "bt_get (genesis_metadata H rq pk) ''region_kind'' = Some REGION_TYPE_TAG"
    "bt_get (genesis_metadata H rq pk) ''region_name'' = Some (rq_region_name rq)"
    "bt_get (genesis_metadata H rq pk) ''normalized_name'' = Some (normalized_name rq)"
    "bt_get (genesis_metadata H rq pk) ''region_prefix'' = Some (or_default (normalized_prefix rq))"
    "bt_get (genesis_metadata H rq pk) ''section'' = Some (show_word (rq_section rq))"
    "bt_get (genesis_metadata H rq pk) ''suggested_title'' = Some (or_default (rq_suggested_title rq))"
    "bt_get (genesis_metadata H rq pk) ''visibility'' = Some (visibility_as_str (rq_visibility rq))"
    "bt_get (genesis_metadata H rq pk) ''creator_public_key'' = Some pk"
    "bt_get (genesis_metadata H rq pk) ''trigger_event_hash'' = Some (rq_trigger_event_hash rq)"
    "bt_get (genesis_metadata H rq pk) ''creation_proof_hash'' =
       Some (hash_hex H (rq_creation_proof rq))"
    "bt_get (genesis_metadata H rq pk) ''access_key_hash'' =
       Some (or_default (map_option (hash_hex H) (rq_access_key rq)))"
    "bt_get (genesis_metadata H rq pk) ''initial_auth_ratio_bps'' =
       Some (show_word DEFAULT_REGION_AUTH_RATIO_BPS)"
    "bt_get (genesis_metadata H rq pk) (''meta:'' @ k) = bt_get (rq_metadata rq) k"
  unfolding genesis_metadata_def Let_def get_inserted [OF bt_ordered_distinct [OF assms]]
  by (simp_all add: strip_prefix_def split: option.split)

lemma strip_genesis_metadata:
  "bt_ordered (rq_metadata rq) \<Longrightarrow> strip_meta (genesis_metadata H rq pk) = rq_metadata rq"
  using bt_ordered_distinct [OF genesis_metadata_ordered, of H rq pk]
  by (intro bt_ordered_ext strip_meta_ordered) (simp_all only: get_strip_meta get_genesis_fixed)

lemma prefix_key_nonblank: "prefix_key p = Some v \<Longrightarrow> trim v \<noteq> [] \<and> to_ascii_uppercase (trim v) = v"
  by (auto simp: prefix_key_def option_filter_def trim_uppercase split: option.splits if_splits)

lemma or_default_Some [simp]: "x = Some v \<Longrightarrow> or_default x = v"
  by simp

lemma nonblank_or_default:
  "bt_get md k = Some (or_default x) \<Longrightarrow> nonblank_get md k = option_filter (\<lambda>v. trim v \<noteq> []) x"
  by (cases x) (simp_all add: nonblank_get_def option_filter_def)

lemma filter_prefix_key: "option_filter (\<lambda>v. trim v \<noteq> []) (prefix_key p) = prefix_key p"
  using prefix_key_nonblank [of p] by (cases "prefix_key p") (simp_all add: option_filter_def)

lemma prefix_key_idem: "prefix_key (prefix_key p) = prefix_key p"
  using prefix_key_nonblank [of p]
  by (cases "prefix_key p") (auto simp: prefix_key_def option_filter_def)

text \<open>The region that a request, its actor and the genesis event make.\<close>

definition genesis_region ::
  "(bytes \<Rightarrow> string) \<Rightarrow> region_create_request \<Rightarrow> string \<Rightarrow> vector_event \<Rightarrow> region_state" where
  "genesis_region H rq pk e =
     \<lparr> rs_region_id = ev_entity_id e, rs_region_root = ev_event_hash e,
       rs_region_name = rq_region_name rq, rs_normalized_name = normalized_name rq,
       rs_region_prefix = normalized_prefix rq,
       rs_suggested_title = option_filter (\<lambda>v. trim v \<noteq> []) (rq_suggested_title rq),
       rs_visibility = rq_visibility rq, rs_section = rq_section rq,
       rs_auth_ratio_bps = DEFAULT_REGION_AUTH_RATIO_BPS, rs_creator_public_key = pk,
       rs_trigger_event_hash = rq_trigger_event_hash rq,
       rs_creation_proof_hash = hash_hex H (rq_creation_proof rq),
       rs_access_key_hash = map_option (hash_hex H) (rq_access_key rq),
       rs_created_at_ms = ev_timestamp e, rs_updated_at_ms = ev_timestamp e, rs_version = 1,
       rs_metadata = rq_metadata rq \<rparr>"

lemma genesis_event_fields:
  assumes "build_region_genesis_event H J rq pk clk ts seq = Ok e"
  shows "validate_region_create_request rq = Ok ()"
    "canonical_region_id H J rq pk seq = Ok (ev_region_id e)"
    "ev_entity_id e = ev_region_id e" "ev_parent_hashes e = []"
    "ev_operation e = Op_Other REGION_CREATE_OPERATION_NAME"
    "vs_metadata (ev_vector_after e) = genesis_metadata H rq pk"
    "ev_actor_public_key e = pk" "ev_timestamp e = ts" "ev_logical_clock e = clk"
    "ev_signature e = rq_request_signature rq"
    "ev_payload_hash e = canonical_payload_hash H e" "ev_event_hash e = canonical_event_hash H e"
  using assms
  by (auto simp: build_region_genesis_event_def Let_def ev_new_def vs_new_def
      region_create_operation_def canonical_payload_hash_def canonical_event_hash_def
      canonical_event_bytes_def canonical_event_payload_bytes_def)

lemma genesis_event_region:
  assumes "build_region_genesis_event H J rq pk clk ts seq = Ok e"
    and "\<And>b. trim (H b) \<noteq> []" "bt_ordered (rq_metadata rq)"
  shows "region_state_from_event e = Ok (genesis_region H rq pk e)"
proof -
  note f = genesis_event_fields [OF assms(1)]
  note g = get_genesis_fixed [OF assms(3), of H pk]
  have "is_region_create_event e" by (simp add: is_region_create_event_def f)
  moreover have "trim (ev_event_hash e) \<noteq> []" by (simp only: f canonical_event_hash_def assms(2)) simp
  moreover have "parse_visibility (Some (visibility_as_str v)) = Ok v" for v
    by (cases v) (simp_all add: parse_visibility_def)
  moreover have "nonblank_get (genesis_metadata H rq pk) ''region_prefix'' = normalized_prefix rq"
    by (simp add: nonblank_or_default [OF g(4)] normalized_prefix_def filter_prefix_key)
  moreover have "nonblank_get (genesis_metadata H rq pk) ''access_key_hash'' =
      map_option (hash_hex H) (rq_access_key rq)"
    unfolding nonblank_or_default [OF g(11)]
    by (cases "rq_access_key rq") (simp_all add: option_filter_def hash_hex_def assms(2))
  ultimately show ?thesis
    by (simp add: region_state_from_event_def f(6) Let_def g nonblank_or_default [OF g(6)]
        strip_genesis_metadata [OF assms(3)] genesis_region_def DEFAULT_REGION_AUTH_RATIO_BPS_def)
qed

text \<open>The registry of the regions \<open>rss\<close>, and the core that holds them, inserted in that order.\<close>

definition regions_of :: "region_state list \<Rightarrow> (string, region_state) btree" where
  "regions_of rss = fold (\<lambda>r. bt_insert (rs_region_id r) r) rss []"

definition core_holds ::
  "(bytes \<Rightarrow> string) \<Rightarrow> ((string, string) btree \<Rightarrow> string + string) \<Rightarrow>
     (region_state \<Rightarrow> string + string) \<Rightarrow> core_state \<Rightarrow> region_state list \<Rightarrow> bool" where
  "core_holds H J JR core rss \<longleftrightarrow>
     distinct (map rs_region_id rss) \<and> core_regions core = regions_of rss \<and>
     unat (core_total_auth_ratio_bps core) = nat_sum (map rs_auth_ratio_bps rss) \<and>
     unat (core_version core) = length rss \<and>
     core_root core = canonical_core_root H J JR core"

lemma regions_of_snoc: "regions_of (rss @ [r]) = bt_insert (rs_region_id r) r (regions_of rss)"
  by (simp add: regions_of_def)

lemma regions_of_keys: "fst ` set (regions_of rss) = rs_region_id ` set rss"
  by (induction rss rule: rev_induct) (simp_all add: regions_of_snoc, simp add: regions_of_def)

lemma regions_of_mset:
  "distinct (map rs_region_id rss) \<Longrightarrow>
     mset (regions_of rss) = mset (map (\<lambda>r. (rs_region_id r, r)) rss)"
proof (induction rss rule: rev_induct)
  case (snoc r rss)
  then have "rs_region_id r \<notin> fst ` set (regions_of rss)" by (simp add: regions_of_keys)
  with snoc show ?case by (simp add: regions_of_snoc bt_insert_fresh_mset)
qed (simp add: regions_of_def)

lemma regions_of_values:
  "distinct (map rs_region_id rss) \<Longrightarrow> mset (bt_values (regions_of rss)) = mset rss"
  by (simp add: regions_of_mset image_mset.compositionality comp_def)

lemma regions_of_value_set:
  "distinct (map rs_region_id rss) \<Longrightarrow> set (bt_values (regions_of rss)) = set rss"
  by (rule mset_eq_setD [OF regions_of_values])

lemma core_holds_new: "core_holds H J JR (core_new H J JR) []"
  by (simp add: core_holds_def core_new_def Let_def regions_of_def canonical_core_root_def
      canonical_core_bytes_def)

lemma canonical_core_root_root [simp]:
  "canonical_core_root H J JR (core\<lparr>core_root := x\<rparr>) = canonical_core_root H J JR core"
  by (simp add: canonical_core_root_def canonical_core_bytes_def)

lemma insert_region_Ok:
  assumes "core_holds H J JR core rss" "insert_region H J JR core region = (core', Ok ())"
  shows "core_holds H J JR core' (rss @ [region])"
proof -
  from assms have "rs_region_id region \<notin> rs_region_id ` set rss"
    by (auto simp: insert_region_def core_holds_def map_of_eq_None_iff regions_of_keys
        split: if_splits)
  with assms show ?thesis
    by (auto simp: insert_region_def core_holds_def Let_def checked_add_Some regions_of_snoc
        unat_add_no_overflow split: if_splits option.splits)
qed

lemma core_events_loop_Ok:
  assumes "core_holds H J JR core rss" "core_events_loop H J JR core es = Ok core'"
  shows "\<exists>new. map region_state_from_event (filter is_region_create_event es) = map Ok new \<and>
    core_holds H J JR core' (rss @ new)"
  using assms
proof (induction es arbitrary: core rss)
  case (Cons e es)
  show ?case
  proof (cases "is_region_create_event e")
    case False
    with Cons show ?thesis by simp
  next
    case True
    with Cons.prems(2) obtain core1 where
      a: "apply_region_event H J JR core e = (core1, Ok ())" "core_events_loop H J JR core1 es = Ok core'"
      by (auto split: prod.splits)
    then obtain region where r: "region_state_from_event e = Ok region"
      "insert_region H J JR core region = (core1, Ok ())"
      by (auto simp: apply_region_event_def split: result.splits)
    from Cons.IH [OF insert_region_Ok [OF Cons.prems(1) r(2)] a(2)]
    obtain new where "map region_state_from_event (filter is_region_create_event es) = map Ok new"
      "core_holds H J JR core' ((rss @ [region]) @ new)" by blast
    with True r(1) show ?thesis by (intro exI [of _ "region # new"]) simp
  qed
qed auto

lemma insert_region_succeeds:
  assumes "core_holds H J JR core rss" "distinct (map rs_region_id (rss @ [r]))"
    and "nat_sum (map rs_auth_ratio_bps (rss @ [r])) < 2 ^ 64" "length (rss @ [r]) < 2 ^ 64"
  shows "\<exists>core'. insert_region H J JR core r = (core', Ok ())"
proof -
  have "rs_region_id r \<notin> fst ` set (core_regions core)"
    using assms(1,2) by (auto simp: core_holds_def regions_of_keys)
  then have "bt_get (core_regions core) (rs_region_id r) = None" by (simp add: map_of_eq_None_iff)
  with assms show ?thesis
    by (simp add: insert_region_def core_holds_def checked_add_def Let_def)
qed

lemma core_events_loop_succeeds:
  assumes "core_holds H J JR core rss"
    and "map region_state_from_event (filter is_region_create_event es) = map Ok new"
    and "distinct (map rs_region_id (rss @ new))"
    and "nat_sum (map rs_auth_ratio_bps (rss @ new)) < 2 ^ 64" "length (rss @ new) < 2 ^ 64"
  shows "\<exists>core'. core_events_loop H J JR core es = Ok core'"
  using assms
proof (induction es arbitrary: core rss new)
  case (Cons e es)
  show ?case
  proof (cases "is_region_create_event e")
    case False
    with Cons show ?thesis by simp
  next
    case True
    with Cons.prems(2) obtain r new' where n: "new = r # new'" "region_state_from_event e = Ok r"
      "map region_state_from_event (filter is_region_create_event es) = map Ok new'"
      by (cases new) auto
    obtain core1 where c: "insert_region H J JR core r = (core1, Ok ())"
      using insert_region_succeeds [OF Cons.prems(1), of r] Cons.prems(3-5) n(1) by auto
    have "\<exists>core'. core_events_loop H J JR core1 es = Ok core'"
      using Cons.prems(3-5) n(1)
      by (intro Cons.IH [OF insert_region_Ok [OF Cons.prems(1) c] n(3)]) simp_all
    with True n(2) c show ?thesis by (simp add: apply_region_event_def)
  qed
qed simp

lemma regions_of_perm:
  assumes "distinct (map rs_region_id rss)" "mset rss = mset qss"
  shows "regions_of rss = regions_of qss"
proof -
  have d: "distinct (map rs_region_id qss)"
    using assms by (metis mset_eq_imp_distinct_iff mset_map)
  have o: "bt_ordered (regions_of xs)" for xs
    unfolding regions_of_def by (rule fold_invariant [where Q = "\<lambda>_. True" and P = bt_ordered]) simp_all
  have "set (regions_of rss) = set (regions_of qss)"
    using regions_of_mset [OF assms(1)] regions_of_mset [OF d] assms(2)
    by (metis mset_eq_setD mset_map)
  then show ?thesis
    by (intro bt_ordered_ext o option_ext) (simp add: bt_get_iff_mem [OF o])
qed

lemma core_holds_perm:
  assumes "core_holds H J JR core rss" "core_holds H J JR core' qss" "mset rss = mset qss"
  shows "core = core'"
proof -
  have "core_regions core = core_regions core'"
    using assms regions_of_perm [of rss qss] by (simp add: core_holds_def)
  moreover have "nat_sum (map rs_auth_ratio_bps rss) = nat_sum (map rs_auth_ratio_bps qss)"
    using assms(3) unfolding nat_sum_def by (metis map_map mset_map sum_mset_sum_list)
  then have "core_total_auth_ratio_bps core = core_total_auth_ratio_bps core'"
    "core_version core = core_version core'"
    using assms mset_eq_length [OF assms(3)]
    by (auto simp: core_holds_def intro: unsigned_word_eqI [where ?'a = nat])
  ultimately have "core\<lparr>core_root := []\<rparr> = core'\<lparr>core_root := []\<rparr>"
    by (cases core; cases core') simp
  moreover from this have "canonical_core_root H J JR core = canonical_core_root H J JR core'"
    by (metis canonical_core_root_root)
  then have "core_root core = core_root core'" using assms by (simp add: core_holds_def)
  ultimately show ?thesis by (cases core; cases core') simp
qed

lemma core_events_loop_perm:
  assumes "core_events_loop H J JR (core_new H J JR) es = Ok core" "mset es = mset fs"
  shows "core_events_loop H J JR (core_new H J JR) fs = Ok core"
proof -
  obtain rss where rss: "map region_state_from_event (filter is_region_create_event es) = map Ok rss"
    "core_holds H J JR core rss"
    using core_events_loop_Ok [OF core_holds_new assms(1)] by auto
  let ?val = "\<lambda>e. case region_state_from_event e of Ok r \<Rightarrow> r"
  define qss where "qss = map ?val (filter is_region_create_event fs)"
  have m: "mset (filter is_region_create_event es) = mset (filter is_region_create_event fs)"
    using assms(2) by simp
  have val: "region_state_from_event e = Ok (?val e)" if "e \<in> set (filter is_region_create_event fs)" for e
  proof -
    have "region_state_from_event e \<in> set (map Ok rss)"
      using that mset_eq_setD [OF m] unfolding rss(1) [symmetric] by auto
    then show ?thesis by auto
  qed
  then have q: "map region_state_from_event (filter is_region_create_event fs) = map Ok qss"
    unfolding qss_def map_map by (intro map_cong refl) simp
  have "rss = map ?val (filter is_region_create_event es)"
    using arg_cong [OF rss(1), of "map (\<lambda>x. case x of Ok r \<Rightarrow> r)"] by (simp add: comp_def)
  then have p: "mset rss = mset qss"
    unfolding qss_def using m by (metis mset_map)
  then have "distinct (map rs_region_id qss)" "nat_sum (map rs_auth_ratio_bps qss) < 2 ^ 64"
    "length qss < 2 ^ 64"
  proof -
    show "distinct (map rs_region_id qss)"
      using rss(2) p unfolding core_holds_def by (metis mset_eq_imp_distinct_iff mset_map)
    have "nat_sum (map rs_auth_ratio_bps qss) = nat_sum (map rs_auth_ratio_bps rss)"
      using p unfolding nat_sum_def by (metis map_map mset_map sum_mset_sum_list)
    then show "nat_sum (map rs_auth_ratio_bps qss) < 2 ^ 64"
      using rss(2) unat_bound [of "core_total_auth_ratio_bps core"] by (simp add: core_holds_def)
    show "length qss < 2 ^ 64"
      using rss(2) unat_bound [of "core_version core"] mset_eq_length [OF p] by (simp add: core_holds_def)
  qed
  then have "\<exists>core'. core_events_loop H J JR (core_new H J JR) fs = Ok core'"
    by (intro core_events_loop_succeeds [OF core_holds_new q]) simp_all
  then obtain core' where c: "core_events_loop H J JR (core_new H J JR) fs = Ok core'" by blast
  from core_events_loop_Ok [OF core_holds_new c] q have "core_holds H J JR core' qss"
    by (auto simp: inj_map_eq_map inj_def)
  with core_holds_perm [OF rss(2) _ p] c show ?thesis by simp
qed

lemma core_state_from_events_Ok:
  "core_state_from_events H J JR es = Ok core \<Longrightarrow>
     \<exists>rss. map region_state_from_event (filter is_region_create_event es) = map Ok rss \<and>
       core_holds H J JR core rss"
  using core_events_loop_Ok [OF core_holds_new] by (fastforce simp: core_state_from_events_def)

lemma collect_regions_map:
  "map region_state_from_event (filter is_region_create_event es) = map Ok rss \<Longrightarrow>
     collect_regions m es = Ok (fold (\<lambda>r. bt_insert (rs_region_id r) r) rss m)"
  by (induction es arbitrary: m rss) (auto simp: Cons_eq_map_conv split: if_splits)

lemma find_SomeI: "x \<in> set xs \<Longrightarrow> p x \<Longrightarrow> \<exists>y. find p xs = Some y"
  by (induction xs) auto

lemma find_SomeD: "find p xs = Some y \<Longrightarrow> y \<in> set xs \<and> p y"
  by (auto simp: find_Some_iff)

section \<open>An example\<close>

definition sample_hash :: "bytes \<Rightarrow> string" where
  "sample_hash bs = CHR ''h'' # from_bytes bs"

definition sample_json :: "'a \<Rightarrow> string + string" where
  "sample_json x = Inr ''{}''"

definition sample_request :: region_create_request where
  "sample_request =
     \<lparr> rq_region_name = ''Market'', rq_region_prefix = Some ''mk'', rq_suggested_title = None,
       rq_visibility = RV_Private, rq_section = 1, rq_trigger_event_hash = ''t'',
       rq_creation_proof = ''p'', rq_access_key = Some ''key'', rq_metadata = [(''a'', ''1'')],
       rq_request_signature = ''00'' \<rparr>"

lemma sample_hash_solid: "\<forall>b. trim (sample_hash b) \<noteq> []"
  using trim_solid_nonempty [of "CHR ''h''"] by (simp add: sample_hash_def solid_def)

lemma sample_ordered: "bt_ordered (rq_metadata sample_request)"
  by (simp add: sample_request_def bt_ordered_def)

lemma sample_genesis:
  "\<exists>e. build_region_genesis_event sample_hash sample_json sample_request ''pk'' 1 2 3 = Ok e"
proof -
  have "trim ''Market'' = ''Market''" "trim ''t'' = ''t''" "trim ''p'' = ''p''" "trim ''00'' = ''00''"
    "trim ''key'' = ''key''"
    by (rule trim_all_solid, simp add: solid_def)+
  then have "validate_region_create_request sample_request = Ok ()"
    by (simp add: validate_region_create_request_def sample_request_def)
  moreover have "\<exists>i. canonical_region_id sample_hash sample_json sample_request ''pk'' 3 = Ok i"
    by (simp add: canonical_region_id_def canonical_region_seed_bytes_def Let_def sample_json_def)
  ultimately show ?thesis by (auto simp: build_region_genesis_event_def Let_def)
qed

lemma sample_core:
  assumes "build_region_genesis_event sample_hash sample_json sample_request ''pk'' 1 2 3 = Ok e"
  shows "\<exists>core. core_state_from_events sample_hash sample_json sample_json [e] = Ok core"
proof -
  have "is_region_create_event e"
    using genesis_event_fields(5) [OF assms] by (simp add: is_region_create_event_def)
  moreover have "region_state_from_event e = Ok (genesis_region sample_hash sample_request ''pk'' e)"
    using genesis_event_region [OF assms _ sample_ordered] sample_hash_solid by blast
  ultimately show ?thesis
    by (auto simp: core_state_from_events_def apply_region_event_def insert_region_def core_new_def
        Let_def checked_add_def genesis_region_def DEFAULT_REGION_AUTH_RATIO_BPS_def)
qed

section \<open>Properties\<close>

text \<open>
  C37: The genesis event of a request describes the region the request asks for: reading the region
  back from the event returns every field of the request, the name and prefix normalised, the title
  dropped where it is blank, the access key and the creation proof hashed, the metadata unchanged,
  and the region is found under the lookup key of the request.
\<close>

theorem region_genesis_roundtrip:
  assumes "build_region_genesis_event H J rq pk clk ts seq = Ok e"
    and "\<forall>b. trim (H b) \<noteq> []" "bt_ordered (rq_metadata rq)"
  shows "is_region_create_event e \<and>
    region_state_from_event e = Ok (genesis_region H rq pk e) \<and>
    region_lookup_key (genesis_region H rq pk e) = request_lookup_key rq"
  using genesis_event_region [OF assms(1) _ assms(3)] assms(2) genesis_event_fields(5) [OF assms(1)]
  by (simp add: is_region_create_event_def genesis_region_def region_lookup_key_def
      request_lookup_key_def normalized_prefix_def prefix_key_idem normalized_name_def trim_lowercase)

theorem region_genesis_roundtrip_witness:
  "\<exists>e. build_region_genesis_event sample_hash sample_json sample_request ''pk'' 1 2 3 = Ok e \<and>
    region_state_from_event e = Ok (genesis_region sample_hash sample_request ''pk'' e) \<and>
    region_lookup_key (genesis_region sample_hash sample_request ''pk'' e) =
      request_lookup_key sample_request"
  using sample_genesis region_genesis_roundtrip [OF _ sample_hash_solid sample_ordered] by blast

text \<open>
  Access to a created region: a request that named no access key makes a region anyone may
  enter, and one that named a key makes a region entered only with a text of the same hash, never
  without a text.
\<close>

theorem region_access:
  assumes "build_region_genesis_event H J rq pk clk ts seq = Ok e"
    and "region_state_from_event e = Ok rs" "\<forall>b. trim (H b) \<noteq> []" "bt_ordered (rq_metadata rq)"
  shows "authorize_region_access H rs key \<longleftrightarrow>
    (case rq_access_key rq of
       None \<Rightarrow> True
     | Some a \<Rightarrow> (case key of None \<Rightarrow> False | Some p \<Rightarrow> hash_hex H p = hash_hex H a))"
proof -
  have "rs = genesis_region H rq pk e"
    using genesis_event_region [OF assms(1) _ assms(4)] assms(2,3) by simp
  moreover have "rq_visibility rq = RV_Public \<longleftrightarrow> rq_access_key rq = None"
    using genesis_event_fields(1) [OF assms(1)]
    by (auto simp: validate_region_create_request_def split: if_splits option.splits region_visibility.splits)
  ultimately show ?thesis
    by (cases "rq_visibility rq") (auto simp: authorize_region_access_def genesis_region_def)
qed

theorem region_access_witness:
  "\<exists>rs. authorize_region_access sample_hash rs (Some ''key'') \<and>
    \<not> authorize_region_access sample_hash rs (Some ''Key'') \<and> \<not> authorize_region_access sample_hash rs None"
proof -
  obtain e where e: "build_region_genesis_event sample_hash sample_json sample_request ''pk'' 1 2 3 = Ok e"
    using sample_genesis by blast
  have s: "region_state_from_event e = Ok (genesis_region sample_hash sample_request ''pk'' e)"
    using genesis_event_region [OF e _ sample_ordered] sample_hash_solid by blast
  have k: "rq_access_key sample_request = Some ''key''" by (simp add: sample_request_def)
  have "hash_hex sample_hash ''Key'' \<noteq> hash_hex sample_hash ''key''"
    by (simp add: hash_hex_def sample_hash_def)
  then show ?thesis
    using region_access [OF e s sample_hash_solid sample_ordered]
    by (intro exI [of _ "genesis_region sample_hash sample_request ''pk'' e"]) (simp add: k)
qed

text \<open>
  C38: The core rebuilt from a log holds exactly the regions of its genesis events, one for each
  identifier; its total ratio is their sum and its version their number, neither wrapped around, and
  its root is the hash of what it holds.
\<close>

theorem core_state_from_events_sound:
  assumes "core_state_from_events H J JR es = Ok core"
  shows "\<exists>rss. map region_state_from_event (filter is_region_create_event es) = map Ok rss \<and>
    distinct (map rs_region_id rss) \<and> mset (bt_values (core_regions core)) = mset rss \<and>
    unat (core_total_auth_ratio_bps core) = nat_sum (map rs_auth_ratio_bps rss) \<and>
    unat (core_version core) = length rss \<and> core_root core = canonical_core_root H J JR core"
proof -
  obtain rss where "map region_state_from_event (filter is_region_create_event es) = map Ok rss"
    "core_holds H J JR core rss"
    using core_state_from_events_Ok [OF assms] by blast
  with regions_of_values [of rss] show ?thesis
    by (intro exI [of _ rss]) (simp add: core_holds_def)
qed

theorem core_state_from_events_sound_witness:
  "\<exists>e core. core_state_from_events sample_hash sample_json sample_json [e] = Ok core \<and>
    core_root core = canonical_core_root sample_hash sample_json sample_json core"
  using sample_genesis sample_core core_state_from_events_sound by metis

text \<open>
  Where the core accepts a log, the listing of its regions returns, and it is the content of the
  core in the listing's order; each region made by a request is then found by the name and prefix of
  the request, in whatever case and spacing, and what is found has the request's lookup key.
\<close>

theorem created_region_is_found:
  assumes "core_state_from_events H J JR es = Ok core"
    and "build_region_genesis_event H J rq pk clk ts seq = Ok e" "e \<in> set es"
    and "\<forall>b. trim (H b) \<noteq> []" "bt_ordered (rq_metadata rq)"
  shows "list_regions_from_events es = Ok (sort_key region_order (bt_values (core_regions core))) \<and>
    (\<exists>r. find_region_by_lookup_key es (rq_region_name rq) (rq_region_prefix rq) = Ok (Some r) \<and>
       region_lookup_key r = request_lookup_key rq)"
proof -
  obtain rss where rss: "map region_state_from_event (filter is_region_create_event es) = map Ok rss"
    "core_holds H J JR core rss"
    using core_state_from_events_Ok [OF assms(1)] by blast
  then have l: "list_regions_from_events es = Ok (sort_key region_order (bt_values (core_regions core)))"
    by (simp add: list_regions_from_events_def collect_regions_map core_holds_def regions_of_def)
  let ?r = "genesis_region H rq pk e"
  let ?p = "\<lambda>region. rs_normalized_name region = to_ascii_lowercase (trim (rq_region_name rq)) \<and>
      prefix_key (rs_region_prefix region) = prefix_key (rq_region_prefix rq)"
  have "region_state_from_event e = Ok ?r"
    using genesis_event_region [OF assms(2) _ assms(5)] assms(4) by simp
  moreover have "is_region_create_event e"
    using genesis_event_fields(5) [OF assms(2)] by (simp add: is_region_create_event_def)
  ultimately have "(Ok ?r :: region_state outcome) \<in> set (map Ok rss)"
    using assms(3) unfolding rss(1) [symmetric] by force
  then have "?r \<in> set (bt_values (core_regions core))"
    using rss(2) regions_of_value_set [of rss] by (auto simp: core_holds_def)
  moreover have "?p ?r"
    by (simp add: genesis_region_def normalized_name_def normalized_prefix_def prefix_key_idem)
  ultimately obtain r where r: "find ?p (sort_key region_order (bt_values (core_regions core))) = Some r"
    using find_SomeI [of ?r "sort_key region_order (bt_values (core_regions core))" ?p] by auto
  then have "region_lookup_key r = request_lookup_key rq"
    using find_SomeD [OF r]
    by (simp add: region_lookup_key_def request_lookup_key_def normalized_prefix_def
        normalized_name_def trim_lowercase)
  with r l show ?thesis by (simp add: find_region_by_lookup_key_def)
qed

theorem created_region_is_found_witness:
  "\<exists>e r. build_region_genesis_event sample_hash sample_json sample_request ''pk'' 1 2 3 = Ok e \<and>
    find_region_by_lookup_key [e] ''Market'' (Some ''mk'') = Ok (Some r) \<and>
    region_lookup_key r = request_lookup_key sample_request"
proof -
  obtain e where e: "build_region_genesis_event sample_hash sample_json sample_request ''pk'' 1 2 3 = Ok e"
    using sample_genesis by blast
  obtain core where c: "core_state_from_events sample_hash sample_json sample_json [e] = Ok core"
    using sample_core [OF e] by blast
  show ?thesis
    using created_region_is_found [OF c e _ sample_hash_solid sample_ordered] e
    by (auto simp: sample_request_def)
qed

end
