(* ===== verification/Replay.thy ===== *)
theory Replay
  imports Dag Region Vector_State
begin

text \<open>
  \<^verbatim>\<open>src/src/replay.rs\<close>: rebuilding the state of every entity, and the core registry, from the log.
  \<open>H\<close>, \<open>J\<close> and \<open>JR\<close> are the hash and the JSON texts of the region theory.
\<close>

section \<open>Operations\<close>

record replay_result =
  rr_final_state :: "(string, vector_state) btree"
  rr_core_state :: core_state
  rr_state_root :: state_root
  rr_replay_hash :: string
  rr_applied_event_hashes :: "string list"

definition replay_sort_key :: "vector_event \<Rightarrow> u64 \<times> u64 \<times> string \<times> string \<times> string" where
  "replay_sort_key e =
     (ev_logical_clock e, ev_timestamp e, ev_entity_id e, ev_event_id e, ev_event_hash e)"

text \<open>
  \<open>apply_event\<close> works on the two maps of its caller, which drops both on an error: the model returns
  them on success only.
\<close>

definition apply_event ::
  "(bytes \<Rightarrow> string) \<Rightarrow> ((string, string) btree \<Rightarrow> string + string) \<Rightarrow> (region_state \<Rightarrow> string + string) \<Rightarrow>
     (string, vector_state) btree \<Rightarrow> core_state \<Rightarrow> vector_event \<Rightarrow>
     ((string, vector_state) btree \<times> core_state) text_outcome" where
  "apply_event H J JR state core event =
     (if is_region_create_event event then
        let (core', r) = apply_region_event H J JR core event
        in and_then (map_error error_to_string r) (\<lambda>_.
             Ok (bt_insert (ev_entity_id event) (ev_vector_after event) state, core'))
      else
        let current = bt_get state (ev_entity_id event)
        in and_then
          (case ev_operation event of
             Op_OriginCreate \<Rightarrow>
               if current \<noteq> None
               then Err (''origin create attempted for existing entity_id: '' @ ev_entity_id event)
               else Ok ()
           | _ \<Rightarrow>
               and_then (ok_or (''non-origin event references missing entity state: '' @
                   ev_entity_id event) current) (\<lambda>current_state.
               if current_state \<noteq> ev_vector_before event
               then Err (''vector_before mismatch for entity_id '' @ ev_entity_id event)
               else Ok ())) (\<lambda>_.
          Ok (bt_insert (ev_entity_id event) (ev_vector_after event) state, core)))"

fun hash_map_loop ::
  "(string, vector_event) btree \<Rightarrow> vector_event list \<Rightarrow> (string, vector_event) btree text_outcome" where
  "hash_map_loop by_hash [] = Ok by_hash"
| "hash_map_loop by_hash (event # events) =
     (if bt_get by_hash (ev_event_hash event) \<noteq> None
      then Err (''duplicate event_hash detected: '' @ ev_event_hash event)
      else hash_map_loop (bt_insert (ev_event_hash event) event by_hash) events)"

fun link_entity_parents ::
  "(string, vector_event) btree \<Rightarrow> string \<Rightarrow> string set \<Rightarrow> string list \<Rightarrow> graph \<times> degrees \<Rightarrow>
     (graph \<times> degrees) text_outcome" where
  "link_entity_parents by_hash hash seen_parents [] gd = Ok gd"
| "link_entity_parents by_hash hash seen_parents (parent_hash # ps) gd =
     (if parent_hash \<in> seen_parents then Err (''duplicate parent hash in event: '' @ hash)
      else link_entity_parents by_hash hash (insert parent_hash seen_parents) ps
        (if bt_get by_hash parent_hash \<noteq> None then edge_entry parent_hash hash gd else gd))"

fun link_entity_events ::
  "(string, vector_event) btree \<Rightarrow> vector_event list \<Rightarrow> graph \<times> degrees \<Rightarrow>
     (graph \<times> degrees) text_outcome" where
  "link_entity_events by_hash [] gd = Ok gd"
| "link_entity_events by_hash (event # es) gd =
     and_then (link_entity_parents by_hash (ev_event_hash event) {} (ev_parent_hashes event) gd)
       (link_entity_events by_hash es)"

definition order_entity_events :: "vector_event list \<Rightarrow> vector_event list text_outcome" where
  "order_entity_events events =
     (if events = [] then Ok []
      else
        and_then (hash_map_loop [] events) (\<lambda>by_hash.
        and_then (link_entity_events by_hash events
          (fold (\<lambda>event. node_entry (ev_event_hash event)) events ([], []))) (\<lambda>(children, indegree).
        let root_count = length (roots indegree)
        in if root_count \<noteq> 1
           then Err (''entity history must have exactly one root event, found '' @
                     show_nat root_count @ '' roots'')
           else
             and_then (sort_nodes replay_sort_key (bt_get by_hash) (roots indegree)) (\<lambda>ready.
             and_then (order_loop replay_sort_key ''missing node in entity replay map: ''
               (bt_get by_hash) children indegree ready []) (\<lambda>ordered.
             if length ordered \<noteq> length events
             then Err ''entity replay ordering failed due to unresolved ancestry or cycle''
             else Ok ordered)))))"

definition group_by_entity :: "vector_event list \<Rightarrow> (string, vector_event list) btree" where
  "group_by_entity events =
     fold (\<lambda>event. bt_update (ev_entity_id event) (\<lambda>es. es @ [event]) []) events []"

type_synonym replay_state =
  "(string, vector_state) btree \<times> core_state \<times> string list \<times> u64"

fun apply_ordered ::
  "(bytes \<Rightarrow> string) \<Rightarrow> ((string, string) btree \<Rightarrow> string + string) \<Rightarrow> (region_state \<Rightarrow> string + string) \<Rightarrow>
     vector_event list \<Rightarrow> replay_state \<Rightarrow> replay_state text_outcome" where
  "apply_ordered H J JR [] s = Ok s"
| "apply_ordered H J JR (event # es) (state, core, applied, logical_clock) =
     and_then (apply_event H J JR state core event) (\<lambda>(state', core').
     apply_ordered H J JR es
       (state', core', applied @ [ev_event_hash event], max logical_clock (ev_logical_clock event)))"

fun replay_entities ::
  "(bytes \<Rightarrow> string) \<Rightarrow> ((string, string) btree \<Rightarrow> string + string) \<Rightarrow> (region_state \<Rightarrow> string + string) \<Rightarrow>
     (string \<times> vector_event list) list \<Rightarrow> replay_state \<Rightarrow> replay_state text_outcome" where
  "replay_entities H J JR [] s = Ok s"
| "replay_entities H J JR ((_, entity_events) # groups) s =
     and_then (order_entity_events entity_events) (\<lambda>ordered.
     and_then (apply_ordered H J JR ordered s) (replay_entities H J JR groups))"

definition replay_events ::
  "(bytes \<Rightarrow> string) \<Rightarrow> ((string, string) btree \<Rightarrow> string + string) \<Rightarrow> (region_state \<Rightarrow> string + string) \<Rightarrow>
     vector_event list \<Rightarrow> replay_result text_outcome" where
  "replay_events H J JR events =
     and_then (validate_dag events) (\<lambda>_.
     and_then (replay_entities H J JR (group_by_entity events) ([], core_new H J JR, [], 0))
       (\<lambda>(state, core, applied, logical_clock).
       Ok \<lparr> rr_final_state = state, rr_core_state = core,
            rr_state_root = compute_state_root_from_canonical_bytes H
              (canonical_state_map_bytes state) (of_nat (length applied)) logical_clock,
            rr_replay_hash = canonical_replay_hash H applied,
            rr_applied_event_hashes = applied \<rparr>))"

definition verify_replay ::
  "(bytes \<Rightarrow> string) \<Rightarrow> ((string, string) btree \<Rightarrow> string + string) \<Rightarrow> (region_state \<Rightarrow> string + string) \<Rightarrow>
     vector_event list \<Rightarrow> state_root \<Rightarrow> string \<Rightarrow> bool text_outcome" where
  "verify_replay H J JR events expected_state_root expected_replay_hash =
     map_ok (\<lambda>r. rr_state_root r = expected_state_root \<and> rr_replay_hash r = expected_replay_hash)
       (replay_events H J JR events)"

definition canonical_final_state_bytes :: "replay_result \<Rightarrow> bytes" where
  "canonical_final_state_bytes r = btreemap_canonical_bytes vs_canonical_bytes (rr_final_state r)"

section \<open>Ordering the history of one entity\<close>

text \<open>The parents of an event within its own entity.\<close>

definition inner_parents :: "vector_event list \<Rightarrow> string \<Rightarrow> string list" where
  "inner_parents events h = filter (\<lambda>p. p \<in> set (hashes events)) (parents_of events h)"

lemma hash_map_loop_not_panicked [simp]: "hash_map_loop m events \<noteq> Panicked"
  by (induction m events rule: hash_map_loop.induct) simp_all

lemma hash_map_loop_iff:
  "hash_map_loop m events = Ok m' \<longleftrightarrow>
     distinct (hashes events) \<and> (\<forall>e \<in> set events. bt_get m (ev_event_hash e) = None) \<and>
     m' = fold (\<lambda>e. bt_insert (ev_event_hash e) e) events m"
proof (induction m events rule: hash_map_loop.induct)
  case (2 m event events)
  then show ?case by (auto simp: image_iff)
qed auto

lemma link_entity_parents_Ok:
  "link_entity_parents by_hash hash seen ps gd = Ok gd' \<longleftrightarrow>
     distinct ps \<and> set ps \<inter> seen = {} \<and>
     gd' = fold (\<lambda>p. edge_entry p hash) (filter (\<lambda>p. bt_get by_hash p \<noteq> None) ps) gd"
  by (induction ps arbitrary: seen gd) auto

lemma link_entity_parents_not_panicked [simp]: "link_entity_parents by_hash hash seen ps gd \<noteq> Panicked"
  by (induction ps arbitrary: seen gd) simp_all

lemma link_entity_events_not_panicked [simp]: "link_entity_events by_hash es gd \<noteq> Panicked"
proof (induction es arbitrary: gd)
  case (Cons e es)
  then show ?case
    by (cases "link_entity_parents by_hash (ev_event_hash e) {} (ev_parent_hashes e) gd") simp_all
qed simp

lemma link_entity_events_Ok:
  "link_entity_events by_hash es gd = Ok gd' \<longleftrightarrow>
     (\<forall>e \<in> set es. distinct (ev_parent_hashes e)) \<and>
     gd' = fold (\<lambda>e gd. fold (\<lambda>p. edge_entry p (ev_event_hash e))
       (filter (\<lambda>p. bt_get by_hash p \<noteq> None) (ev_parent_hashes e)) gd) es gd"
  by (induction es arbitrary: gd) (auto simp: link_entity_parents_Ok)

lemma entity_graph_filled:
  assumes "distinct (hashes events)" "\<And>p. by_hash p \<longleftrightarrow> p \<in> set (hashes events)"
  shows "fold (\<lambda>e gd. fold (\<lambda>p. edge_entry p (ev_event_hash e)) (filter by_hash (ev_parent_hashes e)) gd)
      events (fold (\<lambda>e. node_entry (ev_event_hash e)) events ([], [])) =
    filled (inner_parents events) (hashes events)"
proof -
  have e: "fold (\<lambda>e gd. fold (\<lambda>p. edge_entry p (ev_event_hash e)) (filter by_hash (ev_parent_hashes e)) gd)
      es gd = fold (\<lambda>(p, h). edge_entry p h) (edge_list (inner_parents events) (hashes es)) gd"
    if "set es \<subseteq> set events" for es gd
    using that
  proof (induction es arbitrary: gd)
    case (Cons e es)
    then have "filter by_hash (ev_parent_hashes e) = inner_parents events (ev_event_hash e)"
      using parents_of_event [OF assms(1), of e] assms(2)
      by (auto simp: inner_parents_def intro!: filter_cong)
    with Cons show ?case by (simp add: edge_list_def fold_map comp_def)
  qed (simp add: edge_list_def)
  have n: "fold (\<lambda>e. node_entry (ev_event_hash e)) es gd = fold node_entry (hashes es) gd" for es gd
    by (simp add: fold_map comp_def)
  show ?thesis unfolding filled_def n by (simp add: e)
qed

text \<open>What the ordering does on events with hashes and parents of their own.\<close>

lemma inner_parents_ok:
  assumes "distinct (hashes events)" "\<forall>e \<in> set events. distinct (ev_parent_hashes e)"
  shows "\<forall>h \<in> set (hashes events). distinct (inner_parents events h) \<and>
    set (inner_parents events h) \<subseteq> set (hashes events)"
  using assms parents_of_event [OF assms(1)] by (auto simp: inner_parents_def)

lemma order_entity_events_unfold:
  assumes "distinct (hashes events)" "\<forall>e \<in> set events. distinct (ev_parent_hashes e)" "events \<noteq> []"
    and "filled (inner_parents events) (hashes events) = (g, d)"
    and "look = bt_get (fold (\<lambda>e. bt_insert (ev_event_hash e) e) events [])"
  shows "order_entity_events events =
    (if length (roots d) \<noteq> 1
     then Err (''entity history must have exactly one root event, found '' @
               show_nat (length (roots d)) @ '' roots'')
     else
       and_then (sort_nodes replay_sort_key look (roots d)) (\<lambda>ready.
       and_then (order_loop replay_sort_key ''missing node in entity replay map: '' look g d ready []) (\<lambda>ordered.
       if length ordered \<noteq> length events
       then Err ''entity replay ordering failed due to unresolved ancestry or cycle''
       else Ok ordered)))"
proof -
  let ?m = "fold (\<lambda>e. bt_insert (ev_event_hash e) e) events []"
  have h: "hash_map_loop [] events = Ok ?m"
    using assms(1) by (simp add: hash_map_loop_iff)
  have "bt_get ?m p \<noteq> None \<longleftrightarrow> p \<in> set (hashes events)" for p
    using get_event_map [OF assms(1), of "[]" p] unfolding not_None_eq by auto
  then have "link_entity_events ?m events (fold (\<lambda>e. node_entry (ev_event_hash e)) events ([], [])) = Ok (g, d)"
    using entity_graph_filled [OF assms(1), of "\<lambda>p. bt_get ?m p \<noteq> None"] assms(2,4)
    by (simp add: link_entity_events_Ok)
  with h assms(3) show ?thesis by (simp add: order_entity_events_def Let_def assms(5))
qed

lemma order_entity_events_pre:
  assumes "order_entity_events events = Ok xs" "events \<noteq> []"
  shows "distinct (hashes events)" "\<forall>e \<in> set events. distinct (ev_parent_hashes e)"
  using assms by (auto simp: order_entity_events_def hash_map_loop_iff link_entity_events_Ok)

lemma event_look:
  assumes "distinct (hashes events)" "look = bt_get (fold (\<lambda>e. bt_insert (ev_event_hash e) e) events [])"
  shows "look h = Some e \<longleftrightarrow> e \<in> set events \<and> ev_event_hash e = h"
    and "inj_on (\<lambda>h. map_option replay_sort_key (look h)) (dom look)"
    and "\<forall>h \<in> set (hashes events). \<exists>e. look h = Some e \<and> ev_event_hash e = h"
proof -
  have l: "look h = Some e \<longleftrightarrow> e \<in> set events \<and> ev_event_hash e = h" for h e
    using get_event_map [OF assms(1), of "[]"] assms(2) by simp
  show "look h = Some e \<longleftrightarrow> e \<in> set events \<and> ev_event_hash e = h" by (rule l)
  show "inj_on (\<lambda>h. map_option replay_sort_key (look h)) (dom look)"
  proof (rule inj_onI)
    fix h h' assume "h \<in> dom look" "h' \<in> dom look"
      and e: "map_option replay_sort_key (look h) = map_option replay_sort_key (look h')"
    then obtain x y where "look h = Some x" "look h' = Some y" by blast
    with e l show "h = h'" by (simp add: replay_sort_key_def)
  qed
  show "\<forall>h \<in> set (hashes events). \<exists>e. look h = Some e \<and> ev_event_hash e = h"
    using l by auto
qed

lemma order_entity_events_Ok:
  assumes "order_entity_events events = Ok xs"
  shows "mset xs = mset events \<and> parents_first (inner_parents events) (hashes xs)"
proof (cases "events = []")
  case True
  with assms show ?thesis by (simp add: order_entity_events_def)
next
  case False
  note pre = order_entity_events_pre [OF assms False]
  define look where "look = bt_get (fold (\<lambda>e. bt_insert (ev_event_hash e) e) events [])"
  obtain g d where gd: "filled (inner_parents events) (hashes events) = (g, d)" by fastforce
  note f = filled_graph [OF pre(1) inner_parents_ok [OF pre] gd]
  note l = event_look [OF pre(1) look_def]
  from assms obtain ready where o: "length (roots d) = 1"
    "sort_nodes replay_sort_key look (roots d) = Ok ready"
    "order_loop replay_sort_key ''missing node in entity replay map: '' look g d ready [] = Ok xs"
    "length xs = length events"
    by (auto simp: order_entity_events_unfold [OF pre False gd look_def] split: if_splits)
  have "ready = roots d"
    using o(1,2) by (cases "roots d") (auto simp: sort_nodes_def split: if_splits)
  then have "kahn_state (set (hashes events)) (inner_parents events) d ready (map ev_event_hash [])"
    using f by simp
  from order_loop_Ok [OF _ l(3) this, of g replay_sort_key "''missing node in entity replay map: ''"] f o(3)
  obtain d' where xs: "kahn_state (set (hashes events)) (inner_parents events) d' [] (hashes xs)"
    "\<forall>e \<in> set xs. look (ev_event_hash e) = Some e" by auto
  have e: "distinct (hashes xs)" "parents_first (inner_parents events) (hashes xs)"
    using xs(1) by (simp_all add: kahn_state_def)
  have "set xs \<subseteq> set events" using xs(2) l(1) by blast
  moreover have "distinct xs" "distinct events" using e(1) pre(1) by (simp_all add: distinct_map)
  ultimately have "set xs = set events"
    using o(4) distinct_subset_all [of xs events] by simp
  with \<open>distinct xs\<close> \<open>distinct events\<close> have "mset xs = mset events"
    using set_eq_iff_mset_eq_distinct by blast
  with e(2) show ?thesis by blast
qed

lemma order_entity_events_not_panicked: "order_entity_events events \<noteq> Panicked"
proof (cases "distinct (hashes events) \<and> (\<forall>e \<in> set events. distinct (ev_parent_hashes e)) \<and> events \<noteq> []")
  case True
  then have pre: "distinct (hashes events)" "\<forall>e \<in> set events. distinct (ev_parent_hashes e)" "events \<noteq> []"
    by auto
  define look where "look = bt_get (fold (\<lambda>e. bt_insert (ev_event_hash e) e) events [])"
  obtain g d where gd: "filled (inner_parents events) (hashes events) = (g, d)" by fastforce
  note f = filled_graph [OF pre(1) inner_parents_ok [OF pre(1,2)] gd]
  note l = event_look [OF pre(1) look_def]
  have "\<exists>ready. sort_nodes replay_sort_key look (roots d) = Ok ready \<and> (\<exists>xs.
      order_loop replay_sort_key ''missing node in entity replay map: '' look g d ready [] = Ok xs)"
    if "length (roots d) = 1"
  proof -
    have "sort_nodes replay_sort_key look (roots d) = Ok (roots d)"
      using that by (cases "roots d") (auto simp: sort_nodes_def)
    moreover have "kahn_state (set (hashes events)) (inner_parents events) d (roots d) (map ev_event_hash [])"
      using f by simp
    ultimately show ?thesis
      using order_loop_Ok [OF _ l(3), of "inner_parents events" g d "roots d" "[]" replay_sort_key
          "''missing node in entity replay map: ''"] f by auto
  qed
  then show ?thesis
    unfolding order_entity_events_unfold [OF pre gd look_def] by (auto split: if_splits)
next
  case False
  show ?thesis
  proof
    assume p: "order_entity_events events = Panicked"
    then have ne: "events \<noteq> []" by (auto simp: order_entity_events_def)
    show False
    proof (cases "hash_map_loop [] events")
      case (Ok m)
      then have "\<not> (\<forall>e \<in> set events. distinct (ev_parent_hashes e))"
        using False ne by (auto simp: hash_map_loop_iff)
      then obtain err where "link_entity_events m events
          (fold (\<lambda>e. node_entry (ev_event_hash e)) events ([], [])) = Err err"
        by (cases "link_entity_events m events (fold (\<lambda>e. node_entry (ev_event_hash e)) events ([], []))")
          (auto simp: link_entity_events_Ok)
      with Ok ne p show False by (simp add: order_entity_events_def)
    qed (use ne p in \<open>simp_all add: order_entity_events_def\<close>)
  qed
qed

lemma order_entity_events_perm:
  assumes "order_entity_events events = Ok xs" "mset events = mset events'"
  shows "order_entity_events events' = Ok xs"
proof (cases "events = []")
  case True
  with assms show ?thesis by simp
next
  case False
  note pre = order_entity_events_pre [OF assms(1) False]
  have set': "set events' = set events" "events' \<noteq> []" "length events' = length events"
    using mset_eq_setD [OF assms(2)] False mset_eq_length [OF assms(2)] by auto
  have hs: "mset (hashes events) = mset (hashes events')" using assms(2) by simp
  have pre': "distinct (hashes events')" "\<forall>e \<in> set events'. distinct (ev_parent_hashes e)"
    using pre set' mset_eq_imp_distinct_iff [OF hs] by simp_all
  define look where "look = bt_get (fold (\<lambda>e. bt_insert (ev_event_hash e) e) events [])"
  have "look h = bt_get (fold (\<lambda>e. bt_insert (ev_event_hash e) e) events' []) h" for h
    by (rule option_ext)
      (simp add: event_look(1) [OF pre(1) look_def] event_look(1) [OF pre'(1) refl] set'(1))
  then have look': "look = bt_get (fold (\<lambda>e. bt_insert (ev_event_hash e) e) events' [])" by blast
  have "parents_of events' h = parents_of events h" if "h \<in> set (hashes events)" for h
    using that parents_of_event [OF pre(1)] parents_of_event [OF pre'(1)] set'(1) by auto
  then have ip: "inner_parents events' h = inner_parents events h" if "h \<in> set (hashes events)" for h
    using that set'(1) by (simp add: inner_parents_def)
  have edges: "edge_list (inner_parents events') hs = edge_list (inner_parents events) hs"
    if "set hs \<subseteq> set (hashes events)" for hs
  proof -
    have "map (\<lambda>h. map (\<lambda>p. (p, h)) (inner_parents events' h)) hs =
        map (\<lambda>h. map (\<lambda>p. (p, h)) (inner_parents events h)) hs"
      using that ip by (intro map_cong refl) auto
    then show ?thesis by (simp only: edge_list_def)
  qed
  obtain g d where gd: "filled (inner_parents events) (hashes events) = (g, d)" by fastforce
  obtain g' d' where gd0: "filled (inner_parents events) (hashes events') = (g', d')" by fastforce
  then have gd': "filled (inner_parents events') (hashes events') = (g', d')"
    using edges [of "hashes events'"] set'(1) by (simp add: filled_def)
  from assms(1) obtain ready where o: "length (roots d) = 1"
    "sort_nodes replay_sort_key look (roots d) = Ok ready"
    "order_loop replay_sort_key ''missing node in entity replay map: '' look g d ready [] = Ok xs"
    "length xs = length events"
    by (auto simp: order_entity_events_unfold [OF pre False gd look_def] split: if_splits)
  from filled_order_cong [OF hs pre(1) inner_parents_ok [OF pre] gd gd0 event_look(2) [OF pre(1) look_def] o(3)]
  show ?thesis
    using o set'(3) by (auto simp: order_entity_events_unfold [OF pre' set'(2) gd' look'])
qed

lemma order_entity_events_root:
  assumes "order_entity_events events = Ok xs" "events \<noteq> []"
  shows "\<exists>r. {h \<in> set (hashes events). inner_parents events h = []} = {r}"
proof -
  note pre = order_entity_events_pre [OF assms]
  obtain g d where gd: "filled (inner_parents events) (hashes events) = (g, d)" by fastforce
  note f = filled_graph [OF pre(1) inner_parents_ok [OF pre] gd]
  from assms(1) have "length (roots d) = 1"
    by (auto simp: order_entity_events_unfold [OF pre assms(2) gd refl] split: if_splits)
  then obtain r where "roots d = [r]" by (auto simp: length_Suc_conv)
  moreover have "set (roots d) = available (set (hashes events)) (inner_parents events) []"
    using f by (simp add: kahn_state_def)
  ultimately show ?thesis by (auto simp: available_def)
qed

section \<open>Histories\<close>

text \<open>
  What the replay accepts of the events of one entity, in their order: a region event at any place,
  an origin event first only, and any other event where it starts from the state before it.
\<close>

definition admits :: "vector_state option \<Rightarrow> vector_event \<Rightarrow> bool" where
  "admits current e \<longleftrightarrow>
     is_region_create_event e \<or>
     (ev_operation e = Op_OriginCreate \<and> current = None) \<or>
     (ev_operation e \<noteq> Op_OriginCreate \<and> current = Some (ev_vector_before e))"

fun history :: "vector_state option \<Rightarrow> vector_event list \<Rightarrow> bool" where
  "history current [] = True"
| "history current (e # es) = (admits current e \<and> history (Some (ev_vector_after e)) es)"

definition last_state :: "vector_state option \<Rightarrow> vector_event list \<Rightarrow> vector_state option" where
  "last_state current es = (if es = [] then current else Some (ev_vector_after (last es)))"

lemma core_events_loop_append:
  "core_events_loop H J JR core es = Ok core1 \<Longrightarrow>
     core_events_loop H J JR core (es @ fs) = core_events_loop H J JR core1 fs"
  by (induction es arbitrary: core) (auto split: prod.splits)

lemma apply_event_Ok:
  "apply_event H J JR state core e = Ok (state', core') \<longleftrightarrow>
     (\<exists>core1. core_events_loop H J JR core [e] = Ok core1 \<and> core' = core1) \<and>
     admits (bt_get state (ev_entity_id e)) e \<and>
     state' = bt_insert (ev_entity_id e) (ev_vector_after e) state"
  unfolding apply_event_def admits_def Let_def
  by (cases "ev_operation e"; cases "bt_get state (ev_entity_id e)")
    (auto split: prod.splits if_splits)

lemma region_state_from_event_not_panicked [simp]: "region_state_from_event e \<noteq> Panicked"
  by (auto simp: region_state_from_event_def Let_def and_then_Panicked parse_visibility_def
      split: if_splits option.splits)

lemma insert_region_not_panicked [simp]: "snd (insert_region H J JR core r) \<noteq> Panicked"
  by (auto simp: insert_region_def Let_def split: option.split)

lemma apply_region_event_not_panicked [simp]: "snd (apply_region_event H J JR core e) \<noteq> Panicked"
  by (auto simp: apply_region_event_def split: result.split)

lemma apply_event_not_panicked: "apply_event H J JR state core e \<noteq> Panicked"
proof (cases "is_region_create_event e")
  case True
  then show ?thesis
    using apply_region_event_not_panicked [of H J JR core e]
    by (auto simp: apply_event_def and_then_Panicked simp del: apply_region_event_not_panicked
        split: prod.splits)
next
  case False
  then show ?thesis
    by (auto simp: apply_event_def and_then_Panicked Let_def split: operation_type.splits if_splits)
qed

lemma apply_ordered_Ok:
  assumes "apply_ordered H J JR es (state, core, applied, clk) = Ok (state', core', applied', clk')"
    and "\<forall>e \<in> set es. ev_entity_id e = k"
  shows "history (bt_get state k) es \<and> bt_get state' = (bt_get state)(k := last_state (bt_get state k) es) \<and>
    core_events_loop H J JR core es = Ok core' \<and> applied' = applied @ hashes es \<and>
    clk' = fold (\<lambda>e c. max c (ev_logical_clock e)) es clk \<and> (bt_ordered state \<longrightarrow> bt_ordered state')"
  using assms
proof (induction es arbitrary: state core applied clk)
  case (Cons e es)
  then obtain state1 core1 where 1: "apply_event H J JR state core e = Ok (state1, core1)"
    "apply_ordered H J JR es (state1, core1, applied @ [ev_event_hash e], max clk (ev_logical_clock e)) =
       Ok (state', core', applied', clk')"
    by auto
  have "\<forall>e \<in> set es. ev_entity_id e = k" using Cons.prems(2) by simp
  note IH = Cons.IH [OF 1(2) this]
  from 1(1) Cons.prems(2) have s: "admits (bt_get state k) e"
    "state1 = bt_insert k (ev_vector_after e) state" "core_events_loop H J JR core [e] = Ok core1"
    by (auto simp: apply_event_Ok)
  with IH core_events_loop_append [OF s(3), of es] show ?case
    by (auto simp: last_state_def fun_eq_iff)
qed (auto simp: last_state_def)

lemma group_loop:
  "bt_get (fold (\<lambda>e. bt_update (ev_entity_id e) (\<lambda>es. es @ [e]) []) events m) k =
     (if filter (\<lambda>e. ev_entity_id e = k) events = [] then bt_get m k
      else Some ((case bt_get m k of None \<Rightarrow> [] | Some es \<Rightarrow> es) @ filter (\<lambda>e. ev_entity_id e = k) events))"
  by (induction events arbitrary: m) (auto split: option.split)

lemma group_by_entity_get:
  "bt_get (group_by_entity events) k =
     (if filter (\<lambda>e. ev_entity_id e = k) events = [] then None
      else Some (filter (\<lambda>e. ev_entity_id e = k) events))"
  by (simp add: group_by_entity_def group_loop)

lemma group_by_entity_ordered: "bt_ordered (group_by_entity events)"
  unfolding group_by_entity_def
  by (rule fold_invariant [where Q = "\<lambda>_. True" and P = bt_ordered]) simp_all

lemma group_by_entity_mem:
  "(k, es) \<in> set (group_by_entity events) \<longleftrightarrow>
     es = filter (\<lambda>e. ev_entity_id e = k) events \<and> es \<noteq> []"
  using bt_get_iff_mem [OF group_by_entity_ordered, of events k es] group_by_entity_get [of events k]
  by (auto split: if_splits)

lemma group_loop_mset:
  "bt_ordered m \<Longrightarrow>
     mset (concat (bt_values (fold (\<lambda>e. bt_update (ev_entity_id e) (\<lambda>es. es @ [e]) []) events m))) =
     mset (concat (bt_values m)) + mset events"
proof (induction events arbitrary: m)
  case (Cons e events)
  note ins = mset_concat_bt_insert [OF Cons.prems, of "ev_entity_id e" _ "[e]"]
  have "mset (concat (bt_values (bt_update (ev_entity_id e) (\<lambda>es. es @ [e]) [] m))) =
      add_mset e (mset (concat (bt_values m)))"
    using ins [of "[]"] ins [of "the (bt_get m (ev_entity_id e))"]
    by (cases "bt_get m (ev_entity_id e)") (simp_all add: bt_update_def)
  with Cons show ?case by simp
qed simp

lemma group_by_entity_mset: "mset (concat (bt_values (group_by_entity events))) = mset events"
  using group_loop_mset [of "[]"] by (simp add: group_by_entity_def)

lemma replay_entities_Ok:
  assumes "replay_entities H J JR gs (state, core, applied, clk) = Ok (state', core', applied', clk')"
    and "distinct (map fst gs)" "\<forall>(k, es) \<in> set gs. \<forall>e \<in> set es. ev_entity_id e = k"
  shows "\<exists>ys. mset ys = mset (concat (map snd gs)) \<and>
    (\<forall>k. k \<notin> fst ` set gs \<longrightarrow> bt_get state' k = bt_get state k) \<and>
    (\<forall>(k, es) \<in> set gs. \<exists>xs. order_entity_events es = Ok xs \<and> history (bt_get state k) xs \<and>
       bt_get state' k = last_state (bt_get state k) xs) \<and>
    core_events_loop H J JR core ys = Ok core' \<and> applied' = applied @ hashes ys \<and>
    clk' = fold (\<lambda>e c. max c (ev_logical_clock e)) ys clk \<and> (bt_ordered state \<longrightarrow> bt_ordered state')"
  using assms
proof (induction gs arbitrary: state core applied clk)
  case Nil
  then show ?case by (intro exI [of _ "[]"]) simp
next
  case (Cons g gs)
  obtain k es where g: "g = (k, es)" by (cases g)
  with Cons.prems(1) obtain xs s1 where x: "order_entity_events es = Ok xs"
    "apply_ordered H J JR xs (state, core, applied, clk) = Ok s1"
    "replay_entities H J JR gs s1 = Ok (state', core', applied', clk')" by auto
  obtain state1 core1 applied1 clk1 where s1: "s1 = (state1, core1, applied1, clk1)"
    by (cases s1) auto
  have m: "mset xs = mset es" using order_entity_events_Ok [OF x(1)] by blast
  then have "\<forall>e \<in> set xs. ev_entity_id e = k"
    using Cons.prems(3) g by (auto dest: mset_eq_setD)
  note a = apply_ordered_Ok [OF x(2) [unfolded s1] this]
  have d: "distinct (map fst gs)" "\<forall>(k, es) \<in> set gs. \<forall>e \<in> set es. ev_entity_id e = k"
    "k \<notin> fst ` set gs" using Cons.prems(2,3) g by auto
  from Cons.IH [OF x(3) [unfolded s1] d(1,2)] obtain ys where ys:
    "mset ys = mset (concat (map snd gs))"
    "\<forall>k. k \<notin> fst ` set gs \<longrightarrow> bt_get state' k = bt_get state1 k"
    "\<forall>(k, es) \<in> set gs. \<exists>xs. order_entity_events es = Ok xs \<and> history (bt_get state1 k) xs \<and>
       bt_get state' k = last_state (bt_get state1 k) xs"
    "core_events_loop H J JR core1 ys = Ok core'" "applied' = applied1 @ hashes ys"
    "clk' = fold (\<lambda>e c. max c (ev_logical_clock e)) ys clk1" "bt_ordered state1 \<longrightarrow> bt_ordered state'"
    by blast
  have other: "bt_get state1 q = bt_get state q" if "q \<noteq> k" for q using a that by simp
  have "\<forall>(q, es) \<in> set gs. \<exists>xs. order_entity_events es = Ok xs \<and> history (bt_get state q) xs \<and>
       bt_get state' q = last_state (bt_get state q) xs"
  proof (clarify)
    fix q fs assume q: "(q, fs) \<in> set gs"
    then have "q \<noteq> k" using d(3) by force
    from other [OF this] ys(3) q show "\<exists>xs. order_entity_events fs = Ok xs \<and> history (bt_get state q) xs \<and>
       bt_get state' q = last_state (bt_get state q) xs" by fastforce
  qed
  moreover have "bt_get state' k = last_state (bt_get state k) xs" using ys(2) d(3) a by simp
  ultimately show ?case
    using x(1) m ys a other core_events_loop_append [of H J JR core xs core1 ys] g d(3)
    by (intro exI [of _ "xs @ ys"]) auto
qed

section \<open>The whole log\<close>

abbreviation entity_events :: "vector_event list \<Rightarrow> string \<Rightarrow> vector_event list" where
  "entity_events events k \<equiv> filter (\<lambda>e. ev_entity_id e = k) events"

lemma max_clock: "fold (\<lambda>e c. max c (f e)) ys c = Max (insert c (f ` set ys))" for c :: "'a::linorder"
proof (induction ys arbitrary: c)
  case (Cons y ys)
  have "Max (insert (max c (f y)) A) = Max (insert c (insert (f y) A))" if "finite A" for A
    using that by (cases "A = {}") (simp_all add: max.assoc)
  with Cons show ?case by simp
qed simp

lemma group_by_entity_groups:
  "distinct (map fst (group_by_entity events))"
  "\<forall>(k, es) \<in> set (group_by_entity events). \<forall>e \<in> set es. ev_entity_id e = k"
  using bt_ordered_distinct [OF group_by_entity_ordered] by (auto simp: group_by_entity_mem)

lemma replay_events_Ok:
  assumes "replay_events H J JR events = Ok r"
  shows "well_formed_dag events" "bt_ordered (rr_final_state r)"
    and "\<exists>xs. order_entity_events (entity_events events k) = Ok xs \<and> history None xs \<and>
      bt_get (rr_final_state r) k = last_state None xs"
    and "core_state_from_events H J JR events = Ok (rr_core_state r)"
    and "mset (rr_applied_event_hashes r) = mset (hashes events)"
    and "rr_state_root r = compute_state_root_from_canonical_bytes H
      (canonical_state_map_bytes (rr_final_state r)) (of_nat (length events))
      (Max (insert 0 (ev_logical_clock ` set events)))"
    and "rr_replay_hash r = canonical_replay_hash H (rr_applied_event_hashes r)"
proof -
  from assms obtain core applied clk where v: "validate_dag events = Ok ()"
    and e: "replay_entities H J JR (group_by_entity events) ([], core_new H J JR, [], 0) =
      Ok (rr_final_state r, core, applied, clk)"
    and r: "rr_core_state r = core" "rr_applied_event_hashes r = applied"
      "rr_state_root r = compute_state_root_from_canonical_bytes H
         (canonical_state_map_bytes (rr_final_state r)) (of_nat (length applied)) clk"
      "rr_replay_hash r = canonical_replay_hash H applied"
    unfolding replay_events_def by (auto simp: ac_simps)
  from v show "well_formed_dag events" by (simp add: validate_dag_iff)
  from replay_entities_Ok [OF e group_by_entity_groups] obtain ys where
    ys: "mset ys = mset events"
      "\<forall>k. k \<notin> fst ` set (group_by_entity events) \<longrightarrow> bt_get (rr_final_state r) k = None"
      "\<forall>(k, es) \<in> set (group_by_entity events). \<exists>xs. order_entity_events es = Ok xs \<and> history None xs \<and>
        bt_get (rr_final_state r) k = last_state None xs"
      "core_events_loop H J JR (core_new H J JR) ys = Ok core" "applied = hashes ys"
      "clk = fold (\<lambda>e c. max c (ev_logical_clock e)) ys 0" "bt_ordered (rr_final_state r)"
    by (auto simp: group_by_entity_mset)
  have sz: "length ys = length events" "set ys = set events"
    using mset_eq_length [OF ys(1)] mset_eq_setD [OF ys(1)] by auto
  show "bt_ordered (rr_final_state r)" by fact
  show "\<exists>xs. order_entity_events (entity_events events k) = Ok xs \<and> history None xs \<and>
      bt_get (rr_final_state r) k = last_state None xs"
  proof (cases "entity_events events k = []")
    case True
    then have "k \<notin> fst ` set (group_by_entity events)" by (auto simp: group_by_entity_mem)
    with ys(2) True show ?thesis by (simp add: order_entity_events_def last_state_def)
  next
    case False
    then have "(k, entity_events events k) \<in> set (group_by_entity events)"
      by (simp add: group_by_entity_mem)
    with ys(3) show ?thesis by blast
  qed
  show "core_state_from_events H J JR events = Ok (rr_core_state r)"
    unfolding core_state_from_events_def r(1) by (rule core_events_loop_perm [OF ys(4,1)])
  show "mset (rr_applied_event_hashes r) = mset (hashes events)" using ys(1) by (simp add: r(2) ys(5))
  show "rr_state_root r = compute_state_root_from_canonical_bytes H
      (canonical_state_map_bytes (rr_final_state r)) (of_nat (length events))
      (Max (insert 0 (ev_logical_clock ` set events)))"
    unfolding r(3) ys(5,6) max_clock sz by (simp add: sz(1))
  show "rr_replay_hash r = canonical_replay_hash H (rr_applied_event_hashes r)" by (simp add: r(2,4))
qed

lemma well_formed_dag_perm:
  assumes "mset events = mset events'" shows "well_formed_dag events' = well_formed_dag events"
proof -
  have "mset (hashes events) = mset (hashes events')" using assms by simp
  from mset_eq_imp_distinct_iff [OF this] mset_eq_setD [OF assms] show ?thesis
    by (simp add: well_formed_dag_def linked_events_def parent_edges_def)
qed

lemma groups_perm:
  assumes "mset events = mset events'"
  shows "list_all2 (\<lambda>(k, es) (k', es'). k = k' \<and> mset es = mset es')
    (group_by_entity events) (group_by_entity events')"
proof -
  let ?g = "group_by_entity events" and ?g' = "group_by_entity events'"
  have m: "mset (entity_events events k) = mset (entity_events events' k)" for k
    using assms by (simp add: mset_filter)
  then have "entity_events events k = [] \<longleftrightarrow> entity_events events' k = []" for k
    by (metis mset_zero_iff)
  then have "dom (bt_get ?g) = dom (bt_get ?g')"
    by (auto simp: dom_def group_by_entity_get)
  then have k: "map fst ?g = map fst ?g'"
    using group_by_entity_ordered [of events] group_by_entity_ordered [of events']
    by (intro sorted_distinct_set_unique) (simp_all add: bt_ordered_def strict_sorted_iff dom_bt_get)
  then have l: "length ?g = length ?g'" by (rule map_eq_imp_length_eq)
  show ?thesis
  proof (rule list_all2_all_nthI [OF l])
    fix i assume i: "i < length ?g"
    obtain q es q' es' where e: "?g ! i = (q, es)" "?g' ! i = (q', es')" by fastforce
    have "(q, es) \<in> set ?g" "(q', es') \<in> set ?g'"
      using i l e by (metis nth_mem)+
    moreover have "q = q'" using arg_cong [OF k, of "\<lambda>xs. xs ! i"] i l e by simp
    ultimately show "(case ?g ! i of (k, es) \<Rightarrow> \<lambda>(k', es'). k = k' \<and> mset es = mset es') (?g' ! i)"
      using m e by (auto simp: group_by_entity_mem)
  qed
qed

lemma replay_entities_perm:
  "list_all2 (\<lambda>(k, es) (k', es'). k = k' \<and> mset es = mset es') gs gs' \<Longrightarrow>
     replay_entities H J JR gs s = Ok s' \<Longrightarrow> replay_entities H J JR gs' s = Ok s'"
proof (induction gs gs' arbitrary: s rule: list_all2_induct)
  case (Cons g gs g' gs')
  obtain k es es' where g: "g = (k, es)" "g' = (k, es')" "mset es = mset es'"
    using Cons.hyps(1) by auto
  with Cons.prems obtain xs s1 where "order_entity_events es = Ok xs" "apply_ordered H J JR xs s = Ok s1"
    "replay_entities H J JR gs s1 = Ok s'" by auto
  with order_entity_events_perm [of es xs es'] g Cons.IH show ?case by auto
qed simp

lemma replay_events_perm:
  assumes "mset events = mset events'" "replay_events H J JR events = Ok r"
  shows "replay_events H J JR events' = Ok r"
proof -
  from assms(2) obtain s where v: "validate_dag events = Ok ()" 
    "replay_entities H J JR (group_by_entity events) ([], core_new H J JR, [], 0) = Ok s"
    by (auto simp: replay_events_def)
  have "validate_dag events' = Ok ()"
    using v(1) well_formed_dag_perm [OF assms(1)] by (simp add: validate_dag_iff)
  with replay_entities_perm [OF groups_perm [OF assms(1)] v(2)] v assms(2) show ?thesis
    by (simp add: replay_events_def)
qed

lemma apply_ordered_not_panicked: "apply_ordered H J JR es s \<noteq> Panicked"
proof (induction es arbitrary: s)
  case (Cons e es)
  then show ?case using apply_event_not_panicked
    by (cases s) (auto simp: and_then_Panicked)
qed simp

lemma replay_entities_not_panicked: "replay_entities H J JR gs s \<noteq> Panicked"
proof (induction gs arbitrary: s)
  case (Cons g gs)
  then show ?case using order_entity_events_not_panicked apply_ordered_not_panicked
    by (cases g) (auto simp: and_then_Panicked)
qed simp

lemma replay_events_not_panicked: "replay_events H J JR events \<noteq> Panicked"
  using validate_dag_not_panicked replay_entities_not_panicked
  by (auto simp: replay_events_def and_then_Panicked)

section \<open>Properties\<close>


definition replay_log :: "vector_event list" where
  "replay_log =
     [sample_event\<lparr> ev_event_hash := ''h2'', ev_parent_hashes := [''h1''], ev_operation := Op_Certify,
        ev_vector_before := ev_vector_after sample_event \<rparr>,
      sample_event\<lparr> ev_event_hash := ''h1'' \<rparr>]"

lemma order_pair:
  assumes "ev_event_hash a = ''h1''" "ev_parent_hashes a = []"
    and "ev_event_hash b = ''h2''" "ev_parent_hashes b = [''h1'']"
  shows "order_entity_events [b, a] = Ok [a, b]"
proof -
  have "''h1'' < ''h2''" "\<not> ''h2'' < ''h1''" by code_simp+
  then show ?thesis
    by (simp add: order_entity_events_def assms roots_def sort_nodes_def node_entry_def edge_entry_def bt_update_def
        Let_def)
qed

lemma replay_log_ok: "\<exists>r. replay_events sample_hash sample_json sample_json replay_log = Ok r"
proof -
  have "parent_edges replay_log = {(''h1'', ''h2'')}"
    by (simp add: parent_edges_Cons replay_log_def sample_event_def ev_new_def)
      (simp add: parent_edges_def)
  moreover have "linked_events replay_log"
    by (simp add: linked_events_def replay_log_def sample_event_def ev_new_def)
  ultimately have "validate_dag replay_log = Ok ()"
    by (simp add: validate_dag_iff well_formed_dag_def acyclic_insert wf_acyclic)
  moreover have "group_by_entity replay_log = [(''v-a'', replay_log)]"
    by (simp add: group_by_entity_def replay_log_def sample_event_def ev_new_def bt_update_def)
  moreover have "order_entity_events replay_log = Ok (rev replay_log)"
    unfolding replay_log_def by (simp add: order_pair sample_event_def ev_new_def)
  moreover have "\<exists>s. apply_ordered sample_hash sample_json sample_json (rev replay_log) ([], c, [], 0) = Ok s" for c
    by (simp add: replay_log_def apply_event_def is_region_create_event_def sample_event_def ev_new_def vs_new_def Let_def)
  ultimately show ?thesis by (auto simp: replay_events_def)
qed


text \<open>
  The other fields of a replay result: the registry is the one \<open>core_state_from_events\<close> builds
  from the log as it stands, though the replay reads the events entity by entity; every event is
  applied once; the root commits to the final states, the number of the events and the greatest
  logical clock; the replay hash to the hashes in the order they were applied.
\<close>

theorem replay_result_fields:
  assumes "replay_events H J JR events = Ok r"
  shows "core_state_from_events H J JR events = Ok (rr_core_state r) \<and>
    mset (rr_applied_event_hashes r) = mset (hashes events) \<and>
    rr_state_root r = compute_state_root_from_canonical_bytes H
      (canonical_state_map_bytes (rr_final_state r)) (of_nat (length events))
      (Max (insert 0 (ev_logical_clock ` set events))) \<and>
    rr_replay_hash r = canonical_replay_hash H (rr_applied_event_hashes r)"
  using replay_events_Ok(4-7) [OF assms] by blast

theorem replay_result_fields_witness:
  "\<exists>r. replay_events sample_hash sample_json sample_json replay_log = Ok r \<and>
    core_state_from_events sample_hash sample_json sample_json replay_log = Ok (rr_core_state r) \<and>
    mset (rr_applied_event_hashes r) = {#''h1'', ''h2''#}"
proof -
  obtain r where r: "replay_events sample_hash sample_json sample_json replay_log = Ok r"
    using replay_log_ok by blast
  have "mset (hashes replay_log) = {#''h1'', ''h2''#}" by (simp add: replay_log_def)
  with replay_result_fields [OF r] r show ?thesis by (intro exI [of _ r]) simp
qed

text \<open>
  C40: A replay does not depend on the order of the log: two logs with the same events are replayed
  to the same result, or neither is, and a result verifies against either of them.
\<close>

theorem replay_order_independent:
  assumes "mset events = mset events'"
  shows "(replay_events H J JR events = Ok r \<longleftrightarrow> replay_events H J JR events' = Ok r) \<and>
    (replay_events H J JR events = Ok r \<longrightarrow>
       verify_replay H J JR events' (rr_state_root r) (rr_replay_hash r) = Ok True)"
proof -
  have "replay_events H J JR events = Ok r \<longleftrightarrow> replay_events H J JR events' = Ok r"
    using replay_events_perm assms by metis
  then show ?thesis by (simp add: verify_replay_def)
qed

theorem replay_order_independent_witness:
  "\<exists>r. replay_events sample_hash sample_json sample_json replay_log = Ok r \<and>
    replay_events sample_hash sample_json sample_json (rev replay_log) = Ok r \<and>
    verify_replay sample_hash sample_json sample_json (rev replay_log) (rr_state_root r) (rr_replay_hash r) =
      Ok True"
proof -
  obtain r where "replay_events sample_hash sample_json sample_json replay_log = Ok r"
    using replay_log_ok by blast
  with replay_order_independent [of replay_log "rev replay_log", OF mset_rev [symmetric]]
  show ?thesis by blast
qed

lemma two_roots_refused:
  assumes "d \<in> set events" "e \<in> set events" "ev_entity_id d = ev_entity_id e"
    and "ev_event_hash d \<noteq> ev_event_hash e"
    and "ev_parent_hashes d = []" "ev_parent_hashes e = []"
  shows "\<exists>m. replay_events H J JR events = Err m"
proof (cases "replay_events H J JR events")
  case (Ok r)
  let ?es = "entity_events events (ev_entity_id e)"
  obtain xs where xs: "order_entity_events ?es = Ok xs" using replay_events_Ok(3) [OF Ok] by blast
  have in_es: "d \<in> set ?es" "e \<in> set ?es" using assms(1-3) by simp_all
  then have ne: "?es \<noteq> []" by (metis empty_iff empty_set)
  note p = parents_of_event [OF order_entity_events_pre(1) [OF xs ne]]
  have "ev_event_hash d \<in> {h \<in> set (hashes ?es). inner_parents ?es h = []}"
    "ev_event_hash e \<in> {h \<in> set (hashes ?es). inner_parents ?es h = []}"
    using in_es assms(5,6) p [OF in_es(1)] p [OF in_es(2)] by (auto simp: inner_parents_def)
  moreover obtain q where "{h \<in> set (hashes ?es). inner_parents ?es h = []} = {q}"
    using order_entity_events_root [OF xs ne] by blast
  ultimately have "ev_event_hash d = q" "ev_event_hash e = q" by (metis singletonD)+
  with assms(4) show ?thesis by simp
qed (use replay_events_not_panicked in auto)

text \<open>
  A replay never panics, and it refuses every log in which an entity has two events without a
  parent of the same entity, such as two origins of one vector.
\<close>

theorem replay_refuses_two_roots:
  assumes "d \<in> set events" "e \<in> set events" "ev_entity_id d = ev_entity_id e"
    and "ev_event_hash d \<noteq> ev_event_hash e"
    and "ev_parent_hashes d = []" "ev_parent_hashes e = []"
  shows "\<exists>m. replay_events H J JR events = Err m"
  by (rule two_roots_refused [OF assms])

theorem replay_refuses_two_roots_witness:
  "\<exists>m. replay_events sample_hash sample_json sample_json
     [sample_event\<lparr> ev_event_hash := ''h1'' \<rparr>, sample_event\<lparr> ev_event_hash := ''h2'' \<rparr>] = Err m"
  by (rule replay_refuses_two_roots [of "sample_event\<lparr> ev_event_hash := ''h1'' \<rparr>" _
        "sample_event\<lparr> ev_event_hash := ''h2'' \<rparr>"])
    (simp_all add: sample_event_def ev_new_def)

end
