(* ===== verification/Snapshot.thy ===== *)
theory Snapshot
  imports Replay
begin

text \<open>
  \<^verbatim>\<open>src/src/snapshot.rs\<close>: a snapshot of a replayed state and its verification. The JSON form of a
  snapshot is what \<open>serde_json\<close> makes of it: \<open>SJ\<close> and \<open>DJ\<close> are its writer and its reader, which
  return the text of their error or the value.
\<close>

section \<open>Operations\<close>

record snapshot =
  sn_snapshot_id :: string
  sn_state_root :: state_root
  sn_event_root :: string
  sn_replay_hash :: string
  sn_event_count :: u64
  sn_logical_clock :: u64
  sn_dag_heads :: "string list"
  sn_state_bytes :: bytes
  sn_created_at :: u64

definition create_snapshot :: "(bytes \<Rightarrow> string) \<Rightarrow> replay_result \<Rightarrow> string list \<Rightarrow> u64 \<Rightarrow> snapshot" where
  "create_snapshot H replay_result dag_heads created_at =
     (let state_bytes = btreemap_canonical_bytes vs_canonical_bytes (rr_final_state replay_result);
          snapshot_id = canonical_tagged_hash H ''snapshot-v1'' state_bytes
      in \<lparr> sn_snapshot_id = snapshot_id,
           sn_state_root = rr_state_root replay_result,
           sn_event_root = rr_replay_hash replay_result,
           sn_replay_hash = rr_replay_hash replay_result,
           sn_event_count = sr_event_count (rr_state_root replay_result),
           sn_logical_clock = sr_logical_clock (rr_state_root replay_result),
           sn_dag_heads = dag_heads,
           sn_state_bytes = state_bytes,
           sn_created_at = created_at \<rparr>)"

definition serialize_snapshot :: "(snapshot \<Rightarrow> string + bytes) \<Rightarrow> snapshot \<Rightarrow> bytes text_outcome" where
  "serialize_snapshot SJ snapshot = map_err (\<lambda>e. ''snapshot serialize error: '' @ e) (SJ snapshot)"

definition load_snapshot :: "(bytes \<Rightarrow> string + snapshot) \<Rightarrow> bytes \<Rightarrow> snapshot text_outcome" where
  "load_snapshot DJ bs = map_err (\<lambda>e. ''snapshot parse error: '' @ e) (DJ bs)"

definition verify_snapshot ::
  "(bytes \<Rightarrow> string) \<Rightarrow> snapshot \<Rightarrow> (string, vector_state) btree \<Rightarrow> string \<Rightarrow> bool text_outcome" where
  "verify_snapshot H snapshot current_state current_replay_hash =
     (let expected_state_bytes = btreemap_canonical_bytes vs_canonical_bytes current_state;
          expected_snapshot_id = canonical_tagged_hash H ''snapshot-v1'' expected_state_bytes;
          expected_root_hash = canonical_state_root_hash H (sn_state_root snapshot)
      in Ok (sn_snapshot_id snapshot = expected_snapshot_id \<and>
             sn_state_bytes snapshot = expected_state_bytes \<and>
             sn_replay_hash snapshot = current_replay_hash \<and>
             expected_root_hash \<noteq> []))"

section \<open>Facts\<close>

definition ok_states :: "(string, vector_state) btree \<Rightarrow> bool" where
  "ok_states m \<longleftrightarrow> ok_counted (\<lambda>(k, v). ok_len k \<and> ok_vs v) m"

interpretation vs_map: pair_codec write_str dec_str ok_len vs_canonical_bytes dec_vs ok_vs ..

interpretation vs_map_list: counted_codec "enc_pair write_str vs_canonical_bytes" "dec_pair dec_str dec_vs"
  "\<lambda>(k, v). ok_len k \<and> ok_vs v" ..

lemma state_bytes_counted:
  "btreemap_canonical_bytes vs_canonical_bytes m = write_counted (enc_pair write_str vs_canonical_bytes) m"
  by (simp add: btreemap_canonical_bytes_def write_counted_def write_u64_eq
      state_write_u64_def enc_pair_def case_prod_unfold)

lemma state_bytes_inject:
  "ok_states m \<Longrightarrow> ok_states n \<Longrightarrow>
     btreemap_canonical_bytes vs_canonical_bytes m = btreemap_canonical_bytes vs_canonical_bytes n \<longleftrightarrow> m = n"
  unfolding state_bytes_counted ok_states_def by (rule vs_map_list.counted.enc_inject)

section \<open>Properties\<close>

text \<open>
  C25: A snapshot of a replay verifies against exactly the state and the replay hash it was taken of:
  the bytes it keeps determine the state.
\<close>

theorem snapshot_verifies_exactly:
  assumes "ok_states (rr_final_state r)" "ok_states state" "\<forall>b. H b \<noteq> []"
  shows "verify_snapshot H (create_snapshot H r heads t) state rh = Ok True \<longleftrightarrow>
    state = rr_final_state r \<and> rh = rr_replay_hash r"
  using state_bytes_inject [OF assms(1,2)] assms(3)
  by (auto simp: verify_snapshot_def create_snapshot_def Let_def canonical_state_root_hash_def)

definition sample_result :: replay_result where
  "sample_result =
     \<lparr> rr_final_state = [(''v-a'', vs_zero 2 ''pk'' ''Origin'')],
       rr_core_state = core_new sample_hash sample_json sample_json,
       rr_state_root = \<lparr> sr_root_hash = ''r'', sr_event_count = 1, sr_logical_clock = 1 \<rparr>,
       rr_replay_hash = ''rh'', rr_applied_event_hashes = [''h1''] \<rparr>"

theorem snapshot_verifies_exactly_witness:
  "verify_snapshot sample_hash (create_snapshot sample_hash sample_result [] 5)
     [(''v-a'', vs_zero 2 ''pk'' ''Origin'')] ''rh'' = Ok True \<and>
   verify_snapshot sample_hash (create_snapshot sample_hash sample_result [] 5) [] ''rh'' \<noteq> Ok True"
proof -
  have ok: "ok_states (rr_final_state sample_result)" "ok_states []"
    by (simp_all add: ok_states_def ok_counted_def ok_len_def sample_result_def vs_zero_def ok_vs_def ok_map_def)
  have H: "\<forall>b. sample_hash b \<noteq> []" by (simp add: sample_hash_def)
  from snapshot_verifies_exactly [OF ok(1,1) H] snapshot_verifies_exactly [OF ok H]
  show ?thesis by (simp add: sample_result_def)
qed

text \<open>
  The verification does not look at the state root of a snapshot, nor at its event root, its
  counters, its heads or its time: whatever they are changed to, the verdict is the same.
\<close>

theorem verify_snapshot_ignores_root:
  assumes "\<forall>b. H b \<noteq> []"
  shows "verify_snapshot H (s\<lparr> sn_state_root := root, sn_event_root := er, sn_event_count := n,
      sn_logical_clock := c, sn_dag_heads := heads, sn_created_at := t \<rparr>) state rh =
    verify_snapshot H s state rh"
  using assms by (simp add: verify_snapshot_def Let_def canonical_state_root_hash_def)

theorem verify_snapshot_ignores_root_witness:
  "verify_snapshot sample_hash ((create_snapshot sample_hash sample_result [] 5)\<lparr>
      sn_state_root := \<lparr> sr_root_hash = ''forged'', sr_event_count = 9, sr_logical_clock = 9 \<rparr>,
      sn_event_root := ''forged'', sn_event_count := 9, sn_logical_clock := 9, sn_dag_heads := [''x''],
      sn_created_at := 0 \<rparr>) (rr_final_state sample_result) ''rh'' = Ok True"
proof -
  have H: "\<forall>b. sample_hash b \<noteq> []" by (simp add: sample_hash_def)
  show ?thesis
    unfolding verify_snapshot_ignores_root [OF H]
    by (simp add: verify_snapshot_def create_snapshot_def sample_result_def Let_def
        canonical_state_root_hash_def sample_hash_def)
qed

end
