(* ===== verification/Value_Ops.thy ===== *)
theory Value_Ops
  imports Certification
begin

text \<open>
  The four operations that move value: \<^verbatim>\<open>src/src/drain.rs\<close>, \<^verbatim>\<open>src/src/projection.rs\<close>,
  \<^verbatim>\<open>src/src/reconstruction.rs\<close> and \<open>transfer_components\<close> of \<^verbatim>\<open>src/src/transfer.rs\<close>, on 128-bit
  components with the saturating operations of the code. The accounting theorems read the components
  as natural numbers (\<open>unat\<close>), so they say where saturation loses value and where it cannot.
\<close>

section \<open>Drain\<close>

definition drain_discount :: "u16 \<Rightarrow> u16 \<Rightarrow> u16 \<Rightarrow> u16" where
  "drain_discount basis_points auth_ratio threshold =
     (if threshold \<le> auth_ratio then basis_points div 2 else basis_points)"

definition drain_fee :: "u16 \<Rightarrow> u128 \<Rightarrow> u128" where
  "drain_fee discount amount = saturating_mul amount (ucast discount) div 10000"

fun drain_loop :: "u16 \<Rightarrow> u128 list \<Rightarrow> u128 list \<Rightarrow> u128 list \<Rightarrow> u128 list \<times> u128 list" where
  "drain_loop discount [] drained remaining = (drained, remaining)"
| "drain_loop discount (amount # amounts) drained remaining =
     (let fee = drain_fee discount amount
      in drain_loop discount amounts (drained @ [fee]) (remaining @ [saturating_sub amount fee]))"

definition apply_drain :: "u128 list \<Rightarrow> u16 \<Rightarrow> u16 \<Rightarrow> u16 \<Rightarrow> (u128 list \<times> u128 list) outcome" where
  "apply_drain amounts basis_points auth_ratio threshold =
     (if 10000 < basis_points then Err (Rejected ''drain basis points must be <= 10000'')
      else Ok (drain_loop (drain_discount basis_points auth_ratio threshold) amounts [] []))"

lemma drain_loop_maps:
  "drain_loop d amounts drained remaining =
     (drained @ map (drain_fee d) amounts,
      remaining @ map (\<lambda>a. saturating_sub a (drain_fee d a)) amounts)"
  by (induction amounts arbitrary: drained remaining) (simp_all add: Let_def)

lemma unat_drain_fee:
  "unat (drain_fee d a) = min (unat a * unat d) (2 ^ 128 - 1) div 10000"
  by (simp add: drain_fee_def unat_div_distrib unat_saturating_mul unsigned_ucast_eq
      take_bit_nat_eq_self less_trans [OF unat_bound])

lemma drain_discount_le: "drain_discount b r t \<le> b"
  by (auto simp: drain_discount_def word_le_nat_alt unat_div_distrib)

lemma drain_fee_le:
  assumes "unat d \<le> 10000"
  shows "unat (drain_fee d a) \<le> unat a"
proof -
  have "min (unat a * unat d) (2 ^ 128 - 1) div 10000 \<le> unat a * 10000 div 10000"
    using assms by (intro div_le_mono) (auto intro: min.coboundedI1)
  then show ?thesis by (simp add: unat_drain_fee)
qed

section \<open>Transfer\<close>

definition transfer_components ::
  "vector_state_v1 \<Rightarrow> vector_state_v1 \<Rightarrow> u128 list \<Rightarrow> (vector_state_v1 \<times> vector_state_v1) outcome" where
  "transfer_components from_st to_st amount =
     and_then (ensure_same_shape from_st to_st) (\<lambda>_.
       if length (v1_components from_st) \<noteq> length amount then Err DimensionMismatch
       else if list_ex (\<lambda>(a, b). b < a) (zip amount (v1_components from_st)) then
         Err InsufficientBalance
       else
         let sender = from_st\<lparr>v1_components :=
               map (\<lambda>(c, a). saturating_sub c a) (zip (v1_components from_st) amount)\<rparr>;
             receiver = to_st\<lparr>v1_components :=
               map (\<lambda>(c, a). saturating_add c a) (zip (v1_components to_st) amount)\<rparr>
         in Ok (sender\<lparr>v1_vector_type := VT_Standard\<rparr>, receiver\<lparr>v1_vector_type := VT_Standard\<rparr>))"

section \<open>Projection\<close>

definition project_vector ::
  "bool \<Rightarrow> u64 \<Rightarrow> vector_state_v1 \<Rightarrow> u128 list \<Rightarrow> string \<Rightarrow> vector_state_v1 outcome" where
  "project_vector chk now st projected_components escrow_id =
     (if length projected_components \<noteq> length (v1_components st) then Err DimensionMismatch
      else if list_ex (\<lambda>(p, c). c < p) (zip projected_components (v1_components st)) then
        Err InsufficientBalance
      else
        let remainder = map (\<lambda>(c, p). saturating_sub c p) (zip (v1_components st) projected_components)
        in bump_version chk
             (st\<lparr> v1_components := remainder,
                  v1_status := VS_Projected,
                  v1_vector_type := VT_Projected,
                  v1_projection := Some
                    \<lparr> ps_escrow_id = escrow_id,
                      ps_projected_components = projected_components,
                      ps_settled_components = [],
                      ps_started_at_ms = now,
                      ps_settlement_at_ms = None,
                      ps_outcome_tag = None \<rparr>,
                  v1_updated_at_ms := now \<rparr>))"

section \<open>Reconstruction\<close>

record settlement_outcome =
  so_outcome_tag :: string
  so_gains :: "u128 list"
  so_losses :: "u128 list"

fun settle_loop ::
  "nat \<Rightarrow> ((u128 \<times> u128) \<times> u128) list \<Rightarrow> u128 list \<Rightarrow> u128 list \<Rightarrow> (u128 list \<times> u128 list) outcome" where
  "settle_loop index [] restored settled = Ok (restored, settled)"
| "settle_loop index (((value, gain), loss) # rest) restored settled =
     (let after_gain = saturating_add value gain
      in if after_gain < loss then Err (SettlementRejected ''loss exceeds projected value'')
         else
           let net = after_gain - loss;
               restored' =
                 (if index < length restored
                  then restored[index := saturating_add (restored ! index) net]
                  else restored @ [net])
           in settle_loop (Suc index) rest restored' (settled @ [net]))"

definition reconstruct_vector ::
  "bool \<Rightarrow> u64 \<Rightarrow> vector_state_v1 \<Rightarrow> settlement_outcome \<Rightarrow> vector_state_v1 outcome" where
  "reconstruct_vector chk now st out =
     and_then (ok_or (SettlementRejected ''missing projection'') (v1_projection st)) (\<lambda>projection.
       if length (ps_projected_components projection) \<noteq> length (so_gains out) \<or>
          length (ps_projected_components projection) \<noteq> length (so_losses out)
       then Err DimensionMismatch
       else
         and_then
           (settle_loop 0
             (zip (zip (ps_projected_components projection) (so_gains out)) (so_losses out))
             (v1_components st) [])
           (\<lambda>(restored, settled).
             bump_version chk
               (st\<lparr> v1_components := restored,
                    v1_projection := map_option (\<lambda>p. p
                      \<lparr> ps_settled_components := settled,
                        ps_settlement_at_ms := Some now,
                        ps_outcome_tag := Some (so_outcome_tag out) \<rparr>) (v1_projection st),
                    v1_vector_type := VT_Settlement,
                    v1_status := VS_Settled,
                    v1_updated_at_ms := now \<rparr>)))"

section \<open>Lemmas\<close>

lemma saturating_sub_exact [arith_word]: "b \<le> a \<Longrightarrow> unat (saturating_sub a b) + unat b = unat a"
  by (simp add: unat_saturating_sub word_le_nat_alt)

lemma list_ex_zip_less:
  "length xs = length ys \<Longrightarrow>
     list_ex (\<lambda>(x, y). y < x) (zip xs ys) \<longleftrightarrow> (\<exists>i < length ys. ys ! i < xs ! i)"
  for xs ys :: "'a::linorder list"
  by (induction xs ys rule: list_induct2) (simp_all add: Ex_less_Suc2)

text \<open>The result of the settlement loop where the restored vector has the projection's dimension.\<close>

definition settle_net :: "(u128 \<times> u128) \<times> u128 \<Rightarrow> u128" where
  "settle_net = (\<lambda>((principal, gain), loss). saturating_add principal gain - loss)"

definition settle_fits :: "(u128 \<times> u128) \<times> u128 \<Rightarrow> bool" where
  "settle_fits = (\<lambda>((principal, gain), loss). loss \<le> saturating_add principal gain)"

lemma settle_loop_eq:
  "length cs = length ps \<Longrightarrow>
     settle_loop (length front) ps (front @ cs) settled =
       (if list_all settle_fits ps
        then Ok (front @ map2 saturating_add cs (map settle_net ps), settled @ map settle_net ps)
        else Err (SettlementRejected ''loss exceeds projected value''))"
proof (induction ps arbitrary: front cs settled)
  case (Cons x ps)
  obtain p g l where x: "x = ((p, g), l)" by (metis surj_pair)
  obtain c cs' where cs: "cs = c # cs'" using Cons.prems by (cases cs) auto
  have fits: "settle_fits x \<longleftrightarrow> \<not> saturating_add p g < l"
    and net: "settle_net x = saturating_add p g - l"
    by (auto simp: x settle_fits_def settle_net_def)
  show ?case
  proof (cases "settle_fits x")
    case True
    let ?net = "settle_net x"
    have "settle_loop (length (front @ [saturating_add c ?net])) ps
        ((front @ [saturating_add c ?net]) @ cs') (settled @ [?net]) =
      (if list_all settle_fits ps
       then Ok ((front @ [saturating_add c ?net]) @ map2 saturating_add cs' (map settle_net ps),
                (settled @ [?net]) @ map settle_net ps)
       else Err (SettlementRejected ''loss exceeds projected value''))"
      using Cons.prems by (intro Cons.IH) (simp add: cs)
    then show ?thesis
      using True unfolding fits net by (simp add: x cs Let_def fits [unfolded x] net [unfolded x])
  next
    case False
    then show ?thesis unfolding fits by (simp add: x Let_def fits [unfolded x])
  qed
qed simp

lemma settle_loop_same_dim:
  assumes "length cs = length ps"
  shows "settle_loop 0 ps cs [] =
       (if list_all settle_fits ps
        then Ok (map2 saturating_add cs (map settle_net ps), map settle_net ps)
        else Err (SettlementRejected ''loss exceeds projected value''))"
  using settle_loop_eq [OF assms, of "[]" "[]"] by simp

lemma transfer_components_Ok:
  "transfer_components s r amount = Ok (s', r') \<longleftrightarrow>
     length (v1_components s) = length (v1_components r) \<and>
     length (v1_components s) = length amount \<and>
     (\<forall>i < length amount. amount ! i \<le> v1_components s ! i) \<and>
     s' = s\<lparr>v1_components := map2 saturating_sub (v1_components s) amount,
            v1_vector_type := VT_Standard\<rparr> \<and>
     r' = r\<lparr>v1_components := map2 saturating_add (v1_components r) amount,
            v1_vector_type := VT_Standard\<rparr>"
proof (cases "length (v1_components s) = length (v1_components r) \<and>
    length (v1_components s) = length amount")
  case True
  then have "list_ex (\<lambda>(a, b). b < a) (zip amount (v1_components s)) \<longleftrightarrow>
      \<not> (\<forall>i < length amount. amount ! i \<le> v1_components s ! i)"
    by (subst list_ex_zip_less) (auto simp: not_le)
  with True show ?thesis
    by (auto simp: transfer_components_def ensure_same_shape_def Let_def)
qed (auto simp: transfer_components_def ensure_same_shape_def)

lemma project_vector_Ok:
  "project_vector chk now st projected escrow = Ok st' \<Longrightarrow>
     length projected = length (v1_components st) \<and>
     (\<forall>i < length projected. projected ! i \<le> v1_components st ! i) \<and>
     v1_components st' = map2 saturating_sub (v1_components st) projected \<and>
     v1_projection st' = Some
       \<lparr> ps_escrow_id = escrow, ps_projected_components = projected, ps_settled_components = [],
         ps_started_at_ms = now, ps_settlement_at_ms = None, ps_outcome_tag = None \<rparr> \<and>
     v1_status st' = VS_Projected \<and> v1_vector_type st' = VT_Projected \<and>
     v1_updated_at_ms st' = now \<and> v1_version st' = v1_version st + 1 \<and>
     v1_vector_id st' = v1_vector_id st \<and> v1_owner_pubkey st' = v1_owner_pubkey st \<and>
     v1_space_id st' = v1_space_id st \<and> v1_schema st' = v1_schema st \<and>
     v1_type_metadata st' = v1_type_metadata st \<and> v1_certification st' = v1_certification st \<and>
     v1_created_at_ms st' = v1_created_at_ms st \<and> v1_origin st' = v1_origin st"
  by (auto simp: project_vector_def Let_def list_ex_zip_less dest!: bump_version_Ok
      split: if_splits; meson not_le)

lemma reconstruct_vector_Ok:
  assumes "reconstruct_vector chk now st out = Ok st'"
  obtains p restored settled where
    "v1_projection st = Some p"
    "length (so_gains out) = length (ps_projected_components p)"
    "length (so_losses out) = length (ps_projected_components p)"
    "settle_loop 0 (zip (zip (ps_projected_components p) (so_gains out)) (so_losses out))
       (v1_components st) [] = Ok (restored, settled)"
    "st' = st\<lparr> v1_components := restored,
          v1_projection := Some (p\<lparr> ps_settled_components := settled,
            ps_settlement_at_ms := Some now, ps_outcome_tag := Some (so_outcome_tag out) \<rparr>),
          v1_vector_type := VT_Settlement, v1_status := VS_Settled,
          v1_updated_at_ms := now, v1_version := v1_version st + 1 \<rparr>"
  using assms
  by (auto simp: reconstruct_vector_def split: if_splits prod.splits dest!: bump_version_Ok)

lemma nat_sum_map2_sub:
  "length xs = length ys \<Longrightarrow> (\<forall>i < length ys. ys ! i \<le> xs ! i) \<Longrightarrow>
     nat_sum (map2 saturating_sub xs ys) + nat_sum ys = nat_sum xs"
proof (induction xs ys rule: list_induct2)
  case (Cons x xs y ys)
  from Cons.prems have "y \<le> x" "\<forall>i < length ys. ys ! i \<le> xs ! i" by fastforce+
  then show ?case using Cons.IH saturating_sub_exact [of y x] by simp
qed simp

lemma nat_sum_map2_add_le:
  "length xs = length ys \<Longrightarrow> nat_sum (map2 saturating_add xs ys) \<le> nat_sum xs + nat_sum ys"
  by (induction xs ys rule: list_induct2) (simp_all add: unat_saturating_add)

lemma nat_sum_map2_add:
  "length xs = length ys \<Longrightarrow>
     (\<forall>i < length ys. unat (xs ! i) + unat (ys ! i) < 2 ^ LENGTH('a)) \<Longrightarrow>
     nat_sum (map2 saturating_add xs ys) = nat_sum xs + nat_sum ys"
  for xs ys :: "'a::len word list"
proof (induction xs ys rule: list_induct2)
  case (Cons x xs y ys)
  from Cons.prems have "unat x + unat y < 2 ^ LENGTH('a)"
    "\<forall>i < length ys. unat (xs ! i) + unat (ys ! i) < 2 ^ LENGTH('a)" by fastforce+
  then show ?case using Cons.IH by (simp add: unat_saturating_add)
qed simp

lemma map2_saturating_sub_add:
  fixes ps cs :: "'a::len word list"
  assumes "length ps = length cs" "\<forall>i < length ps. ps ! i \<le> cs ! i"
  shows "map2 saturating_add (map2 saturating_sub cs ps) ps = cs"
  using assms
proof (induction ps cs rule: list_induct2)
  case (Cons p ps c cs)
  from Cons.prems have "p \<le> c" "\<forall>i < length ps. ps ! i \<le> cs ! i" by fastforce+
  moreover have "saturating_add (saturating_sub c p) p = c"
  proof (rule unsigned_word_eqI [where ?'a = nat])
    have "unat c \<le> 2 ^ LENGTH('a) - 1" using unat_bound [of c] by linarith
    then show "unat (saturating_add (saturating_sub c p) p) = unat c"
      using \<open>p \<le> c\<close> saturating_sub_exact [of p c] by (simp add: unat_saturating_add)
  qed
  ultimately show ?case using Cons.IH by simp
qed simp

lemma saturating_add_0 [simp]: "saturating_add a 0 = a" "saturating_add 0 a = a"
  using unat_bound [of a] by (simp_all add: saturating_add_def)

lemma settle_zero:
  "list_all settle_fits (zip (zip ps (replicate (length ps) 0)) (replicate (length ps) 0))"
  "map settle_net (zip (zip ps (replicate (length ps) 0)) (replicate (length ps) 0)) = ps"
  by (induction ps) (simp_all add: settle_fits_def settle_net_def)

definition zero_outcome :: "string \<Rightarrow> nat \<Rightarrow> settlement_outcome" where
  "zero_outcome tag n =
     \<lparr> so_outcome_tag = tag, so_gains = replicate n 0, so_losses = replicate n 0 \<rparr>"

lemma reconstruct_zero:
  assumes "v1_projection st = Some p"
    and "length (ps_projected_components p) = length (v1_components st)"
    and "unat (v1_version st) + 1 < 2 ^ 64"
  shows "reconstruct_vector chk now st (zero_outcome tag (length (v1_components st))) =
    Ok (st\<lparr> v1_components := map2 saturating_add (v1_components st) (ps_projected_components p),
         v1_projection := Some (p\<lparr> ps_settled_components := ps_projected_components p,
            ps_settlement_at_ms := Some now, ps_outcome_tag := Some tag \<rparr>),
         v1_vector_type := VT_Settlement, v1_status := VS_Settled,
         v1_updated_at_ms := now, v1_version := v1_version st + 1 \<rparr>)"
proof -
  have n: "length (v1_components st) = length (ps_projected_components p)" using assms(2) by simp
  show ?thesis
    using assms(1,3)
    by (simp add: reconstruct_vector_def zero_outcome_def n settle_loop_same_dim settle_zero
        bump_version_no_overflow)
qed

section \<open>Properties\<close>

lemma apply_drain_accounts_parts:
  assumes "apply_drain amounts basis_points auth_ratio threshold = Ok (drained, remaining)"
  shows "length drained = length amounts" "length remaining = length amounts"
    and "i < length amounts \<Longrightarrow>
           unat (drained ! i) + unat (remaining ! i) = unat (amounts ! i)"
    and "i < length amounts \<Longrightarrow>
           unat (drained ! i) =
             min (unat (amounts ! i) *
                  (if threshold \<le> auth_ratio then unat basis_points div 2 else unat basis_points))
               (2 ^ 128 - 1) div 10000"
proof -
  let ?d = "drain_discount basis_points auth_ratio threshold"
  have bp: "unat basis_points \<le> 10000"
    and eqs: "drained = map (drain_fee ?d) amounts"
      "remaining = map (\<lambda>a. saturating_sub a (drain_fee ?d a)) amounts"
    using assms by (auto simp: apply_drain_def drain_loop_maps word_le_nat_alt not_less split: if_splits)
  have "unat ?d \<le> 10000"
    using bp drain_discount_le [of basis_points auth_ratio threshold]
    by (simp add: word_le_nat_alt)
  then have le: "drain_fee ?d a \<le> a" for a
    by (simp add: word_le_nat_alt drain_fee_le)
  show "length drained = length amounts" "length remaining = length amounts"
    by (simp_all add: eqs)
  show "unat (drained ! i) + unat (remaining ! i) = unat (amounts ! i)" if "i < length amounts"
    using that saturating_sub_exact [OF le] by (simp add: eqs add.commute)
  show "unat (drained ! i) =
             min (unat (amounts ! i) *
                  (if threshold \<le> auth_ratio then unat basis_points div 2 else unat basis_points))
               (2 ^ 128 - 1) div 10000" if "i < length amounts"
    using that by (simp add: eqs unat_drain_fee drain_discount_def unat_div_distrib)
qed

text \<open>
  Draining accounts for every unit: for each component the fee and what remains add up to the
  amount, and the fee is the effective rate (half the basis points, rounded down, for a certified
  ratio) of the amount over 10000, rounded down, with the product capped at the largest 128-bit value.
\<close>

theorem apply_drain_accounts:
  assumes "apply_drain amounts basis_points auth_ratio threshold = Ok (drained, remaining)"
  shows "length drained = length amounts \<and> length remaining = length amounts \<and>
    (\<forall>i < length amounts.
       unat (drained ! i) + unat (remaining ! i) = unat (amounts ! i) \<and>
       unat (drained ! i) =
         min (unat (amounts ! i) *
              (if threshold \<le> auth_ratio then unat basis_points div 2 else unat basis_points))
           (2 ^ 128 - 1) div 10000)"
  using apply_drain_accounts_parts [OF assms] by blast


theorem apply_drain_accounts_witness:
  "apply_drain [1000, 2000] 100 1000 700 = Ok ([5, 10], [995, 1990]) \<and>
   unat ([5, 10 :: u128] ! 1) + unat ([995, 1990 :: u128] ! 1) = unat ([1000, 2000 :: u128] ! 1)"
proof -
  have *: "apply_drain [1000, 2000] 100 1000 700 = Ok ([5, 10], [995, 1990])"
    by (simp add: apply_drain_def drain_discount_def drain_fee_def saturating_mul_def
        saturating_sub_def)
  show ?thesis using * apply_drain_accounts [OF *] by simp
qed

lemma transfer_components_conserves_parts:
  assumes "transfer_components sender receiver amount = Ok (sender', receiver')"
  shows "nat_sum (v1_components sender') + nat_sum amount = nat_sum (v1_components sender)"
    and "nat_sum (v1_components sender') + nat_sum (v1_components receiver')
           \<le> nat_sum (v1_components sender) + nat_sum (v1_components receiver)"
    and "(\<And>i. i < length amount \<Longrightarrow> unat (v1_components receiver ! i) + unat (amount ! i) < 2 ^ 128) \<Longrightarrow>
           nat_sum (v1_components sender') + nat_sum (v1_components receiver')
             = nat_sum (v1_components sender) + nat_sum (v1_components receiver)"
    and "sender'\<lparr>v1_components := v1_components sender, v1_vector_type := v1_vector_type sender\<rparr> = sender"
    and "receiver'\<lparr>v1_components := v1_components receiver, v1_vector_type := v1_vector_type receiver\<rparr>
           = receiver"
proof -
  note ok = assms [unfolded transfer_components_Ok]
  show s: "nat_sum (v1_components sender') + nat_sum amount = nat_sum (v1_components sender)"
    using ok nat_sum_map2_sub [of "v1_components sender" amount] by simp
  have r: "v1_components receiver' = map2 saturating_add (v1_components receiver) amount"
    "length (v1_components receiver) = length amount" using ok by simp_all
  show "nat_sum (v1_components sender') + nat_sum (v1_components receiver')
           \<le> nat_sum (v1_components sender) + nat_sum (v1_components receiver)"
    using s r nat_sum_map2_add_le [OF r(2)] by simp
  show "nat_sum (v1_components sender') + nat_sum (v1_components receiver')
             = nat_sum (v1_components sender) + nat_sum (v1_components receiver)"
    if "\<And>i. i < length amount \<Longrightarrow> unat (v1_components receiver ! i) + unat (amount ! i) < 2 ^ 128"
    using s r nat_sum_map2_add [OF r(2)] that by simp
qed (use assms in \<open>auto simp: transfer_components_Ok\<close>)

text \<open>
  A transfer between two states moves exactly the amount out of the sender, never creates
  value, and preserves the total when no component of the receiver overflows; identity, ownership,
  space and version of both sides are untouched.
\<close>

theorem transfer_components_conserves:
  assumes "transfer_components sender receiver amount = Ok (sender', receiver')"
  shows "nat_sum (v1_components sender') + nat_sum amount = nat_sum (v1_components sender) \<and>
    nat_sum (v1_components sender') + nat_sum (v1_components receiver')
      \<le> nat_sum (v1_components sender) + nat_sum (v1_components receiver) \<and>
    ((\<forall>i < length amount. unat (v1_components receiver ! i) + unat (amount ! i) < 2 ^ 128) \<longrightarrow>
       nat_sum (v1_components sender') + nat_sum (v1_components receiver')
         = nat_sum (v1_components sender) + nat_sum (v1_components receiver)) \<and>
    sender'\<lparr>v1_components := v1_components sender, v1_vector_type := v1_vector_type sender\<rparr> = sender \<and>
    receiver'\<lparr>v1_components := v1_components receiver, v1_vector_type := v1_vector_type receiver\<rparr>
      = receiver"
  using transfer_components_conserves_parts [OF assms] by blast


definition sample_receiver :: vector_state_v1 where
  "sample_receiver = v1_new ''v-b'' ''pk-b'' ''space-1'' [50, 75] VT_Origin 18"

lemma sample_transfer:
  "transfer_components sample_state sample_receiver [250, 250] =
     Ok (sample_state\<lparr>v1_components := [750, 1750], v1_vector_type := VT_Standard\<rparr>,
         sample_receiver\<lparr>v1_components := [300, 325], v1_vector_type := VT_Standard\<rparr>)"
  by (simp add: transfer_components_def ensure_same_shape_def sample_state_def sample_receiver_def
      v1_new_def saturating_sub_def saturating_add_def Let_def)

theorem transfer_components_conserves_witness:
  "nat_sum [750, 1750 :: u128] + nat_sum [300, 325 :: u128] =
   nat_sum (v1_components sample_state) + nat_sum (v1_components sample_receiver)"
proof -
  have "unat (v1_components sample_receiver ! i) + unat ([250, 250 :: u128] ! i) < 2 ^ 128"
    if "i < length [250, 250 :: u128]" for i
    using that by (auto simp: sample_receiver_def v1_new_def less_Suc_eq)
  with transfer_components_conserves [OF sample_transfer] show ?thesis by simp
qed

text \<open>
  C32: Projecting a slice and reconstructing it with neither gain nor loss gives back the original
  components; it always succeeds below the version limit, and records what was settled.
\<close>

theorem project_reconstruct_roundtrip:
  assumes "project_vector chk t1 st projected escrow = Ok st1"
    and "unat (v1_version st1) + 1 < 2 ^ 64"
  shows "\<exists>st2. reconstruct_vector chk t2 st1 (zero_outcome tag (length projected)) = Ok st2 \<and>
           v1_components st2 = v1_components st \<and>
           map_option ps_settled_components (v1_projection st2) = Some projected \<and>
           v1_status st2 = VS_Settled \<and> v1_version st2 = v1_version st + 2"
proof -
  note p = project_vector_Ok [OF assms(1)]
  have len: "length (v1_components st1) = length projected" using p by simp
  have "map2 saturating_add (v1_components st1) projected = v1_components st"
    using p map2_saturating_sub_add by metis
  then show ?thesis
    using reconstruct_zero [of st1 _ chk t2 tag] p len assms(2) by simp
qed

theorem project_reconstruct_roundtrip_witness:
  "\<exists>st1 st2. project_vector True 20 sample_state [10, 20] ''escrow-1'' = Ok st1 \<and>
     reconstruct_vector True 30 st1 (zero_outcome ''settled'' 2) = Ok st2 \<and>
     v1_components st2 = [1000, 2000]"
proof -
  have "\<exists>st1. project_vector True 20 sample_state [10, 20] ''escrow-1'' = Ok st1 \<and> v1_version st1 = 2"
    by (simp add: project_vector_def bump_version_def sample_state_def v1_new_def Let_def)
  then obtain st1 where st1: "project_vector True 20 sample_state [10, 20] ''escrow-1'' = Ok st1"
    and v: "unat (v1_version st1) + 1 < 2 ^ 64" by auto
  have n: "length [10, 20 :: u128] = 2" and c: "v1_components sample_state = [1000, 2000]"
    by (simp_all add: sample_state_def v1_new_def)
  from project_reconstruct_roundtrip [OF st1 v, of 30 "''settled''", unfolded n c] st1
  show ?thesis by blast
qed

lemma list_all_settle_fits:
  assumes "length gs = length ps" "length ls = length ps"
  shows "list_all settle_fits (zip (zip ps gs) ls) \<longleftrightarrow>
    (\<forall>i < length ps. unat (ls ! i) \<le> min (unat (ps ! i) + unat (gs ! i)) (2 ^ 128 - 1))"
  using assms
  by (simp add: list_all_length settle_fits_def word_le_nat_alt unat_saturating_add)

lemma unat_settle_net:
  "settle_fits ((p, g), l) \<Longrightarrow>
     unat (settle_net ((p, g), l)) = min (unat p + unat g) (2 ^ 128 - 1) - unat l"
  by (simp add: settle_fits_def settle_net_def unat_sub unat_saturating_add)

lemma reconstruct_vector_spec_parts:
  fixes st out p
  defines "n \<equiv> length (ps_projected_components p)"
    and "gain \<equiv> \<lambda>i. min (unat (ps_projected_components p ! i) + unat (so_gains out ! i)) (2 ^ 128 - 1)"
  shows "v1_projection st = None \<Longrightarrow>
           reconstruct_vector chk now st out = Err (SettlementRejected ''missing projection'')"
    and "v1_projection st = Some p \<Longrightarrow> length (so_gains out) \<noteq> n \<or> length (so_losses out) \<noteq> n \<Longrightarrow>
           reconstruct_vector chk now st out = Err DimensionMismatch"
    and "v1_projection st = Some p \<Longrightarrow> length (so_gains out) = n \<Longrightarrow> length (so_losses out) = n \<Longrightarrow>
           length (v1_components st) = n \<Longrightarrow> \<exists>i < n. gain i < unat (so_losses out ! i) \<Longrightarrow>
           reconstruct_vector chk now st out =
             Err (SettlementRejected ''loss exceeds projected value'')"
    and "v1_projection st = Some p \<Longrightarrow> length (so_gains out) = n \<Longrightarrow> length (so_losses out) = n \<Longrightarrow>
           length (v1_components st) = n \<Longrightarrow> \<forall>i < n. unat (so_losses out ! i) \<le> gain i \<Longrightarrow>
           unat (v1_version st) + 1 < 2 ^ 64 \<Longrightarrow>
           \<exists>st'. reconstruct_vector chk now st out = Ok st' \<and> length (v1_components st') = n \<and>
             (\<forall>i < n. unat (v1_components st' ! i) =
                min (unat (v1_components st ! i) + (gain i - unat (so_losses out ! i))) (2 ^ 128 - 1))"
proof -
  let ?ps = "zip (zip (ps_projected_components p) (so_gains out)) (so_losses out)"
  show "reconstruct_vector chk now st out = Err (SettlementRejected ''missing projection'')"
    if "v1_projection st = None" using that by (simp add: reconstruct_vector_def)
  show "reconstruct_vector chk now st out = Err DimensionMismatch"
    if "v1_projection st = Some p" "length (so_gains out) \<noteq> n \<or> length (so_losses out) \<noteq> n"
    using that by (auto simp: reconstruct_vector_def n_def)
  have fits: "list_all settle_fits ?ps \<longleftrightarrow> (\<forall>i < n. unat (so_losses out ! i) \<le> gain i)"
    if "length (so_gains out) = n" "length (so_losses out) = n"
    using that unfolding n_def gain_def by (rule list_all_settle_fits)
  show "reconstruct_vector chk now st out = Err (SettlementRejected ''loss exceeds projected value'')"
    if "v1_projection st = Some p" "length (so_gains out) = n" "length (so_losses out) = n"
      "length (v1_components st) = n" "\<exists>i < n. gain i < unat (so_losses out ! i)"
  proof -
    have "\<not> list_all settle_fits ?ps" using fits that by (auto simp: not_le)
    with that show ?thesis by (simp add: reconstruct_vector_def n_def settle_loop_same_dim)
  qed
  show "\<exists>st'. reconstruct_vector chk now st out = Ok st' \<and> length (v1_components st') = n \<and>
             (\<forall>i < n. unat (v1_components st' ! i) =
                min (unat (v1_components st ! i) + (gain i - unat (so_losses out ! i))) (2 ^ 128 - 1))"
    if "v1_projection st = Some p" "length (so_gains out) = n" "length (so_losses out) = n"
      "length (v1_components st) = n" "\<forall>i < n. unat (so_losses out ! i) \<le> gain i"
      "unat (v1_version st) + 1 < 2 ^ 64"
  proof -
    have all: "list_all settle_fits ?ps" using fits that by simp
    have "unat (settle_net (?ps ! i)) = gain i - unat (so_losses out ! i)" if "i < n" for i
      using all that \<open>length (so_gains out) = n\<close> \<open>length (so_losses out) = n\<close>
      by (simp add: list_all_length n_def gain_def unat_settle_net)
    with that all show ?thesis
      by (simp add: reconstruct_vector_def n_def settle_loop_same_dim bump_version_no_overflow
          unat_saturating_add)
  qed
qed

text \<open>
  Reconstruction succeeds exactly when the state has a projection, gains and losses have its
  dimension and no loss exceeds the projected component plus its gain; each component then grows by
  the net settlement, and every failure is the error the code names for it.
\<close>

theorem reconstruct_vector_spec:
  fixes st out p
  defines "n \<equiv> length (ps_projected_components p)"
    and "gain \<equiv> \<lambda>i. min (unat (ps_projected_components p ! i) + unat (so_gains out ! i)) (2 ^ 128 - 1)"
  shows "(v1_projection st = None \<longrightarrow>
      reconstruct_vector chk now st out = Err (SettlementRejected ''missing projection'')) \<and>
    (v1_projection st = Some p \<and> (length (so_gains out) \<noteq> n \<or> length (so_losses out) \<noteq> n) \<longrightarrow>
      reconstruct_vector chk now st out = Err DimensionMismatch) \<and>
    (v1_projection st = Some p \<and> length (so_gains out) = n \<and> length (so_losses out) = n \<and>
      length (v1_components st) = n \<and> (\<exists>i < n. gain i < unat (so_losses out ! i)) \<longrightarrow>
      reconstruct_vector chk now st out = Err (SettlementRejected ''loss exceeds projected value'')) \<and>
    (v1_projection st = Some p \<and> length (so_gains out) = n \<and> length (so_losses out) = n \<and>
      length (v1_components st) = n \<and> (\<forall>i < n. unat (so_losses out ! i) \<le> gain i) \<and>
      unat (v1_version st) + 1 < 2 ^ 64 \<longrightarrow>
      (\<exists>st'. reconstruct_vector chk now st out = Ok st' \<and> length (v1_components st') = n \<and>
        (\<forall>i < n. unat (v1_components st' ! i) =
           min (unat (v1_components st ! i) + (gain i - unat (so_losses out ! i))) (2 ^ 128 - 1))))"
  using reconstruct_vector_spec_parts(1) [of st chk now out]
    reconstruct_vector_spec_parts(2-4) [where st = st and chk = chk and now = now and out = out and p = p]
  unfolding n_def gain_def by blast


definition sample_projected :: vector_state_v1 where
  "sample_projected = sample_state\<lparr>v1_components := [990, 1980], v1_projection := Some
     \<lparr> ps_escrow_id = ''escrow-1'', ps_projected_components = [10, 20], ps_settled_components = [],
       ps_started_at_ms = 20, ps_settlement_at_ms = None, ps_outcome_tag = None \<rparr>\<rparr>"

theorem reconstruct_vector_spec_witness:
  "\<exists>st'. reconstruct_vector True 30 sample_projected
      \<lparr> so_outcome_tag = ''settled'', so_gains = [2, 1], so_losses = [0, 21] \<rparr> = Ok st' \<and>
    unat (v1_components st' ! 0) = 1002 \<and> unat (v1_components st' ! 1) = 1980"
proof -
  let ?p = "the (v1_projection sample_projected)"
  let ?out = "\<lparr> so_outcome_tag = ''settled'', so_gains = [2, 1], so_losses = [0, 21] \<rparr>"
  note simps = sample_projected_def sample_state_def v1_new_def
  have "\<exists>st'. reconstruct_vector True 30 sample_projected ?out = Ok st' \<and>
      length (v1_components st') = length (ps_projected_components ?p) \<and>
      (\<forall>i < length (ps_projected_components ?p). unat (v1_components st' ! i) =
         min (unat (v1_components sample_projected ! i) +
           (min (unat (ps_projected_components ?p ! i) + unat (so_gains ?out ! i)) (2 ^ 128 - 1)
             - unat (so_losses ?out ! i))) (2 ^ 128 - 1))"
    by (rule reconstruct_vector_spec [where st = sample_projected and out = ?out and p = ?p, THEN conjunct2,
          THEN conjunct2, THEN conjunct2, THEN mp]) (auto simp: simps less_Suc_eq)
  then obtain st' where r: "reconstruct_vector True 30 sample_projected ?out = Ok st'"
    and i: "\<And>i. i < length (ps_projected_components ?p) \<Longrightarrow> unat (v1_components st' ! i) =
         min (unat (v1_components sample_projected ! i) +
           (min (unat (ps_projected_components ?p ! i) + unat (so_gains ?out ! i)) (2 ^ 128 - 1)
             - unat (so_losses ?out ! i))) (2 ^ 128 - 1)" by blast
  have "unat (v1_components st' ! 0) = 1002" "unat (v1_components st' ! 1) = 1980"
    using i [of 0] i [of 1] by (simp_all add: simps)
  with r show ?thesis by blast
qed

text \<open>
  C33: Nothing consumes a projection. A state that is already settled can be reconstructed again
  with no gain and no loss, and each time its components grow by the projected slice once more:
  settling twice creates value.
\<close>

theorem settled_projection_settles_again:
  assumes "project_vector chk t1 st projected escrow = Ok st1"
    and "unat (v1_version st1) + 2 < 2 ^ 64"
    and "nat_sum (v1_components st) + nat_sum projected < 2 ^ 128"
  shows "\<exists>st2 st3. reconstruct_vector chk t2 st1 (zero_outcome tag (length projected)) = Ok st2 \<and>
           v1_status st2 = VS_Settled \<and>
           reconstruct_vector chk t3 st2 (zero_outcome tag (length projected)) = Ok st3 \<and>
           nat_sum (v1_components st3) = nat_sum (v1_components st) + nat_sum projected"
proof -
  note p = project_vector_Ok [OF assms(1)]
  have len: "length (v1_components st1) = length projected" using p by simp
  have restored: "map2 saturating_add (v1_components st1) projected = v1_components st"
    using p map2_saturating_sub_add by metis
  define st2 where "st2 = st1\<lparr> v1_components := v1_components st,
      v1_projection := map_option (\<lambda>p. p\<lparr> ps_settled_components := projected,
         ps_settlement_at_ms := Some t2, ps_outcome_tag := Some tag \<rparr>) (v1_projection st1),
      v1_vector_type := VT_Settlement, v1_status := VS_Settled,
      v1_updated_at_ms := t2, v1_version := v1_version st1 + 1 \<rparr>"
  have r2: "reconstruct_vector chk t2 st1 (zero_outcome tag (length projected)) = Ok st2"
    using reconstruct_zero [of st1 _ chk t2 tag] p len restored assms(2) by (simp add: st2_def)
  have v2: "unat (v1_version st2) + 1 < 2 ^ 64"
    using assms(2) unat_add_no_overflow [of "v1_version st1" 1] by (simp add: st2_def)
  have "\<exists>st3. reconstruct_vector chk t3 st2 (zero_outcome tag (length (v1_components st2))) = Ok st3 \<and>
      v1_components st3 = map2 saturating_add (v1_components st) projected"
    using reconstruct_zero [of st2 _ chk t3 tag, OF _ _ v2] p by (simp add: st2_def)
  moreover have "length (v1_components st2) = length projected" using p by (simp add: st2_def)
  moreover have "nat_sum (map2 saturating_add (v1_components st) projected) =
      nat_sum (v1_components st) + nat_sum projected"
  proof (rule nat_sum_map2_add)
    have le: "unat (xs ! i) \<le> nat_sum xs" if "i < length xs" for xs :: "u128 list" and i
      using that by (auto simp: nat_sum_def intro: member_le_sum_list)
    show "\<forall>i<length projected. unat (v1_components st ! i) + unat (projected ! i) < 2 ^ LENGTH(128)"
    proof (intro allI impI)
      fix i assume "i < length projected"
      with p le [of i "v1_components st"] le [of i projected] assms(3)
      show "unat (v1_components st ! i) + unat (projected ! i) < 2 ^ LENGTH(128)" by simp
    qed
  qed (use p in simp)
  moreover have "v1_status st2 = VS_Settled" by (simp add: st2_def)
  ultimately show ?thesis using r2 by metis
qed

theorem settled_projection_settles_again_witness:
  "\<exists>st1 st2 st3. project_vector True 20 sample_state [10, 20] ''escrow-1'' = Ok st1 \<and>
     reconstruct_vector True 30 st1 (zero_outcome ''t'' 2) = Ok st2 \<and>
     reconstruct_vector True 40 st2 (zero_outcome ''t'' 2) = Ok st3 \<and>
     nat_sum (v1_components st3) = 3030"
proof -
  have "\<exists>st1. project_vector True 20 sample_state [10, 20] ''escrow-1'' = Ok st1 \<and> v1_version st1 = 2"
    by (simp add: project_vector_def bump_version_def sample_state_def v1_new_def Let_def)
  then obtain st1 where st1: "project_vector True 20 sample_state [10, 20] ''escrow-1'' = Ok st1"
    and v: "unat (v1_version st1) + 2 < 2 ^ 64" by auto
  have n: "length [10, 20 :: u128] = 2" and c: "nat_sum (v1_components sample_state) = 3000"
    and p: "nat_sum [10, 20 :: u128] = 30"
    by (simp_all add: sample_state_def v1_new_def)
  have "nat_sum (v1_components sample_state) + nat_sum [10, 20 :: u128] < 2 ^ 128"
    unfolding c p by simp
  from settled_projection_settles_again [OF st1 v this, of 30 "''t''" 40, unfolded n c p] st1
  show ?thesis by auto
qed

end
