(* ===== verification/Audit_Record.thy ===== *)
theory Audit_Record
  imports Value_Ops
begin

text \<open>
  \<^verbatim>\<open>src/src/record.rs\<close>, \<^verbatim>\<open>src/src/consensus.rs\<close> and the records of \<^verbatim>\<open>src/src/transfer.rs\<close>: audit
  records of the operations, their canonical bytes and hash, and the acceptance policy.

  A JSON value is the datatype \<open>json\<close>: a number is its decimal text, an object the entries of a
  \<open>serde_json::Map\<close>, which is a \<open>BTreeMap\<close> in this build. What the sources call of \<open>serde_json\<close>
  on their own types is the parameter \<open>SD\<close>; \<open>H\<close> is \<open>blake3::hash(..).to_hex()\<close>.
\<close>

section \<open>JSON values\<close>

datatype json =
    JNull
  | JBool bool
  | JNumber string
  | JString string
  | JArray "json list"
  | JObject "(string \<times> json) list"

record serde =
  sd_state :: "vector_state_v1 \<Rightarrow> string + bytes"
  sd_certification :: "certification_state \<Rightarrow> string + bytes"
  sd_u128 :: "u128 \<Rightarrow> json option"
  sd_text :: "json \<Rightarrow> string"

text \<open>
  The macro \<open>json!\<close> unwraps the conversion of each of its parts; a \<open>u128\<close> may have no JSON number,
  and the macro then panics.
\<close>

definition json_u128s :: "serde \<Rightarrow> u128 list \<Rightarrow> json outcome" where
  "json_u128s SD xs =
     (let js = map (sd_u128 SD) xs
      in if list_all (\<lambda>j. j \<noteq> None) js then Ok (JArray (map the js)) else Panicked)"

definition json_word :: "'a::len word \<Rightarrow> json" where
  "json_word w = JNumber (show_word w)"

definition json_object :: "(string \<times> json) list \<Rightarrow> json" where
  "json_object entries = JObject (fold (\<lambda>(k, v). bt_insert k v) entries [])"

section \<open>Records\<close>

datatype operation_kind =
    OK_OriginCreate | OK_Transfer | OK_Drain | OK_Project | OK_Reconstruct | OK_Certify | OK_Query
  | OK_Custom string

record vector_record_v1 =
  vr_schema :: string
  vr_record_id :: string
  vr_vector_id :: string
  vr_before :: "vector_state_v1 option"
  vr_after :: vector_state_v1
  vr_operation :: operation_kind
  vr_parameters :: json
  vr_certification :: certification_state
  vr_timestamp_ms :: u64
  vr_proof :: string

fun encode_json :: "json \<Rightarrow> bytes" where
  "encode_json JNull = [0]"
| "encode_json (JBool b) = [1] @ [if b then 1 else 0]"
| "encode_json (JNumber n) = [2] @ write_str n"
| "encode_json (JString s) = [3] @ write_str s"
| "encode_json (JArray items) =
     [4] @ write_u64 (of_nat (length items)) @ concat (map encode_json items)"
| "encode_json (JObject m) =
     (let encoded = map (\<lambda>(k, v). (k, encode_json v)) m;
          keys = sort (map fst encoded)
      in [5] @ write_u64 (of_nat (length keys)) @
         concat (map (\<lambda>key. write_str key @
           (case map_of encoded key of Some v \<Rightarrow> v | None \<Rightarrow> [0])) keys))"

definition canonical_json_bytes :: "json \<Rightarrow> bytes" where
  "canonical_json_bytes value = encode_json value"

fun op_tag :: "operation_kind \<Rightarrow> string" where
  "op_tag OK_OriginCreate = ''ORIGIN_CREATE''"
| "op_tag OK_Transfer = ''TRANSFER''"
| "op_tag OK_Drain = ''DRAIN''"
| "op_tag OK_Project = ''PROJECT''"
| "op_tag OK_Reconstruct = ''RECONSTRUCT''"
| "op_tag OK_Certify = ''CERTIFY''"
| "op_tag OK_Query = ''QUERY''"
| "op_tag (OK_Custom name) = name"

definition unwrap_or_empty :: "'e + 'a list \<Rightarrow> 'a list" where
  "unwrap_or_empty r = (case r of Inr b \<Rightarrow> b | Inl _ \<Rightarrow> [])"

definition canonical_record_bytes :: "serde \<Rightarrow> vector_record_v1 \<Rightarrow> bytes" where
  "canonical_record_bytes SD r =
     write_str (vr_schema r) @
     write_str (vr_record_id r) @
     write_str (vr_vector_id r) @
     [if vr_before r \<noteq> None then 1 else 0] @
     (case vr_before r of
        Some before \<Rightarrow> write_bytes (unwrap_or_empty (sd_state SD before))
      | None \<Rightarrow> []) @
     write_bytes (unwrap_or_empty (sd_state SD (vr_after r))) @
     write_str (op_tag (vr_operation r)) @
     write_bytes (canonical_json_bytes (vr_parameters r)) @
     write_bytes (unwrap_or_empty (sd_certification SD (vr_certification r))) @
     write_u64 (vr_timestamp_ms r)"

definition record_hash :: "(bytes \<Rightarrow> string) \<Rightarrow> serde \<Rightarrow> vector_record_v1 \<Rightarrow> string" where
  "record_hash H SD r = H (canonical_record_bytes SD r)"

definition record_new ::
  "(bytes \<Rightarrow> string) \<Rightarrow> serde \<Rightarrow> u64 \<Rightarrow> string \<Rightarrow> string \<Rightarrow> vector_state_v1 option \<Rightarrow>
     vector_state_v1 \<Rightarrow> operation_kind \<Rightarrow> json \<Rightarrow> vector_record_v1" where
  "record_new H SD now record_id vector_id before after operation parameters =
     (let certification = v1_certification after;
          r = \<lparr> vr_schema = ''v.kernelx/VectorRecordV1'', vr_record_id = record_id,
                vr_vector_id = vector_id, vr_before = before, vr_after = after,
                vr_operation = operation, vr_parameters = parameters,
                vr_certification = certification, vr_timestamp_ms = now, vr_proof = [] \<rparr>
      in r\<lparr> vr_proof := record_hash H SD r \<rparr>)"

definition make_record_id :: "(bytes \<Rightarrow> string) \<Rightarrow> string \<Rightarrow> string \<Rightarrow> string \<Rightarrow> string" where
  "make_record_id H prefix vector_id discriminator =
     H (as_bytes prefix @ as_bytes '':'' @ as_bytes vector_id @ as_bytes '':'' @
        as_bytes discriminator)"

section \<open>The acceptance policy\<close>

record consensus_policy =
  cp_min_auth_ratio :: u16
  cp_require_certified :: bool

definition policy_default :: consensus_policy where
  "policy_default = \<lparr> cp_min_auth_ratio = 700, cp_require_certified = True \<rparr>"

definition accept_record :: "vector_record_v1 \<Rightarrow> consensus_policy \<Rightarrow> bool" where
  "accept_record r policy =
     (if cp_require_certified policy \<and> \<not> cs_certified (vr_certification r) then False
      else cp_min_auth_ratio policy \<le> cs_auth_ratio (vr_certification r))"

section \<open>The records of a transfer\<close>

definition transfer_record ::
  "bool \<Rightarrow> (bytes \<Rightarrow> string) \<Rightarrow> serde \<Rightarrow> u64 \<Rightarrow> u64 \<Rightarrow> u64 \<Rightarrow> u64 \<Rightarrow>
     vector_state_v1 \<Rightarrow> vector_state_v1 \<Rightarrow> vector_state_v1 \<Rightarrow> vector_state_v1 \<Rightarrow> u128 list \<Rightarrow>
     (vector_record_v1 \<times> vector_record_v1) outcome" where
  "transfer_record chk H SD now1 now2 now3 now4 before_from before_to after_from after_to amount =
     and_then (certify_state chk now1 after_from True True) (\<lambda>sender_cert.
     and_then (certify_state chk now2 after_to True True) (\<lambda>receiver_cert.
     and_then (json_u128s SD amount) (\<lambda>amount_json.
       let sender_params = json_object
             [(''direction'', JString ''out''), (''amount'', amount_json),
              (''version'', json_word (v1_version after_from))];
           receiver_params = json_object
             [(''direction'', JString ''in''), (''amount'', amount_json),
              (''version'', json_word (v1_version after_to))];
           sender = record_new H SD now3
             (make_record_id H ''transfer-out'' (v1_vector_id after_from) (sd_text SD sender_params))
             (v1_vector_id after_from) (Some before_from) after_from OK_Transfer sender_params;
           receiver = record_new H SD now4
             (make_record_id H ''transfer-in'' (v1_vector_id after_to) (sd_text SD receiver_params))
             (v1_vector_id after_to) (Some before_to) after_to OK_Transfer receiver_params
       in Ok (sender\<lparr> vr_certification := sender_cert \<rparr>,
              receiver\<lparr> vr_certification := receiver_cert \<rparr>))))"

section \<open>Facts\<close>

text \<open>A JSON value whose lengths fit the counters, with the keys of each object in order.\<close>

fun ok_json :: "json \<Rightarrow> bool" where
  "ok_json (JNumber n) = ok_len n"
| "ok_json (JString s) = ok_len s"
| "ok_json (JArray items) = (ok_len items \<and> list_all ok_json items)"
| "ok_json (JObject m) =
     (ok_len m \<and> bt_ordered m \<and> list_all (\<lambda>(k, v). ok_len k \<and> ok_json v) m)"
| "ok_json _ = True"

lemma encode_object:
  assumes "bt_ordered m"
  shows "encode_json (JObject m) =
    [5] @ write_u64 (of_nat (length m)) @ concat (map (\<lambda>(k, v). write_str k @ encode_json v) m)"
proof -
  have keys: "map fst (map (\<lambda>(k, v). (k, encode_json v)) m) = bt_keys m"
    by (auto simp: comp_def)
  have "sorted (bt_keys m)"
    using assms by (simp add: bt_ordered_def strict_sorted_iff)
  then have s: "sort (bt_keys m) = bt_keys m" by (simp add: sorted_sort_id)
  have "map_of (map (\<lambda>(k, v). (k, encode_json v)) m) k = Some (encode_json v)"
    if "(k, v) \<in> set m" for k v
    using that bt_ordered_distinct [OF assms]
    by (intro map_of_is_SomeI) (force simp: comp_def case_prod_unfold)+
  then have "map (\<lambda>key. write_str key @ (case map_of (map (\<lambda>(k, v). (k, encode_json v)) m) key of
        Some v \<Rightarrow> v | None \<Rightarrow> [0])) (bt_keys m) = map (\<lambda>(k, v). write_str k @ encode_json v) m"
    unfolding map_map [of _ fst] by (intro map_cong) (auto simp del: map_map)
  with keys s show ?thesis by (simp add: Let_def del: map_map)
qed

lemma concat_encode_inject:
  assumes "\<forall>x \<in> set xs. \<forall>y r s. ok y \<longrightarrow> enc x @ r = enc y @ s \<longrightarrow> x = y \<and> r = s"
    and "length xs = length ys" "list_all ok ys" "concat (map enc xs) @ r = concat (map enc ys) @ s"
  shows "xs = ys \<and> r = s"
  using assms(2,1,3,4)
proof (induction xs ys rule: list_induct2)
  case (Cons x xs y ys)
  have "enc x @ concat (map enc xs) @ r = enc y @ concat (map enc ys) @ s" "ok y"
    using Cons.prems(2,3) by simp_all
  with bspec [OF Cons.prems(1), of x]
  have e: "x = y" "concat (map enc xs) @ r = concat (map enc ys) @ s"
    by (meson list.set_intros(1))+
  have "\<forall>x \<in> set xs. \<forall>y r s. ok y \<longrightarrow> enc x @ r = enc y @ s \<longrightarrow> x = y \<and> r = s"
    using Cons.prems(1) by (meson list.set_intros(2))
  from Cons.IH [OF this _ e(2)] Cons.prems(2) e(1) show ?case by simp
qed simp

lemma write_u64_count:
  assumes "ok_len xs" "ok_len ys"
    and "write_u64 (of_nat (length xs)) @ r = write_u64 (of_nat (length ys)) @ s"
  shows "length xs = length ys \<and> r = s"
  using assms by (simp only: u64.enc_prefix_free) (simp add: ok_len_def of_nat_u64_inject)

lemma encode_json_inject:
  "ok_json x \<Longrightarrow> ok_json y \<Longrightarrow> encode_json x @ r = encode_json y @ s \<Longrightarrow> x = y \<and> r = s"
proof (induction x arbitrary: y r s)
  case (JNumber n)
  then show ?case by (cases y) (simp_all add: str.enc_prefix_free encode_object del: encode_json.simps(6))
next
  case (JString n)
  then show ?case by (cases y) (simp_all add: str.enc_prefix_free encode_object del: encode_json.simps(6))
next
  case (JArray xs)
  then obtain ys where y: "y = JArray ys"
    by (cases y) (simp_all add: encode_object del: encode_json.simps(6))
  from JArray.prems(3) have "write_u64 (of_nat (length xs)) @ concat (map encode_json xs) @ r =
      write_u64 (of_nat (length ys)) @ concat (map encode_json ys) @ s"
    unfolding y by simp
  from write_u64_count [OF _ _ this] JArray.prems y
  have e: "length xs = length ys" "concat (map encode_json xs) @ r = concat (map encode_json ys) @ s"
    by simp_all
  have "\<forall>x \<in> set xs. \<forall>y r s. ok_json y \<longrightarrow> encode_json x @ r = encode_json y @ s \<longrightarrow> x = y \<and> r = s"
    using JArray.IH JArray.prems(1) by (auto simp: list_all_iff)
  from concat_encode_inject [OF this e(1) _ e(2)] JArray.prems(2) y show ?case by simp
next
  case (JObject m)
  then obtain n where y: "y = JObject n"
    by (cases y) (simp_all add: encode_object del: encode_json.simps(6))
  let ?enc = "\<lambda>(k, v). write_str k @ encode_json v"
  have ok: "bt_ordered m" "bt_ordered n" "ok_len m" "ok_len n"
    using JObject.prems y by simp_all
  from JObject.prems(3) have "write_u64 (of_nat (length m)) @ concat (map ?enc m) @ r =
      write_u64 (of_nat (length n)) @ concat (map ?enc n) @ s"
    unfolding y encode_object [OF ok(1)] encode_object [OF ok(2)] by simp
  from write_u64_count [OF ok(3,4) this]
  have e: "length m = length n" "concat (map ?enc m) @ r = concat (map ?enc n) @ s"
    by simp_all
  have "p = q \<and> r = s"
    if p: "p \<in> set m" "(\<lambda>(k, v). ok_len k \<and> ok_json v) q" "?enc p @ r = ?enc q @ s" for p q r s
  proof -
    obtain k v l w where kv: "p = (k, v)" "q = (l, w)" by (cases p, cases q)
    with p JObject.prems(1) have o: "ok_len k" "ok_json v" "ok_len l" "ok_json w"
      by (auto simp: list_all_iff)
    have "write_str k @ encode_json v @ r = write_str l @ encode_json w @ s"
      using p(3) kv by simp
    then have "k = l" "encode_json v @ r = encode_json w @ s"
      using o by (simp_all add: str.enc_prefix_free)
    with JObject.IH [of "(k, v)" v w r s] p(1) kv o show ?thesis by simp
  qed
  then have "\<forall>p \<in> set m. \<forall>q r s. (\<lambda>(k, v). ok_len k \<and> ok_json v) q \<longrightarrow> ?enc p @ r = ?enc q @ s \<longrightarrow>
      p = q \<and> r = s" by blast
  from concat_encode_inject [OF this e(1) _ e(2)] JObject.prems(2) y show ?case by simp
next
  case JNull
  then show ?case by (cases y) (simp_all add: encode_object del: encode_json.simps(6))
next
  case (JBool b)
  then show ?case by (cases y) (simp_all add: encode_object del: encode_json.simps(6) split: if_splits)
qed

lemma canonical_json_bytes_prefix:
  "ok_json x \<Longrightarrow> ok_json y \<Longrightarrow>
     canonical_json_bytes x = canonical_json_bytes y \<longleftrightarrow> x = y"
  using encode_json_inject [of x y "[]" "[]"] by (auto simp: canonical_json_bytes_def)

fun option_list :: "'a option \<Rightarrow> 'a list" where
  "option_list None = []"
| "option_list (Some x) = [x]"

text \<open>The texts a record writes: each fits its counter, and the JSON parameters are well formed.\<close>

definition ok_record :: "serde \<Rightarrow> vector_record_v1 \<Rightarrow> bool" where
  "ok_record SD r \<longleftrightarrow>
     ok_len (vr_schema r) \<and> ok_len (vr_record_id r) \<and> ok_len (vr_vector_id r) \<and>
     list_all (\<lambda>s. ok_len (unwrap_or_empty (sd_state SD s))) (vr_after r # option_list (vr_before r)) \<and>
     ok_len (op_tag (vr_operation r)) \<and> ok_json (vr_parameters r) \<and>
     ok_len (canonical_json_bytes (vr_parameters r)) \<and>
     ok_len (unwrap_or_empty (sd_certification SD (vr_certification r)))"

text \<open>\<open>serde_json\<close> writes different values of \<open>xs\<close> differently.\<close>

definition tells_apart :: "('a \<Rightarrow> 'e + bytes) \<Rightarrow> 'a list \<Rightarrow> bool" where
  "tells_apart f xs \<longleftrightarrow> inj_on (\<lambda>x. unwrap_or_empty (f x)) (set xs)"

lemma tells_apartD:
  "tells_apart f xs \<Longrightarrow> x \<in> set xs \<Longrightarrow> y \<in> set xs \<Longrightarrow>
     unwrap_or_empty (f x) = unwrap_or_empty (f y) \<longleftrightarrow> x = y"
  unfolding tells_apart_def by (drule inj_on_eq_iff [where x = x and y = y]) auto

definition record_states :: "vector_record_v1 \<Rightarrow> vector_state_v1 list" where
  "record_states r = vr_after r # option_list (vr_before r)"

text \<open>What the bytes of a record determine: all but its proof, and of the operation its tag.\<close>

definition record_content ::
  "vector_record_v1 \<Rightarrow> string \<times> string \<times> string \<times> vector_state_v1 option \<times> vector_state_v1 \<times>
     string \<times> json \<times> certification_state \<times> u64" where
  "record_content r =
     (vr_schema r, vr_record_id r, vr_vector_id r, vr_before r, vr_after r, op_tag (vr_operation r),
      vr_parameters r, vr_certification r, vr_timestamp_ms r)"

lemma before_bytes_prefix:
  assumes "ok_record SD r" "ok_record SD q"
    and "tells_apart (sd_state SD) (record_states r @ record_states q)"
  shows "[if vr_before r \<noteq> None then (1 :: u8) else 0] @
      (case vr_before r of Some b \<Rightarrow> write_bytes (unwrap_or_empty (sd_state SD b)) | None \<Rightarrow> []) @ t =
      [if vr_before q \<noteq> None then 1 else 0] @
      (case vr_before q of Some b \<Rightarrow> write_bytes (unwrap_or_empty (sd_state SD b)) | None \<Rightarrow> []) @ u \<longleftrightarrow>
      vr_before r = vr_before q \<and> t = u"
  using assms tells_apartD [OF assms(3)]
  by (cases "vr_before r"; cases "vr_before q")
    (auto simp: ok_record_def record_states_def byte_list.enc_prefix_free)

section \<open>Properties\<close>

text \<open>
  C39: The hash of a record binds all of it but the proof, and the operation only by its tag: two
  records have the same canonical bytes exactly when they agree on every other field and their
  operations have the same tag. A custom operation with the name of a built-in tag is therefore
  hashed like the built-in operation.
\<close>

theorem canonical_record_bytes_binding:
  assumes "ok_record SD r" "ok_record SD q"
    and "tells_apart (sd_state SD) (record_states r @ record_states q)"
    and "tells_apart (sd_certification SD) [vr_certification r, vr_certification q]"
  shows "canonical_record_bytes SD r = canonical_record_bytes SD q \<longleftrightarrow>
    record_content r = record_content q"
proof -
  have "vr_after r \<in> set (record_states r @ record_states q)"
    "vr_after q \<in> set (record_states r @ record_states q)" by (simp_all add: record_states_def)
  note states = tells_apartD [OF assms(3) this]
  have certs: "unwrap_or_empty (sd_certification SD (vr_certification r)) =
      unwrap_or_empty (sd_certification SD (vr_certification q)) \<longleftrightarrow>
      vr_certification r = vr_certification q"
    by (rule tells_apartD [OF assms(4)]) simp_all
  have ok: "ok_len (vr_schema x)" "ok_len (vr_record_id x)" "ok_len (vr_vector_id x)"
    "ok_len (unwrap_or_empty (sd_state SD (vr_after x)))" "ok_len (op_tag (vr_operation x))"
    "ok_json (vr_parameters x)" "ok_len (canonical_json_bytes (vr_parameters x))"
    "ok_len (unwrap_or_empty (sd_certification SD (vr_certification x)))"
    if "ok_record SD x" for x
    using that by (simp_all add: ok_record_def)
  note o = ok [OF assms(1)] ok [OF assms(2)]
  show ?thesis
    unfolding canonical_record_bytes_def record_content_def
    using o states certs
    by (simp only: append_assoc before_bytes_prefix [OF assms(1-3), unfolded append_assoc]
        str.enc_prefix_free byte_list.enc_prefix_free u64.enc_inject prod.inject
        canonical_json_bytes_prefix conj_ac)
qed

definition sample_serde :: serde where
  "sample_serde =
     \<lparr> sd_state = \<lambda>s. Inr (as_bytes (v1_vector_id s)), sd_certification = \<lambda>_. Inr [],
       sd_u128 = \<lambda>n. if unat n < 2 ^ 64 then Some (json_word n) else None,
       sd_text = \<lambda>_. ''{}'' \<rparr>"

definition sample_record :: "operation_kind \<Rightarrow> vector_record_v1" where
  "sample_record op =
     record_new from_bytes sample_serde 5 ''r-1'' ''v-a'' None sample_state op
       (json_object [(''direction'', JString ''out''), (''version'', json_word (2 :: u64))])"

theorem canonical_record_bytes_binding_witness:
  "canonical_record_bytes sample_serde (sample_record (OK_Custom ''TRANSFER'')) =
     canonical_record_bytes sample_serde (sample_record OK_Transfer) \<and>
   canonical_record_bytes sample_serde (sample_record (OK_Custom ''TRANSFER'')) \<noteq>
     canonical_record_bytes sample_serde (sample_record OK_Drain)"
proof -
  have two: "show_word (2 :: u64) = ''2''"
    by code_simp
  have ok: "ok_record sample_serde (sample_record op)" if "ok_len (op_tag op)" for op
    using that
    by (simp add: ok_record_def sample_record_def record_new_def Let_def sample_serde_def
        sample_state_def v1_new_def unwrap_or_empty_def json_object_def json_word_def two ok_len_def bt_ordered_def
        canonical_json_bytes_def write_str_def encode_object del: encode_json.simps(6))
  have t: "tells_apart (sd_state sample_serde) (record_states (sample_record a) @ record_states (sample_record b))"
    "tells_apart (sd_certification sample_serde)
       [vr_certification (sample_record a), vr_certification (sample_record b)]" for a b
    by (simp_all add: tells_apart_def record_states_def sample_record_def record_new_def Let_def)
  have c: "record_content (sample_record a) = record_content (sample_record b) \<longleftrightarrow> op_tag a = op_tag b"
    for a b by (simp add: record_content_def sample_record_def record_new_def Let_def)
  have l: "ok_len (op_tag (OK_Custom ''TRANSFER''))" "ok_len (op_tag OK_Transfer)" "ok_len (op_tag OK_Drain)"
    by (simp_all add: ok_len_def)
  show ?thesis
    using canonical_record_bytes_binding [OF ok [OF l(1)] ok [OF l(2)] t]
      canonical_record_bytes_binding [OF ok [OF l(1)] ok [OF l(3)] t] by (simp add: c)
qed

end
