(* ===== verification/Action.thy ===== *)
theory Action
  imports Prelude
begin

text \<open>
  The methods that change the state of an object. A method on \<open>&mut self\<close> that returns a
  \<open>Result\<close> is an \<open>action\<close>: it maps the state before to the state after and the result, also where
  the result is an error or a panic, since the sources leave what was written before the error.
  \<open>act_bind\<close> is the sequencing of the \<open>?\<close> operator.

  A property of all the runs of a method is a relation between the states before and after. The
  locale \<open>step_relation\<close> is the contract of such a relation, reflexive and transitive; it carries
  the relation from the primitive actions to the composed ones.
\<close>

section \<open>Actions\<close>

type_synonym ('s, 'a) action = "'s \<Rightarrow> 's \<times> 'a outcome"

definition act_return :: "'a \<Rightarrow> ('s, 'a) action" where
  "act_return x s = (s, Ok x)"

definition act_try :: "'a outcome \<Rightarrow> ('s, 'a) action" where
  "act_try r s = (s, r)"

definition act_get :: "('s \<Rightarrow> 'a outcome) \<Rightarrow> ('s, 'a) action" where
  "act_get f s = (s, f s)"

definition act_modify :: "('s \<Rightarrow> 's) \<Rightarrow> ('s, unit) action" where
  "act_modify f s = (f s, Ok ())"

text \<open>A write that is refused leaves the state as it is.\<close>

definition act_update :: "('s \<Rightarrow> 's outcome) \<Rightarrow> ('s, unit) action" where
  "act_update f s =
     (case f s of Ok s' \<Rightarrow> (s', Ok ()) | Err e \<Rightarrow> (s, Err e) | Panicked \<Rightarrow> (s, Panicked))"

definition act_bind :: "('s, 'a) action \<Rightarrow> ('a \<Rightarrow> ('s, 'b) action) \<Rightarrow> ('s, 'b) action" where
  "act_bind m f s =
     (case m s of
        (s', Ok x) \<Rightarrow> f x s'
      | (s', Err e) \<Rightarrow> (s', Err e)
      | (s', Panicked) \<Rightarrow> (s', Panicked))"

lemmas act_defs = act_return_def act_try_def act_get_def act_modify_def act_update_def

lemma act_bind_Ok:
  "act_bind m f s = (t, Ok y) \<longleftrightarrow> (\<exists>u x. m s = (u, Ok x) \<and> f x u = (t, Ok y))"
  by (auto simp: act_bind_def split: prod.splits result.splits)

lemma act_bind_step: "m s = (u, Ok x) \<Longrightarrow> act_bind m f s = f x u"
  by (simp add: act_bind_def)

lemma act_bind_pure [simp]:
  "act_bind (act_return x) f s = f x s"
  "act_bind (act_modify h) f s = f () (h s)"
  by (simp_all add: act_bind_def act_defs)

lemma act_bind_try:
  "act_bind (act_try r) f s =
     (case r of Ok x \<Rightarrow> f x s | Err e \<Rightarrow> (s, Err e) | Panicked \<Rightarrow> (s, Panicked))"
  "act_bind (act_get g) f s =
     (case g s of Ok x \<Rightarrow> f x s | Err e \<Rightarrow> (s, Err e) | Panicked \<Rightarrow> (s, Panicked))"
  by (simp_all add: act_bind_def act_defs split: result.split)

section \<open>Relations kept by actions\<close>

definition within :: "('s \<Rightarrow> 's \<Rightarrow> bool) \<Rightarrow> ('s, 'a) action \<Rightarrow> bool" where
  "within R m \<longleftrightarrow> (\<forall>s. R s (fst (m s)))"

lemma withinD: "within R m \<Longrightarrow> m s = (t, r) \<Longrightarrow> R s t"
  by (metis within_def fst_conv)

locale step_relation =
  fixes R :: "'s \<Rightarrow> 's \<Rightarrow> bool"
  assumes rel_refl: "R s s"
    and rel_trans: "R s t \<Longrightarrow> R t u \<Longrightarrow> R s u"
begin

lemma within_return: "within R (act_return x)"
  by (simp add: within_def act_defs rel_refl)

lemma within_try: "within R (act_try r)"
  by (simp add: within_def act_defs rel_refl)

lemma within_get: "within R (act_get f)"
  by (simp add: within_def act_defs rel_refl)

lemma within_modify: "(\<And>s. R s (f s)) \<Longrightarrow> within R (act_modify f)"
  by (simp add: within_def act_defs)

lemma within_update: "(\<And>s t. f s = Ok t \<Longrightarrow> R s t) \<Longrightarrow> within R (act_update f)"
  by (simp add: within_def act_defs rel_refl split: result.split)

text \<open>The second action need only keep the relation for the results the first one can return.\<close>

lemma within_bind_res:
  assumes "within R m" "\<And>s t x. m s = (t, Ok x) \<Longrightarrow> within R (f x)"
  shows "within R (act_bind m f)"
  unfolding within_def
proof
  fix s
  obtain t r where m: "m s = (t, r)" by fastforce
  then have "R s t" by (rule withinD [OF assms(1)])
  then show "R s (fst (act_bind m f s))"
    using m assms(2) [of s t] rel_trans
    by (cases r) (auto simp: act_bind_def within_def)
qed

lemma within_bind: "within R m \<Longrightarrow> (\<And>x. within R (f x)) \<Longrightarrow> within R (act_bind m f)"
  by (rule within_bind_res)

lemma within_if: "(b \<Longrightarrow> within R m) \<Longrightarrow> (\<not> b \<Longrightarrow> within R n) \<Longrightarrow> within R (if b then m else n)"
  by simp

lemma within_let: "(\<And>x. x = a \<Longrightarrow> within R (f x)) \<Longrightarrow> within R (let x = a in f x)"
  by simp

lemma within_prod: "(\<And>x y. p = (x, y) \<Longrightarrow> within R (f x y)) \<Longrightarrow> within R (case p of (x, y) \<Rightarrow> f x y)"
  by (cases p) simp

lemma within_option:
  "(a = None \<Longrightarrow> within R m) \<Longrightarrow> (\<And>x. a = Some x \<Longrightarrow> within R (f x)) \<Longrightarrow>
     within R (case a of None \<Rightarrow> m | Some x \<Rightarrow> f x)"
  by (cases a) simp_all

lemma within_try_bind:
  "(\<And>x. r = Ok x \<Longrightarrow> within R (f x)) \<Longrightarrow> within R (act_bind (act_try r) f)"
  by (rule within_bind_res [OF within_try]) (auto simp: act_defs)

lemmas within_intros = within_return within_try within_get

end

section \<open>Invariants kept by actions\<close>

text \<open>
  \<open>keeps I m Q\<close>: from a state in \<open>I\<close> the action ends in a state in \<open>I\<close>, whatever the result, and a
  value it returns satisfies \<open>Q\<close>.
\<close>

definition keeps :: "('s \<Rightarrow> bool) \<Rightarrow> ('s, 'a) action \<Rightarrow> ('a \<Rightarrow> bool) \<Rightarrow> bool" where
  "keeps I m Q \<longleftrightarrow> (\<forall>s. I s \<longrightarrow> I (fst (m s)) \<and> (\<forall>x. snd (m s) = Ok x \<longrightarrow> Q x))"

lemma keepsD: "keeps I m Q \<Longrightarrow> I s \<Longrightarrow> m s = (t, r) \<Longrightarrow> I t \<and> (\<forall>x. r = Ok x \<longrightarrow> Q x)"
  unfolding keeps_def by (metis fst_conv snd_conv)

lemma keeps_bind:
  assumes "keeps I m Q" "\<And>x. Q x \<Longrightarrow> keeps I (f x) R"
  shows "keeps I (act_bind m f) R"
  unfolding keeps_def
proof (intro allI impI)
  fix s assume "I s"
  obtain t r where m: "m s = (t, r)" by fastforce
  from keepsD [OF assms(1) \<open>I s\<close> m] have i: "I t" "\<And>x. r = Ok x \<Longrightarrow> Q x" by auto
  show "I (fst (act_bind m f s)) \<and> (\<forall>x. snd (act_bind m f s) = Ok x \<longrightarrow> R x)"
  proof (cases r)
    case (Ok x)
    from assms(2) [OF i(2) [OF Ok]] i(1) show ?thesis by (simp add: act_bind_def m Ok keeps_def)
  qed (simp_all add: act_bind_def m i)
qed

lemma keeps_try: "keeps I (act_try r) (\<lambda>x. r = Ok x)"
  by (simp add: keeps_def act_defs)

lemma keeps_get: "(\<And>s x. I s \<Longrightarrow> f s = Ok x \<Longrightarrow> Q x) \<Longrightarrow> keeps I (act_get f) Q"
  by (simp add: keeps_def act_defs)

lemma keeps_return: "keeps I (act_return x) (\<lambda>_. True)"
  by (simp add: keeps_def act_defs)

lemma keeps_modify: "(\<And>s. I s \<Longrightarrow> I (f s)) \<Longrightarrow> keeps I (act_modify f) (\<lambda>_. True)"
  by (simp add: keeps_def act_defs)

lemma keeps_update: "(\<And>s t. I s \<Longrightarrow> f s = Ok t \<Longrightarrow> I t) \<Longrightarrow> keeps I (act_update f) (\<lambda>_. True)"
  by (simp add: keeps_def act_defs split: result.split)

lemma keeps_weaken: "keeps I m Q \<Longrightarrow> (\<And>x. Q x \<Longrightarrow> R x) \<Longrightarrow> keeps I m R"
  by (auto simp: keeps_def)

lemma keeps_if: "(b \<Longrightarrow> keeps I m Q) \<Longrightarrow> (\<not> b \<Longrightarrow> keeps I n Q) \<Longrightarrow> keeps I (if b then m else n) Q"
  by simp

lemma keeps_prod: "(\<And>x y. p = (x, y) \<Longrightarrow> keeps I (f x y) Q) \<Longrightarrow> keeps I (case p of (x, y) \<Rightarrow> f x y) Q"
  by (cases p) simp

end
