(* ===== verification/Storage.thy ===== *)
theory Storage
  imports Snapshot Audit_Record Action
begin

text \<open>
  \<^verbatim>\<open>src/src/storage.rs\<close> and \<^verbatim>\<open>src/src/query.rs\<close>: the store in memory and the reads over it.

  The methods that cannot fail return the value itself; \<open>append_event\<close>, the one that can, returns
  the store after it. Two contracts are stated as locales and interpreted on the store: \<open>keyed_store\<close>,
  what the vectors, the records and the snapshots promise, and \<open>event_log\<close>, what the event log
  promises: events are never changed or dropped, and no two share a hash or an identifier.
\<close>

section \<open>The store\<close>

record memory_store =
  ms_states :: "(string, vector_state_v1) btree"
  ms_records :: "(string, vector_record_v1) btree"
  ms_events :: "(string, vector_event) btree"
  ms_snapshots :: "(string, snapshot) btree"

definition store_default :: memory_store where
  "store_default = \<lparr> ms_states = [], ms_records = [], ms_events = [], ms_snapshots = [] \<rparr>"

definition put_state :: "vector_state_v1 \<Rightarrow> memory_store \<Rightarrow> memory_store" where
  "put_state state s = s\<lparr> ms_states := bt_insert (v1_vector_id state) state (ms_states s) \<rparr>"

definition get_state :: "memory_store \<Rightarrow> string \<Rightarrow> vector_state_v1 option" where
  "get_state s vector_id = bt_get (ms_states s) vector_id"

definition list_states :: "memory_store \<Rightarrow> vector_state_v1 list" where
  "list_states s = bt_values (ms_states s)"

definition put_record :: "vector_record_v1 \<Rightarrow> memory_store \<Rightarrow> memory_store" where
  "put_record r s = s\<lparr> ms_records := bt_insert (vr_record_id r) r (ms_records s) \<rparr>"

definition get_record :: "memory_store \<Rightarrow> string \<Rightarrow> vector_record_v1 option" where
  "get_record s record_id = bt_get (ms_records s) record_id"

definition list_records :: "memory_store \<Rightarrow> vector_record_v1 list" where
  "list_records s = bt_values (ms_records s)"

definition append_event :: "vector_event \<Rightarrow> memory_store \<Rightarrow> memory_store outcome" where
  "append_event event s =
     (if ev_event_id event = []
      then Err (InvalidState ''attempted to append event with empty event_id'')
      else if ev_event_hash event = []
      then Err (InvalidState ''attempted to append event with empty event_hash'')
      else if bt_get (ms_events s) (ev_event_hash event) \<noteq> None
      then Err (InvalidState (''duplicate canonical event_hash detected: '' @ ev_event_hash event))
      else if list_ex (\<lambda>existing. ev_event_id existing = ev_event_id event) (bt_values (ms_events s))
      then Err (InvalidState (''duplicate event_id detected: '' @ ev_event_id event))
      else Ok (s\<lparr> ms_events := bt_insert (ev_event_hash event) event (ms_events s) \<rparr>))"

definition get_event :: "memory_store \<Rightarrow> string \<Rightarrow> vector_event option" where
  "get_event s event_id = find (\<lambda>event. ev_event_id event = event_id) (bt_values (ms_events s))"

definition get_event_by_hash :: "memory_store \<Rightarrow> string \<Rightarrow> vector_event option" where
  "get_event_by_hash s event_hash = bt_get (ms_events s) event_hash"

definition list_events :: "memory_store \<Rightarrow> vector_event list" where
  "list_events s = bt_values (ms_events s)"

definition put_snapshot :: "snapshot \<Rightarrow> memory_store \<Rightarrow> memory_store" where
  "put_snapshot sn s = s\<lparr> ms_snapshots := bt_insert (sn_snapshot_id sn) sn (ms_snapshots s) \<rparr>"

definition get_snapshot :: "memory_store \<Rightarrow> string \<Rightarrow> snapshot option" where
  "get_snapshot s snapshot_id = bt_get (ms_snapshots s) snapshot_id"

definition list_snapshots :: "memory_store \<Rightarrow> snapshot list" where
  "list_snapshots s = bt_values (ms_snapshots s)"

definition canonical_event_sort_key :: "vector_event \<Rightarrow> u64 \<times> u64 \<times> string \<times> string" where
  "canonical_event_sort_key e =
     (ev_logical_clock e, ev_timestamp e, ev_event_hash e, ev_event_id e)"

definition load_events_for_replay :: "memory_store \<Rightarrow> vector_event list" where
  "load_events_for_replay s = sort_key canonical_event_sort_key (bt_values (ms_events s))"

text \<open>\<open>Iterator::max_by\<close> keeps the later of two equal elements.\<close>

definition load_latest_snapshot :: "memory_store \<Rightarrow> snapshot option" where
  "load_latest_snapshot s =
     fold (\<lambda>b best. case best of
         None \<Rightarrow> Some b
       | Some a \<Rightarrow> Some (if sn_snapshot_id b < sn_snapshot_id a then a else b))
       (bt_values (ms_snapshots s)) None"

section \<open>Queries\<close>

definition query_get_vector :: "memory_store \<Rightarrow> string \<Rightarrow> vector_state_v1 option" where
  "query_get_vector store vector_id = get_state store vector_id"

definition query_list_vectors :: "memory_store \<Rightarrow> vector_state_v1 list" where
  "query_list_vectors store = list_states store"

definition query_get_record :: "memory_store \<Rightarrow> string \<Rightarrow> vector_record_v1 option" where
  "query_get_record store record_id = get_record store record_id"

definition query_list_records :: "memory_store \<Rightarrow> vector_record_v1 list" where
  "query_list_records store = list_records store"

definition query_get_event :: "memory_store \<Rightarrow> string \<Rightarrow> vector_event option" where
  "query_get_event store event_id = get_event store event_id"

definition query_get_event_by_hash :: "memory_store \<Rightarrow> string \<Rightarrow> vector_event option" where
  "query_get_event_by_hash store event_hash = get_event_by_hash store event_hash"

definition query_list_events :: "memory_store \<Rightarrow> vector_event list" where
  "query_list_events store = list_events store"

definition query_get_snapshot :: "memory_store \<Rightarrow> string \<Rightarrow> snapshot option" where
  "query_get_snapshot store snapshot_id = get_snapshot store snapshot_id"

definition query_list_snapshots :: "memory_store \<Rightarrow> snapshot list" where
  "query_list_snapshots store = list_snapshots store"

definition query_load_events_for_replay :: "memory_store \<Rightarrow> vector_event list" where
  "query_load_events_for_replay store = load_events_for_replay store"

definition query_load_latest_snapshot :: "memory_store \<Rightarrow> snapshot option" where
  "query_load_latest_snapshot store = load_latest_snapshot store"

section \<open>The contract of a keyed store\<close>

locale keyed_store =
  fixes put :: "'v \<Rightarrow> 's \<Rightarrow> 's" and get :: "'s \<Rightarrow> 'k \<Rightarrow> 'v option" and vals :: "'s \<Rightarrow> 'v list"
    and key :: "'v \<Rightarrow> 'k" and ok :: "'s \<Rightarrow> bool"
  assumes get_put: "get (put v s) k = (if k = key v then Some v else get s k)"
    and ok_put: "ok s \<Longrightarrow> ok (put v s)"
    and get_key: "ok s \<Longrightarrow> get s k = Some v \<Longrightarrow> key v = k"
    and values_get: "ok s \<Longrightarrow> v \<in> set (vals s) \<longleftrightarrow> get s (key v) = Some v"
    and values_distinct: "ok s \<Longrightarrow> distinct (map key (vals s))"
begin

lemma values_put: "ok s \<Longrightarrow> set (vals (put v s)) = insert v {w \<in> set (vals s). key w \<noteq> key v}"
  by (rule set_eqI) (auto simp: values_get ok_put get_put)

lemma ok_puts: "ok s \<Longrightarrow> ok (fold put vs s)"
  by (induction vs arbitrary: s) (simp_all add: ok_put)

text \<open>After a sequence of writes a key holds the last value written under it.\<close>

lemma get_puts:
  "get (fold put vs s) k = (case find (\<lambda>v. key v = k) (rev vs) of None \<Rightarrow> get s k | Some v \<Rightarrow> Some v)"
proof (induction vs rule: rev_induct)
  case (snoc v vs)
  then show ?case by (simp add: get_put)
qed simp

lemma put_commute_get: "key v \<noteq> key w \<Longrightarrow> get (put v (put w s)) k = get (put w (put v s)) k"
  by (simp add: get_put)

lemma values_subset_put:
  "ok s \<Longrightarrow> (\<forall>w \<in> set (vals s). P w) \<Longrightarrow> P v \<Longrightarrow> \<forall>w \<in> set (vals (put v s)). P w"
  by (simp add: values_put)

lemma mset_values_put_fresh:
  assumes "ok s" "get s (key v) = None"
  shows "mset (vals (put v s)) = add_mset v (mset (vals s))"
proof -
  have "set (vals (put v s)) = insert v (set (vals s))"
    using assms by (auto simp: values_put values_get)
  moreover have "v \<notin> set (vals s)" using assms by (simp add: values_get)
  moreover have "distinct (vals (put v s))" "distinct (vals s)"
    using values_distinct [OF assms(1)] values_distinct [OF ok_put [OF assms(1)]]
    by (simp_all add: distinct_map)
  ultimately have "mset (vals (put v s)) = mset (v # vals s)"
    by (intro iffD1 [OF set_eq_iff_mset_eq_distinct]) simp_all
  then show ?thesis by simp
qed

text \<open>The sum of a measure of the values: a write of a known key replaces one summand.\<close>

lemma sum_values:
  fixes f :: "'v \<Rightarrow> nat"
  shows "ok s \<Longrightarrow> sum_list (map f (vals s)) = sum f (set (vals s))"
  using values_distinct by (simp add: sum_list_distinct_conv_sum_set distinct_map)

lemma sum_values_put:
  fixes f :: "'v \<Rightarrow> nat"
  assumes "ok s" "get s (key v) = Some u"
  shows "sum_list (map f (vals (put v s))) + f u = sum_list (map f (vals s)) + f v"
proof -
  let ?A = "{w \<in> set (vals s). key w \<noteq> key v}"
  have u: "key u = key v" using get_key [OF assms] .
  have "w = u" if "w \<in> set (vals s)" "key w = key v" for w
    using that assms by (simp add: values_get)
  moreover have "u \<in> set (vals s)" using assms u by (simp add: values_get)
  ultimately have s: "set (vals s) = insert u ?A" using u by blast
  have "sum f (insert u ?A) = f u + sum f ?A" "sum f (insert v ?A) = f v + sum f ?A"
    using u by (subst sum.insert; simp)+
  then show ?thesis
    unfolding sum_values [OF assms(1)] sum_values [OF ok_put [OF assms(1)]]
    by (simp add: values_put [OF assms(1)] s [symmetric])
qed

end

section \<open>The contract of an event log\<close>

text \<open>A sequence of appends, each of which must succeed.\<close>

fun append_all :: "('e \<Rightarrow> 's \<Rightarrow> 's outcome) \<Rightarrow> 'e list \<Rightarrow> 's \<Rightarrow> 's outcome" where
  "append_all app [] s = Ok s"
| "append_all app (e # es) s = and_then (app e s) (append_all app es)"

locale event_log =
  fixes append :: "'e \<Rightarrow> 's \<Rightarrow> 's outcome" and lookup :: "'s \<Rightarrow> 'h \<Rightarrow> 'e option"
    and events :: "'s \<Rightarrow> 'e list" and hash :: "'e \<Rightarrow> 'h" and ident :: "'e \<Rightarrow> 'i"
    and proper :: "'e \<Rightarrow> bool" and ok :: "'s \<Rightarrow> bool"
  assumes append_iff: "ok s \<Longrightarrow> (\<exists>t. append e s = Ok t) \<longleftrightarrow>
      proper e \<and> hash e \<notin> hash ` set (events s) \<and> ident e \<notin> ident ` set (events s)"
    and append_ok: "ok s \<Longrightarrow> append e s = Ok t \<Longrightarrow> ok t"
    and append_events: "ok s \<Longrightarrow> append e s = Ok t \<Longrightarrow> mset (events t) = add_mset e (mset (events s))"
    and lookup_iff: "ok s \<Longrightarrow> lookup s h = Some e \<longleftrightarrow> e \<in> set (events s) \<and> hash e = h"
begin

lemma lookup_append:
  assumes "ok s" "append e s = Ok t"
  shows "lookup t h = (if h = hash e then Some e else lookup s h)"
proof (rule option_ext)
  fix f
  have "set (events t) = insert e (set (events s))"
    using mset_eq_setD [of "events t" "e # events s"] append_events [OF assms] by simp
  then have "lookup t h = Some f \<longleftrightarrow> (f = e \<or> f \<in> set (events s)) \<and> hash f = h"
    by (simp add: lookup_iff [OF append_ok [OF assms]])
  moreover have "f \<in> set (events s) \<Longrightarrow> hash f \<noteq> hash e"
    using append_iff [OF assms(1), of e] assms(2) by (metis imageI)
  ultimately show "lookup t h = Some f \<longleftrightarrow> (if h = hash e then Some e else lookup s h) = Some f"
    by (auto simp: lookup_iff [OF assms(1)])
qed

lemma append_all_ok: "ok s \<Longrightarrow> append_all append es s = Ok t \<Longrightarrow> ok t"
  by (induction es arbitrary: s) (auto dest: append_ok)

lemma append_all_events:
  "ok s \<Longrightarrow> append_all append es s = Ok t \<Longrightarrow> mset (events t) = mset (events s) + mset es"
proof (induction es arbitrary: s)
  case (Cons e es)
  then obtain u where u: "append e s = Ok u" "append_all append es u = Ok t" by auto
  from Cons.IH [OF append_ok [OF Cons.prems(1) u(1)] u(2)] append_events [OF Cons.prems(1) u(1)]
  show ?case by simp
qed simp

lemma append_all_keeps:
  "ok s \<Longrightarrow> append_all append es s = Ok t \<Longrightarrow> lookup s h = Some e \<Longrightarrow> lookup t h = Some e"
  using append_all_events [of s es t] lookup_iff append_all_ok [of s es t]
  by (metis UnCI set_mset_mset set_mset_union)

text \<open>The log takes a whole sequence exactly when the hashes and identifiers in it are all new.\<close>

lemma append_all_iff:
  "ok s \<Longrightarrow> (\<exists>t. append_all append es s = Ok t) \<longleftrightarrow>
     list_all proper es \<and> distinct (map hash es) \<and> distinct (map ident es) \<and>
     hash ` set es \<inter> hash ` set (events s) = {} \<and> ident ` set es \<inter> ident ` set (events s) = {}"
proof (induction es arbitrary: s)
  case (Cons e es)
  show ?case
  proof (cases "\<exists>t. append e s = Ok t")
    case True
    then obtain t where t: "append e s = Ok t" by blast
    have "set (events t) = insert e (set (events s))"
      using mset_eq_setD [of "events t" "e # events s"] append_events [OF Cons.prems t] by simp
    with Cons.IH [OF append_ok [OF Cons.prems t]] True append_iff [OF Cons.prems] t show ?thesis
      by auto
  next
    case False
    with append_iff [OF Cons.prems] have "\<not> (proper e \<and> hash e \<notin> hash ` set (events s) \<and>
        ident e \<notin> ident ` set (events s))" by blast
    with False show ?thesis by auto
  qed
qed simp

end

section \<open>The store keeps the contracts\<close>

definition keyed :: "('v \<Rightarrow> string) \<Rightarrow> (string, 'v) btree \<Rightarrow> bool" where
  "keyed key m \<longleftrightarrow> bt_ordered m \<and> (\<forall>(k, v) \<in> set m. key v = k)"

lemma keyed_Nil [simp]: "keyed key []"
  by (simp add: keyed_def)

lemma keyed_get: "keyed key m \<Longrightarrow> bt_get m k = Some v \<Longrightarrow> key v = k"
  by (auto simp: keyed_def dest: map_of_SomeD)

lemma keyed_iff: "keyed key m \<longleftrightarrow> bt_ordered m \<and> (\<forall>k v. bt_get m k = Some v \<longrightarrow> key v = k)"
  by (auto simp: keyed_def bt_get_iff_mem)

lemma keyed_insert [simp]: "keyed key m \<Longrightarrow> keyed key (bt_insert (key v) v m)"
  by (simp add: keyed_iff)

lemma keyed_values: "keyed key m \<Longrightarrow> v \<in> snd ` set m \<longleftrightarrow> bt_get m (key v) = Some v"
  using bt_values_mem_iff [of m v] keyed_get [of key m _ v] by (auto simp: keyed_def)

lemma keyed_distinct: "keyed key m \<Longrightarrow> distinct (map (key \<circ> snd) m)"
proof -
  assume k: "keyed key m"
  then have "map (key \<circ> snd) m = bt_keys m" unfolding keyed_def by (intro map_cong) auto
  moreover have "distinct (bt_keys m)" using k by (simp add: keyed_def bt_ordered_distinct)
  ultimately show ?thesis by (simp only:)
qed

definition store_ok :: "memory_store \<Rightarrow> bool" where
  "store_ok s \<longleftrightarrow>
     keyed v1_vector_id (ms_states s) \<and> keyed vr_record_id (ms_records s) \<and>
     keyed sn_snapshot_id (ms_snapshots s) \<and> keyed ev_event_hash (ms_events s) \<and>
     distinct (map ev_event_id (bt_values (ms_events s)))"

lemma store_ok_default: "store_ok store_default"
  by (simp add: store_ok_def store_default_def)

lemmas store_ops = put_state_def get_state_def list_states_def put_record_def get_record_def
  list_records_def put_snapshot_def get_snapshot_def list_snapshots_def get_event_by_hash_def
  list_events_def

interpretation vectors: keyed_store put_state get_state list_states v1_vector_id store_ok
  by unfold_locales
    (auto simp: store_ops store_ok_def keyed_values keyed_distinct dest: keyed_get)

interpretation audit: keyed_store put_record get_record list_records vr_record_id store_ok
  by unfold_locales
    (auto simp: store_ops store_ok_def keyed_values keyed_distinct dest: keyed_get)

interpretation snaps: keyed_store put_snapshot get_snapshot list_snapshots sn_snapshot_id store_ok
  by unfold_locales
    (auto simp: store_ops store_ok_def keyed_values keyed_distinct dest: keyed_get)

lemma append_event_Ok:
  "append_event e s = Ok t \<longleftrightarrow>
     ev_event_id e \<noteq> [] \<and> ev_event_hash e \<noteq> [] \<and> bt_get (ms_events s) (ev_event_hash e) = None \<and>
     (\<forall>f \<in> set (list_events s). ev_event_id f \<noteq> ev_event_id e) \<and>
     t = s\<lparr> ms_events := bt_insert (ev_event_hash e) e (ms_events s) \<rparr>"
  by (auto simp: append_event_def list_ex_iff list_events_def)

lemma store_ok_append:
  assumes "store_ok s" "append_event e s = Ok t"
  shows "store_ok t" "mset (list_events t) = add_mset e (mset (list_events s))"
proof -
  have a: "bt_get (ms_events s) (ev_event_hash e) = None" "\<forall>f \<in> set (list_events s). ev_event_id f \<noteq> ev_event_id e"
    "t = s\<lparr> ms_events := bt_insert (ev_event_hash e) e (ms_events s) \<rparr>"
    using assms(2) by (simp_all add: append_event_Ok)
  show m: "mset (list_events t) = add_mset e (mset (list_events s))"
    using bt_values_insert_fresh [OF a(1)] a(3) by (simp add: list_events_def)
  then have "mset (map ev_event_id (list_events t)) = mset (ev_event_id e # map ev_event_id (list_events s))"
    by simp
  from mset_eq_imp_distinct_iff [OF this] have "distinct (map ev_event_id (list_events t))"
    using a(2) assms(1) by (auto simp: store_ok_def list_events_def image_image)
  with a assms(1) show "store_ok t" by (simp add: store_ok_def list_events_def)
qed

interpretation log: event_log append_event get_event_by_hash list_events ev_event_hash ev_event_id
  "\<lambda>e. ev_event_id e \<noteq> [] \<and> ev_event_hash e \<noteq> []" store_ok
proof
  fix s e t h
  assume ok: "store_ok s"
  then have k: "keyed ev_event_hash (ms_events s)" by (simp add: store_ok_def)
  have look: "bt_get (ms_events s) h = Some e \<longleftrightarrow> e \<in> set (list_events s) \<and> ev_event_hash e = h" for h e
    using keyed_values [OF k] keyed_get [OF k] by (auto simp: list_events_def)
  then show "get_event_by_hash s h = Some e \<longleftrightarrow> e \<in> set (list_events s) \<and> ev_event_hash e = h"
    by (simp add: get_event_by_hash_def)
  have "bt_get (ms_events s) q = None \<longleftrightarrow> q \<notin> ev_event_hash ` set (list_events s)" for q
    using look [of q] by (metis (no_types, lifting) image_iff option.exhaust option.distinct(1))
  then show "(\<exists>t. append_event e s = Ok t) \<longleftrightarrow>
      (ev_event_id e \<noteq> [] \<and> ev_event_hash e \<noteq> []) \<and>
      ev_event_hash e \<notin> ev_event_hash ` set (list_events s) \<and>
      ev_event_id e \<notin> ev_event_id ` set (list_events s)"
    by (auto simp: append_event_Ok) (metis imageI)
  assume "append_event e s = Ok t"
  from store_ok_append [OF ok this] show "store_ok t"
    "mset (list_events t) = add_mset e (mset (list_events s))" by auto
qed

lemma append_event_not_panicked [simp]: "append_event e s \<noteq> Panicked"
  by (simp add: append_event_def)

lemma load_events_mset: "mset (load_events_for_replay s) = mset (list_events s)"
  by (simp add: load_events_for_replay_def list_events_def)

lemma load_events_sorted: "sorted (map canonical_event_sort_key (load_events_for_replay s))"
  by (simp add: load_events_for_replay_def)

lemma latest_loop:
  "fold (\<lambda>b best. case best of None \<Rightarrow> Some b
       | Some a \<Rightarrow> Some (if sn_snapshot_id b < sn_snapshot_id a then a else b)) ss (Some a) = Some m \<Longrightarrow>
     m \<in> insert a (set ss) \<and> (\<forall>x \<in> insert a (set ss). sn_snapshot_id x \<le> sn_snapshot_id m)"
  by (induction ss arbitrary: a) (fastforce split: if_splits)+

lemma append_all_frame:
  "append_all append_event es s = Ok t \<Longrightarrow>
     ms_states t = ms_states s \<and> ms_records t = ms_records s \<and> ms_snapshots t = ms_snapshots s"
  by (induction es arbitrary: s) (auto simp: append_event_Ok)

text \<open>A write to one part of the store leaves the others as they are.\<close>

lemma store_frame [simp]:
  "get_event_by_hash (put_state st s) = get_event_by_hash s" "list_events (put_state st s) = list_events s"
  "get_record (put_state st s) = get_record s" "list_records (put_state st s) = list_records s"
  "get_event_by_hash (put_record r s) = get_event_by_hash s" "list_events (put_record r s) = list_events s"
  "get_state (put_record r s) = get_state s" "list_states (put_record r s) = list_states s"
  "ms_snapshots (put_state st s) = ms_snapshots s" "ms_snapshots (put_record r s) = ms_snapshots s"
  "load_events_for_replay (put_state st s) = load_events_for_replay s"
  "load_events_for_replay (put_record r s) = load_events_for_replay s"
  by (simp_all add: store_ops load_events_for_replay_def fun_eq_iff)

lemma append_event_frame:
  assumes "append_event e s = Ok t"
  shows "get_state t = get_state s" "list_states t = list_states s" "get_record t = get_record s"
    "list_records t = list_records s" "ms_snapshots t = ms_snapshots s"
  using assms by (simp_all add: append_event_Ok store_ops fun_eq_iff)

section \<open>Properties\<close>

text \<open>
  The event log is append-only. A sequence of events is taken exactly when all of them have an
  identifier and a hash, and no identifier and no hash occurs twice in the sequence and the log; then
  the log holds its old events and the new ones, every old event is still found under its hash, and
  nothing else of the store has changed.
\<close>

theorem event_log_append_only:
  assumes "store_ok s"
  shows "((\<exists>t. append_all append_event es s = Ok t) \<longleftrightarrow>
      list_all (\<lambda>e. ev_event_id e \<noteq> [] \<and> ev_event_hash e \<noteq> []) es \<and>
      distinct (map ev_event_hash (es @ list_events s)) \<and> distinct (map ev_event_id (es @ list_events s))) \<and>
    (\<forall>t. append_all append_event es s = Ok t \<longrightarrow>
       store_ok t \<and> mset (list_events t) = mset (list_events s) + mset es \<and>
       (\<forall>h e. get_event_by_hash s h = Some e \<longrightarrow> get_event_by_hash t h = Some e) \<and>
       ms_states t = ms_states s \<and> ms_records t = ms_records s \<and> ms_snapshots t = ms_snapshots s)"
proof -
  have "distinct (map ev_event_hash (list_events s))" "distinct (map ev_event_id (list_events s))"
    using assms keyed_distinct [of ev_event_hash "ms_events s"] by (simp_all add: store_ok_def list_events_def)
  then show ?thesis
    using log.append_all_iff [OF assms, of es] log.append_all_ok [OF assms] log.append_all_events [OF assms]
      log.append_all_keeps [OF assms] append_all_frame by simp blast
qed

definition two_events :: "vector_event list" where
  "two_events = [sample_event\<lparr> ev_event_hash := ''h1'' \<rparr>,
     sample_event\<lparr> ev_event_id := ''id-2'', ev_event_hash := ''h2'' \<rparr>]"

theorem event_log_append_only_witness:
  "\<exists>t. append_all append_event two_events store_default = Ok t \<and> mset (list_events t) = mset two_events \<and>
     (\<nexists>u. append_all append_event two_events t = Ok u)"
proof -
  note log_ok = event_log_append_only [of _ two_events]
  have e: "list_events store_default = []" by (simp add: list_events_def store_default_def)
  have "list_all (\<lambda>e. ev_event_id e \<noteq> [] \<and> ev_event_hash e \<noteq> []) two_events"
    "distinct (map ev_event_hash (two_events @ []))" "distinct (map ev_event_id (two_events @ []))"
    by (simp_all add: two_events_def sample_event_def ev_new_def)
  with log_ok [OF store_ok_default] e obtain t where t: "append_all append_event two_events store_default = Ok t"
    by auto
  with log_ok [OF store_ok_default] e have m: "store_ok t" "mset (list_events t) = mset two_events" by auto
  then have "set (list_events t) = set two_events" by (metis mset_eq_setD)
  then have "\<not> distinct (map ev_event_hash (two_events @ list_events t))" by (simp add: two_events_def)
  with log_ok [OF m(1)] m t show ?thesis by blast
qed

text \<open>
  The reads that feed a replay: the events are loaded in the order of the canonical key, each of
  them once, and the latest snapshot is the one with the greatest identifier, and none only where
  there is none.
\<close>

theorem replay_store_reads:
  "mset (load_events_for_replay s) = mset (list_events s) \<and>
   sorted (map canonical_event_sort_key (load_events_for_replay s)) \<and>
   (case load_latest_snapshot s of
      None \<Rightarrow> list_snapshots s = []
    | Some m \<Rightarrow> m \<in> set (list_snapshots s) \<and>
        Max (sn_snapshot_id ` set (list_snapshots s)) = sn_snapshot_id m)"
proof -
  have "case load_latest_snapshot s of None \<Rightarrow> list_snapshots s = []
    | Some m \<Rightarrow> m \<in> set (list_snapshots s) \<and>
        Max (sn_snapshot_id ` set (list_snapshots s)) = sn_snapshot_id m"
  proof (cases "list_snapshots s")
    case Nil
    then show ?thesis by (simp add: load_latest_snapshot_def list_snapshots_def)
  next
    case (Cons a ss)
    then have l: "load_latest_snapshot s = fold (\<lambda>b best. case best of None \<Rightarrow> Some b
       | Some a \<Rightarrow> Some (if sn_snapshot_id b < sn_snapshot_id a then a else b)) ss (Some a)"
      by (simp add: load_latest_snapshot_def list_snapshots_def)
    obtain m where m: "load_latest_snapshot s = Some m"
      unfolding l by (induction ss arbitrary: a) auto
    from latest_loop [OF m [unfolded l]] have
      "m \<in> set (list_snapshots s)" "\<forall>x \<in> set (list_snapshots s). sn_snapshot_id x \<le> sn_snapshot_id m"
      unfolding Cons by simp_all
    then have "Max (sn_snapshot_id ` set (list_snapshots s)) = sn_snapshot_id m"
      by (intro Max_eqI) auto
    with m \<open>m \<in> set (list_snapshots s)\<close> show ?thesis by simp
  qed
  then show ?thesis using load_events_mset load_events_sorted by blast
qed

end
