(* ===== verification/Validation.thy ===== *)
theory Validation
  imports Region
begin

text \<open>
  \<^verbatim>\<open>src/src/validation.rs\<close>: what an event must satisfy before it enters the log. \<open>H\<close> is
  \<open>blake3::hash(..).to_hex()\<close>, \<open>E\<close> the crate \<open>ed25519_dalek\<close> and \<open>hexd\<close> the decoder of the crate
  \<open>hex\<close>.
\<close>

section \<open>Operations\<close>

definition validate_state :: "vector_state_v1 \<Rightarrow> unit outcome" where
  "validate_state state = and_then (validate_canonical_state state) (\<lambda>_. Ok ())"

definition validate_signature ::
  "(string \<Rightarrow> bytes option) \<Rightarrow> ed25519 \<Rightarrow> string \<Rightarrow> bytes \<Rightarrow> string \<Rightarrow> unit outcome" where
  "validate_signature hexd E public_key_hex message signature_hex =
     verify_signature hexd E public_key_hex message signature_hex"

definition validate_dimension_match :: "vector_state_v1 \<Rightarrow> vector_state_v1 \<Rightarrow> unit outcome" where
  "validate_dimension_match a b = ensure_same_shape a b"

definition validate_event :: "(bytes \<Rightarrow> string) \<Rightarrow> ed25519 \<Rightarrow> vector_event \<Rightarrow> unit outcome" where
  "validate_event H E event =
     (if trim (ev_event_id event) = [] then Err (InvalidState ''event_id is required'')
      else if trim (ev_region_id event) = [] then Err (InvalidState ''region_id is required'')
      else if trim (ev_entity_id event) = [] then Err (InvalidState ''entity_id is required'')
      else if trim (ev_actor_public_key event) = []
        then Err (InvalidState ''actor_public_key is required'')
      else if \<not> f64_is_finite (ev_auth_ratio event) \<or> f64_below_zero (ev_auth_ratio event) \<or>
          f64_above_one (ev_auth_ratio event)
        then Err (InvalidState ''auth_ratio must be in [0, 1]'')
      else if length (vs_components (ev_vector_before event)) \<noteq>
          length (vs_components (ev_vector_after event))
        then Err DimensionMismatch
      else
        let payload_bytes = canonical_event_payload_bytes event;
            payload_hash = canonical_payload_hash H event;
            event_hash = canonical_event_hash H event
        in if ev_payload_hash event \<noteq> payload_hash then Err (InvalidState ''payload_hash mismatch'')
        else if ev_event_hash event \<noteq> event_hash then Err (InvalidState ''event_hash mismatch'')
        else if is_region_create_event event then
          (if trim (ev_signature event) = []
           then Err (InvalidState ''region create event requires a signature'')
           else if ev_parent_hashes event \<noteq> []
           then Err (InvalidState ''region create event must be a root event'')
           else if ev_operation event \<noteq> Op_Other REGION_CREATE_OPERATION_NAME
           then Err (InvalidState ''region create event has invalid operation tag'')
           else Ok ())
        else if ev_signature event \<noteq> [] then
          and_then (map_err InvalidState
            (verifying_key_from_hex E (ev_actor_public_key event))) (\<lambda>verifying_key.
          and_then (map_err InvalidState
            (verify_event_signature E verifying_key payload_bytes (ev_signature event))) (\<lambda>signature_ok.
          if \<not> signature_ok then Err (InvalidState ''event signature verification failed'')
          else Ok ()))
        else Ok ())"

definition validate_event_signature :: "ed25519 \<Rightarrow> string \<Rightarrow> vector_event \<Rightarrow> unit outcome" where
  "validate_event_signature E public_key_hex event =
     and_then (map_err InvalidState (verifying_key_from_hex E public_key_hex)) (\<lambda>verifying_key.
       let payload_bytes = canonical_event_payload_bytes event in
       and_then (map_err InvalidState
         (verify_event_signature E verifying_key payload_bytes (ev_signature event))) (\<lambda>ok.
       if ok then Ok () else Err (InvalidState ''event signature verification failed'')))"

section \<open>Facts\<close>

lemma validate_state_eq: "validate_state s = validate_canonical_state s"
  by (cases "validate_canonical_state s") (simp_all add: validate_state_def)

lemma validate_event_hashes:
  "validate_event H E e = Ok () \<Longrightarrow>
     ev_payload_hash e = canonical_payload_hash H e \<and> ev_event_hash e = canonical_event_hash H e"
  by (auto simp: validate_event_def Let_def split: if_splits)

lemma validate_event_shape:
  "validate_event H E e = Ok () \<Longrightarrow>
     trim (ev_event_id e) \<noteq> [] \<and> trim (ev_entity_id e) \<noteq> [] \<and> trim (ev_region_id e) \<noteq> [] \<and>
     trim (ev_actor_public_key e) \<noteq> [] \<and>
     length (vs_components (ev_vector_before e)) = length (vs_components (ev_vector_after e))"
  by (auto simp: validate_event_def Let_def split: if_splits)

text \<open>The event of an unsigned operation: what the engine builds.\<close>

lemma validate_event_unsigned:
  assumes "ev_signature e = []" "\<not> is_region_create_event e"
    and "ev_payload_hash e = canonical_payload_hash H e" "ev_event_hash e = canonical_event_hash H e"
  shows "validate_event H E e = Ok () \<longleftrightarrow>
    trim (ev_event_id e) \<noteq> [] \<and> trim (ev_region_id e) \<noteq> [] \<and> trim (ev_entity_id e) \<noteq> [] \<and>
    trim (ev_actor_public_key e) \<noteq> [] \<and> f64_is_finite (ev_auth_ratio e) \<and>
    \<not> f64_below_zero (ev_auth_ratio e) \<and> \<not> f64_above_one (ev_auth_ratio e) \<and>
    length (vs_components (ev_vector_before e)) = length (vs_components (ev_vector_after e))"
  using assms by (simp add: validate_event_def Let_def)

lemma signed_event_verified:
  assumes "validate_event H E e = Ok ()" "\<not> is_region_create_event e" "ev_signature e \<noteq> []"
  shows "\<exists>vk. verifying_key_from_hex E (ev_actor_public_key e) = Inr vk \<and>
    verify_event_signature E vk (canonical_event_payload_bytes e) (ev_signature e) = Inr True"
  using assms by (auto simp: validate_event_def Let_def split: if_splits)

lemma payload_bytes_ignore:
  "canonical_event_payload_bytes (e\<lparr>ev_payload_hash := p\<rparr>) = canonical_event_payload_bytes e"
  "canonical_event_payload_bytes (e\<lparr>ev_event_hash := p\<rparr>) = canonical_event_payload_bytes e"
  "canonical_event_payload_bytes (e\<lparr>ev_signature := p\<rparr>) = canonical_event_payload_bytes e"
  by (simp_all add: canonical_event_payload_bytes_def)

section \<open>Properties\<close>

text \<open>
  C36: An event that passed validation is bound by its hash. Where the canonical bytes of the two
  events do not collide under the hash, which is all that is asked of it, two validated events with one
  event hash agree on every field but the signature; and where the first is signed and no region event,
  its signature verifies for the actor and over the payload of the second.
\<close>

theorem validated_event_is_bound:
  assumes "validate_event H E e = Ok ()" "validate_event H E f = Ok ()"
    and "ok_event e" "ok_event f" "ev_event_hash e = ev_event_hash f"
    and "H (canonical_event_bytes e) = H (canonical_event_bytes f) \<Longrightarrow>
      canonical_event_bytes e = canonical_event_bytes f"
  shows "f = e\<lparr> ev_signature := ev_signature f \<rparr> \<and>
    (is_region_create_event e \<or> ev_signature e = [] \<or>
     verify_event_signature E
       (projr (verifying_key_from_hex E (ev_actor_public_key f)))
       (canonical_event_payload_bytes f) (ev_signature e) = Inr True)"
proof -
  have "canonical_event_bytes e = canonical_event_bytes f"
    using assms(5,6) validate_event_hashes [OF assms(1)] validate_event_hashes [OF assms(2)]
    by (simp add: canonical_event_hash_def)
  then have "content_of e = content_of f"
    using event_bytes_iff [OF assms(3,4)] by simp
  then have f: "f = e\<lparr> ev_signature := ev_signature f \<rparr>"
    using assms(5) by (cases e; cases f) (simp add: content_of_def)
  have "canonical_event_payload_bytes f = canonical_event_payload_bytes e"
    using arg_cong [OF f, of canonical_event_payload_bytes] by (simp add: canonical_event_payload_bytes_def)
  moreover have "ev_actor_public_key f = ev_actor_public_key e"
    using arg_cong [OF f, of ev_actor_public_key] by simp
  ultimately show ?thesis
    using f signed_event_verified [OF assms(1)] by fastforce
qed

definition sample_signed_event :: vector_event where
  "sample_signed_event =
     (let e = sample_event\<lparr> ev_actor_public_key := hex_encode (replicate 32 171) \<rparr>;
          e = e\<lparr> ev_payload_hash := canonical_payload_hash from_bytes e \<rparr>;
          e = e\<lparr> ev_event_hash := canonical_event_hash from_bytes e \<rparr>
      in e\<lparr> ev_signature :=
           sign_event sample_ed25519 (replicate 32 171) (canonical_event_payload_bytes e) \<rparr>)"

text \<open>\<open>from_bytes\<close> is a hash without collisions; the event is signed with the toy crate.\<close>

lemma inj_from_bytes: "inj from_bytes"
proof (rule injI)
  fix x y :: bytes
  assume "from_bytes x = from_bytes y"
  moreover have "as_bytes (from_bytes b) = b" for b
    by (induction b) (simp_all add: as_bytes_def from_bytes_def unat_bound [where 'a = 8, simplified])
  ultimately show "x = y" by metis
qed

lemma hex_encode_Nil: "hex_encode bs = [] \<longleftrightarrow> bs = []"
  by (cases bs) simp_all

lemma sample_signed_valid:
  "validate_event from_bytes sample_ed25519 sample_signed_event = Ok ()"
proof -
  let ?e = "sample_signed_event"
  define pk where "pk = hex_encode (replicate 32 171)"
  have fields: "ev_event_id ?e = ''v-a::space-1::ORIGIN_CREATE::1::1''" "ev_region_id ?e = ''space-1''"
    "ev_entity_id ?e = ''v-a''" "ev_actor_public_key ?e = pk"
    "ev_auth_ratio ?e = f64_one" "ev_operation ?e = Op_OriginCreate"
    "ev_vector_before ?e = vs_zero 2 ''pk-a'' ''Origin''"
    "ev_vector_after ?e = vs_new [1000, 2000] ''pk-a'' ''Origin'' []"
    by (simp_all add: sample_signed_event_def sample_event_def ev_new_def Let_def pk_def)
  have hashes: "ev_payload_hash ?e = canonical_payload_hash from_bytes ?e"
    "ev_event_hash ?e = canonical_event_hash from_bytes ?e"
    "ev_signature ?e = sign_event sample_ed25519 (replicate 32 171) (canonical_event_payload_bytes ?e)"
    by (simp_all add: sample_signed_event_def Let_def canonical_payload_hash_def
        canonical_event_hash_def canonical_event_bytes_def payload_bytes_ignore)
  have "pk \<noteq> []" "list_all solid pk"
    using hex_encode_solid [of "replicate 32 171"] length_hex_encode [of "replicate 32 171"] by (auto simp: pk_def)
  then have "trim pk \<noteq> []" by (simp add: trim_all_solid)
  moreover have "trim (CHR ''v'' # s) \<noteq> []" "trim (CHR ''s'' # s) \<noteq> []" for s
    by (rule trim_solid_nonempty, simp add: solid_def)+
  moreover have "verifying_key_from_hex sample_ed25519 pk = Inr (replicate 32 171)"
    by (simp only: pk_def) (simp add: verifying_key_from_hex_def sample_ed25519_def
        del: hex_encode.simps)
  moreover have "verify_event_signature sample_ed25519 (replicate 32 171) m
      (sign_event sample_ed25519 (replicate 32 171) m) = Inr True" for m
    by (simp add: verify_event_signature_def sign_event_def sample_ed25519_def
        del: hex_encode.simps)
  moreover have "\<not> is_region_create_event ?e"
    by (simp add: is_region_create_event_def fields vs_new_def)
  ultimately show ?thesis
    by (simp add: validate_event_def Let_def fields hashes f64_one_in_unit vs_zero_def vs_new_def)
qed

lemma sample_signed_ok: "ok_event sample_signed_event"
proof -
  let ?e = "sample_signed_event"
  have "length (ev_payload_hash ?e) = length (canonical_event_payload_bytes ?e)"
    by (simp add: sample_signed_event_def Let_def canonical_payload_hash_def payload_bytes_ignore
        from_bytes_def)
  moreover have "length (canonical_event_payload_bytes ?e) < 1000"
    by (simp add: canonical_event_payload_bytes_def sample_signed_event_def Let_def sample_event_def
        ev_new_def vs_zero_def vs_new_def vs_canonical_bytes_def write_str_def write_vec_str_def
        write_vec_u64_def write_btreemap_str_str_def write_f64_def write_bool_def write_u8_def
        write_bytes_def length_hex_encode length_to_be_bytes length_concat sum_list_replicate)
  ultimately show ?thesis
    using sample_event_ok
    by (simp add: ok_event_def ok_len_def sample_signed_event_def Let_def length_hex_encode)
qed

theorem validated_event_is_bound_witness:
  "verify_event_signature sample_ed25519
     (projr (verifying_key_from_hex sample_ed25519 (ev_actor_public_key sample_signed_event)))
     (canonical_event_payload_bytes sample_signed_event) (ev_signature sample_signed_event) = Inr True"
proof -
  have "\<not> is_region_create_event sample_signed_event"
    by (simp add: is_region_create_event_def sample_signed_event_def Let_def sample_event_def
        ev_new_def vs_new_def)
  moreover have "ev_signature sample_signed_event \<noteq> []"
    by (simp add: sample_signed_event_def Let_def sign_event_def sample_ed25519_def hex_encode_Nil)
  ultimately show ?thesis
    using validated_event_is_bound [OF sample_signed_valid sample_signed_valid sample_signed_ok
        sample_signed_ok] by simp
qed

text \<open>
  The genesis event of a region passes validation whatever its signature: for any request that
  passes its own checks and any actor that is not blank, the event is accepted, even where the crate
  rejects the signature of every message. Only \<open>create_region\<close> verifies a request signature; an event
  that reaches the log by another path carries one nobody has checked.
\<close>

theorem genesis_event_validates:
  assumes "build_region_genesis_event H J rq pk clk ts seq = Ok e" "trim pk \<noteq> []"
  shows "validate_event H E e = Ok () \<and> ev_signature e = rq_request_signature rq"
proof -
  note f = genesis_event_fields [OF assms(1)]
  obtain p s where id: "ev_region_id e = p @ ''::rgn_'' @ s"
    using f(2) by (auto simp: canonical_region_id_def Let_def)
  have colon: "solid (CHR '':'')" by (simp add: solid_def)
  have "trim (ev_region_id e) \<noteq> []"
    by (rule trim_not_blank [OF _ colon]) (simp add: id)
  moreover have "trim (ev_event_id e) \<noteq> []"
    using assms(1)
    by (intro trim_not_blank [OF _ colon])
      (auto simp: build_region_genesis_event_def Let_def ev_new_def canonical_event_id_def)
  moreover have "trim (rq_request_signature rq) \<noteq> []"
    using f(1) by (auto simp: validate_region_create_request_def split: if_splits)
  moreover have "vs_components (ev_vector_before e) = []" "vs_components (ev_vector_after e) = []"
    "ev_auth_ratio e = f64_one"
    using assms(1)
    by (auto simp: build_region_genesis_event_def Let_def ev_new_def vs_new_def vs_zero_def)
  ultimately show ?thesis
    using assms(2) f
    by (simp add: validate_event_def Let_def f64_one_in_unit is_region_create_event_def)
qed

theorem genesis_event_validates_witness:
  "\<exists>e. build_region_genesis_event sample_hash sample_json sample_request ''pk'' 1 2 3 = Ok e \<and>
    validate_event sample_hash (sample_ed25519\<lparr> ed_verify := \<lambda>_ _ _. False \<rparr>) e = Ok ()"
proof -
  have "trim ''pk'' \<noteq> []" by (rule trim_solid_nonempty) (simp add: solid_def)
  with sample_genesis genesis_event_validates show ?thesis by blast
qed
end
