(* ===== verification/Engine.thy ===== *)
theory Engine
  imports Storage Validation
begin

text \<open>
  \<^verbatim>\<open>src/src/engine.rs\<close>: the kernel, a store in memory and a consensus policy, and its operations.

  An operation on \<open>&mut self\<close> is an action: it returns the kernel as the operation left it, with the
  result. So a failure after the first write, which the code does not undo, is visible in the model.
  The clock is an argument \<open>clk\<close>: \<open>clk i\<close> is what the reading number \<open>i\<close> of the operation returns.
  Everything the sources take from other crates is the argument \<open>X\<close>, and whether the build has the
  debug assertions and overflow checks is \<open>cr_checks X\<close>.
\<close>

section \<open>The kernel\<close>

record crates =
  cr_checks :: bool
  cr_hash :: "bytes \<Rightarrow> string"
  cr_ed :: ed25519
  cr_hex_encode :: "bytes \<Rightarrow> string"
  cr_map_json :: "(string, string) btree \<Rightarrow> string + string"
  cr_region_json :: "region_state \<Rightarrow> string + string"
  cr_serde :: serde

record kernel_engine =
  ke_store :: memory_store
  ke_consensus :: consensus_policy

definition kernel_new :: kernel_engine where
  "kernel_new = \<lparr> ke_store = store_default, ke_consensus = policy_default \<rparr>"

definition with_store :: "memory_store \<Rightarrow> kernel_engine" where
  "with_store store = \<lparr> ke_store = store, ke_consensus = policy_default \<rparr>"

type_synonym 'a kernel_action = "(kernel_engine, 'a) action"

definition on_store :: "(memory_store \<Rightarrow> memory_store) \<Rightarrow> unit kernel_action" where
  "on_store f = act_modify (\<lambda>k. k\<lparr> ke_store := f (ke_store k) \<rparr>)"

section \<open>Events of the operations\<close>

fun op_kind_to_event_kind :: "operation_kind \<Rightarrow> operation_type" where
  "op_kind_to_event_kind OK_OriginCreate = Op_OriginCreate"
| "op_kind_to_event_kind OK_Certify = Op_Certify"
| "op_kind_to_event_kind OK_Transfer = Op_Transfer"
| "op_kind_to_event_kind OK_Drain = Op_Drain"
| "op_kind_to_event_kind OK_Project = Op_Project"
| "op_kind_to_event_kind OK_Reconstruct = Op_Reconstruct"
| "op_kind_to_event_kind OK_Query = Op_Query"
| "op_kind_to_event_kind (OK_Custom name) = Op_Other name"

text \<open>A \<open>debug_assert_eq!\<close>.\<close>

definition assert_record_operation_kind ::
  "crates \<Rightarrow> vector_record_v1 \<Rightarrow> operation_type \<Rightarrow> unit outcome" where
  "assert_record_operation_kind X r expected =
     (if cr_checks X \<and>
         canonical_name (op_kind_to_event_kind (vr_operation r)) \<noteq> canonical_name expected
      then Panicked else Ok ())"

text \<open>The derived \<open>Debug\<close> of \<open>VectorType\<close>.\<close>

fun vector_type_debug :: "vector_type \<Rightarrow> string" where
  "vector_type_debug VT_Standard = ''Standard''"
| "vector_type_debug VT_Origin = ''Origin''"
| "vector_type_debug VT_Projected = ''Projected''"
| "vector_type_debug VT_Escrow = ''Escrow''"
| "vector_type_debug VT_Settlement = ''Settlement''"
| "vector_type_debug VT_Locked = ''Locked''"

fun narrow_components :: "u128 list \<Rightarrow> u64 list \<Rightarrow> u64 list outcome" where
  "narrow_components [] components = Ok components"
| "narrow_components (component # rest) components =
     (if unat component < 2 ^ 64 then narrow_components rest (components @ [ucast component])
      else Err (InvalidState ''component value exceeds u64 canonical event limit''))"

definition vector_v1_to_event_state :: "vector_state_v1 \<Rightarrow> vector_state outcome" where
  "vector_v1_to_event_state state =
     and_then (narrow_components (v1_components state) []) (\<lambda>components.
       let metadata = fold (\<lambda>(k, v). bt_insert k v) (v1_type_metadata state) []
       in Ok (vs_new components (v1_owner_pubkey state) (vector_type_debug (v1_vector_type state)) metadata))"

definition query_events :: "kernel_engine \<Rightarrow> vector_event list" where
  "query_events k = sort_key canonical_event_sort_key (load_events_for_replay (ke_store k))"

definition latest_event :: "kernel_engine \<Rightarrow> vector_event option" where
  "latest_event k = (let events = query_events k in if events = [] then None else Some (last events))"

definition latest_parent_hash_for_entity :: "kernel_engine \<Rightarrow> string \<Rightarrow> string list" where
  "latest_parent_hash_for_entity k entity_id =
     (let events = sort_key canonical_event_sort_key (load_events_for_replay (ke_store k))
      in case find (\<lambda>event. ev_entity_id event = entity_id) (rev events) of
           None \<Rightarrow> []
         | Some event \<Rightarrow> [ev_event_hash event])"

definition next_event_sequence_for_entity :: "kernel_engine \<Rightarrow> string \<Rightarrow> string \<Rightarrow> u64 outcome" where
  "next_event_sequence_for_entity k entity_id region_id =
     (let count = length (filter (\<lambda>event. ev_entity_id event = entity_id \<and> ev_region_id event = region_id)
            (load_events_for_replay (ke_store k)))
      in if count + 1 < 2 ^ 64 then Ok (of_nat (count + 1))
         else Err (InvalidState ''event sequence overflow''))"

definition next_logical_clock :: "kernel_engine \<Rightarrow> u64" where
  "next_logical_clock k =
     (case latest_event k of None \<Rightarrow> 0 | Some event \<Rightarrow> saturating_add (ev_logical_clock event) 1)"

definition build_transition_event ::
  "crates \<Rightarrow> kernel_engine \<Rightarrow> vector_state_v1 option \<Rightarrow> vector_state_v1 \<Rightarrow> operation_type \<Rightarrow> u64 \<Rightarrow> u64 \<Rightarrow>
     string list \<Rightarrow> vector_event outcome" where
  "build_transition_event X k before after operation logical_clock timestamp parent_hashes =
     and_then (case before of
         Some state \<Rightarrow> vector_v1_to_event_state state
       | None \<Rightarrow> Ok (vs_zero (length (v1_components after)) (v1_owner_pubkey after)
           (vector_type_debug (v1_vector_type after)))) (\<lambda>vector_before.
     and_then (vector_v1_to_event_state after) (\<lambda>vector_after.
       let auth_ratio = f64_thousandths (cs_auth_ratio (v1_certification after));
           certified = cs_certified (v1_certification after)
       in and_then (next_event_sequence_for_entity k (v1_vector_id after) (v1_space_id after)) (\<lambda>sequence.
          let event_id = canonical_event_id (v1_vector_id after) (v1_space_id after) operation
                logical_clock sequence;
              event = ev_new event_id parent_hashes (v1_space_id after) (v1_vector_id after) operation
                vector_before vector_after auth_ratio certified (v1_owner_pubkey after)
                logical_clock timestamp;
              event = event\<lparr> ev_payload_hash := canonical_payload_hash (cr_hash X) event \<rparr>;
              event = event\<lparr> ev_event_hash := canonical_event_hash (cr_hash X) event \<rparr>
          in Ok event)))"

fun ensure_parents :: "memory_store \<Rightarrow> string \<Rightarrow> string list \<Rightarrow> unit outcome" where
  "ensure_parents store event_hash [] = Ok ()"
| "ensure_parents store event_hash (parent_hash # ps) =
     (if get_event_by_hash store parent_hash = None
      then Err (InvalidState (''orphan event '' @ event_hash @ '' references missing parent '' @ parent_hash))
      else ensure_parents store event_hash ps)"

definition ensure_parent_closure :: "kernel_engine \<Rightarrow> vector_event \<Rightarrow> unit outcome" where
  "ensure_parent_closure k event = ensure_parents (ke_store k) (ev_event_hash event) (ev_parent_hashes event)"

definition append_canonical_event :: "crates \<Rightarrow> vector_event \<Rightarrow> unit kernel_action" where
  "append_canonical_event X event =
     act_bind (act_try (validate_event (cr_hash X) (cr_ed X) event)) (\<lambda>_.
     act_bind (act_get (\<lambda>k. ensure_parent_closure k event)) (\<lambda>_.
     act_update (\<lambda>k. map_ok (\<lambda>store. k\<lparr> ke_store := store \<rparr>) (append_event event (ke_store k)))))"

section \<open>Reads\<close>

definition query_regions :: "kernel_engine \<Rightarrow> region_state list outcome" where
  "query_regions k = list_regions_from_events (query_events k)"

definition query_region :: "kernel_engine \<Rightarrow> string \<Rightarrow> region_state option outcome" where
  "query_region k region_id = map_ok (find (\<lambda>region. rs_region_id region = region_id)) (query_regions k)"

definition query_region_by_name ::
  "kernel_engine \<Rightarrow> string \<Rightarrow> string option \<Rightarrow> region_state option outcome" where
  "query_region_by_name k region_name region_prefix =
     find_region_by_lookup_key (query_events k) region_name region_prefix"

definition resolve_region_id :: "kernel_engine \<Rightarrow> string \<Rightarrow> string option \<Rightarrow> string option outcome" where
  "resolve_region_id k region_name region_prefix =
     map_ok (map_option rs_region_id) (query_region_by_name k region_name region_prefix)"

definition region_exists :: "kernel_engine \<Rightarrow> string \<Rightarrow> string option \<Rightarrow> bool outcome" where
  "region_exists k region_name region_prefix =
     map_ok (\<lambda>r. r \<noteq> None) (query_region_by_name k region_name region_prefix)"

definition authorize_region :: "crates \<Rightarrow> kernel_engine \<Rightarrow> string \<Rightarrow> string option \<Rightarrow> bool outcome" where
  "authorize_region X k region_id access_key =
     and_then (query_region k region_id) (\<lambda>r.
       case r of
         Some region \<Rightarrow> Ok (authorize_region_access (cr_hash X) region access_key)
       | None \<Rightarrow> Err (InvalidState ''region not found''))"

definition replay_canonical_history :: "crates \<Rightarrow> kernel_engine \<Rightarrow> replay_result outcome" where
  "replay_canonical_history X k =
     map_error InvalidState
       (replay_events (cr_hash X) (cr_map_json X) (cr_region_json X) (load_events_for_replay (ke_store k)))"

definition current_state_root :: "crates \<Rightarrow> kernel_engine \<Rightarrow> state_root" where
  "current_state_root X k =
     (let states = sort_key v1_vector_id (list_states (ke_store k));
          logical_clock = fold (\<lambda>s. max (v1_updated_at_ms s)) states 0
      in compute_state_root (cr_hash X) states logical_clock)"

definition query_vector :: "kernel_engine \<Rightarrow> string \<Rightarrow> vector_state_v1 option" where
  "query_vector k vector_id = query_get_vector (ke_store k) vector_id"

definition query_vectors :: "kernel_engine \<Rightarrow> vector_state_v1 list" where
  "query_vectors k = query_list_vectors (ke_store k)"

definition query_records :: "kernel_engine \<Rightarrow> vector_record_v1 list" where
  "query_records k = query_list_records (ke_store k)"

definition query_event_by_hash :: "kernel_engine \<Rightarrow> string \<Rightarrow> vector_event option" where
  "query_event_by_hash k event_hash = query_get_event_by_hash (ke_store k) event_hash"

text \<open>The derived \<open>Serialize\<close> of \<open>StateRoot\<close>, and the report of the kernel.\<close>

definition state_root_json :: "state_root \<Rightarrow> json" where
  "state_root_json r = json_object
     [(''root_hash'', JString (sr_root_hash r)), (''event_count'', json_word (sr_event_count r)),
      (''logical_clock'', json_word (sr_logical_clock r))]"

definition metrics :: "crates \<Rightarrow> kernel_engine \<Rightarrow> json outcome" where
  "metrics X k =
     (let regions = query_regions k;
          replay = replay_canonical_history X k
      in if regions = Panicked \<or> replay = Panicked then Panicked
         else Ok (json_object
           [(''vector_count'', JNumber (show_nat (length (query_vectors k)))),
            (''record_count'', JNumber (show_nat (length (query_records k)))),
            (''region_count'', JNumber (show_nat (case regions of Ok v \<Rightarrow> length v | _ \<Rightarrow> 0))),
            (''event_count'', JNumber (show_nat (case replay of Ok r \<Rightarrow> length (rr_applied_event_hashes r) | _ \<Rightarrow> 0))),
            (''replay_hash'', JString (case replay of Ok r \<Rightarrow> rr_replay_hash r | _ \<Rightarrow> [])),
            (''state_root'', state_root_json (current_state_root X k)),
            (''healthy'', JBool True)]))"

section \<open>Operations\<close>

definition fetch_state :: "string \<Rightarrow> vector_state_v1 kernel_action" where
  "fetch_state vector_id = act_get (\<lambda>k. ok_or VectorNotFound (get_state (ke_store k) vector_id))"

text \<open>
  The steps every operation ends with: the record, where the policy accepts it, and the event of the
  transition, built on the latest event of the vector and appended to the log.
\<close>

definition keep_record :: "vector_record_v1 \<Rightarrow> unit kernel_action" where
  "keep_record r =
     act_modify (\<lambda>k. if accept_record r (ke_consensus k)
                     then k\<lparr> ke_store := put_record r (ke_store k) \<rparr> else k)"

definition log_transition ::
  "crates \<Rightarrow> vector_state_v1 option \<Rightarrow> vector_state_v1 \<Rightarrow> operation_type \<Rightarrow> u64 \<Rightarrow> u64 \<Rightarrow>
     (kernel_engine \<Rightarrow> string list) \<Rightarrow> unit kernel_action" where
  "log_transition X before after operation logical_clock timestamp parents =
     act_bind (act_get (\<lambda>k.
       build_transition_event X k before after operation logical_clock timestamp (parents k)))
     (append_canonical_event X)"

definition certify :: "crates \<Rightarrow> (nat \<Rightarrow> u64) \<Rightarrow> string \<Rightarrow> vector_state_v1 kernel_action" where
  "certify X clk vector_id =
     act_bind (fetch_state vector_id) (\<lambda>state.
     act_bind (act_try (certify_state (cr_checks X) (clk 0) state True True)) (\<lambda>certification.
     act_bind (act_try (plus_checked (cr_checks X) (v1_version state) 1)) (\<lambda>version.
     let updated = state\<lparr> v1_certification := certification, v1_updated_at_ms := clk 1,
           v1_version := version \<rparr>
     in act_bind (act_try (validate_state updated)) (\<lambda>_.
        act_bind (on_store (put_state updated)) (\<lambda>_.
        let r = record_new (cr_hash X) (cr_serde X) (clk 2)
              (make_record_id (cr_hash X) ''certify'' vector_id
                (''version='' @ show_word (v1_version updated) @ '';auth='' @
                 show_word (cs_auth_ratio (v1_certification updated))))
              vector_id (Some state) updated OK_Certify (JObject [])
        in act_bind (act_try (assert_record_operation_kind X r Op_Certify)) (\<lambda>_.
           act_bind (keep_record r) (\<lambda>_.
           act_bind (log_transition X (Some state) updated Op_Certify (v1_version updated)
             (v1_updated_at_ms updated) (\<lambda>k. latest_parent_hash_for_entity k (v1_vector_id updated))) (\<lambda>_.
           act_return updated))))))))"

definition origin_create ::
  "crates \<Rightarrow> (nat \<Rightarrow> u64) \<Rightarrow> string \<Rightarrow> string \<Rightarrow> string \<Rightarrow> u128 list \<Rightarrow> string \<Rightarrow> u64 \<Rightarrow> u32 \<Rightarrow>
     vector_state_v1 kernel_action" where
  "origin_create X clk vector_id owner_pubkey space_id components seed nonce difficulty =
     act_bind (act_try (create_origin_vector (cr_hash X) (clk 0) vector_id owner_pubkey space_id components
       seed nonce difficulty)) (\<lambda>state.
     act_bind (act_try (validate_state state)) (\<lambda>_.
     act_bind (act_try (certify_state (cr_checks X) (clk 1) state True True)) (\<lambda>certification.
     let state = state\<lparr> v1_certification := certification \<rparr>
     in act_bind (act_try (validate_state state)) (\<lambda>_.
        act_bind (on_store (put_state state)) (\<lambda>_.
        let r = record_new (cr_hash X) (cr_serde X) (clk 2)
              (make_record_id (cr_hash X) ''origin'' (v1_vector_id state)
                (''difficulty='' @ show_word difficulty @ '';version='' @ show_word (v1_version state)))
              (v1_vector_id state) None state OK_OriginCreate
              (json_object [(''difficulty'', json_word difficulty)])
        in act_bind (act_try (assert_record_operation_kind X r Op_OriginCreate)) (\<lambda>_.
           act_bind (keep_record r) (\<lambda>_.
           act_bind (log_transition X None state Op_OriginCreate (v1_version state)
             (v1_created_at_ms state) (\<lambda>k. [])) (\<lambda>_.
           act_return state))))))))"

definition transfer ::
  "crates \<Rightarrow> (nat \<Rightarrow> u64) \<Rightarrow> string \<Rightarrow> string \<Rightarrow> u128 list \<Rightarrow>
     (vector_state_v1 \<times> vector_state_v1) kernel_action" where
  "transfer X clk from_id to_id amount =
     act_bind (fetch_state from_id) (\<lambda>before_from.
     act_bind (fetch_state to_id) (\<lambda>before_to.
     act_bind (act_try (transfer_components before_from before_to amount)) (\<lambda>(after_from, after_to).
     act_bind (act_try (certify_state (cr_checks X) (clk 0) after_from True True)) (\<lambda>from_certification.
     act_bind (act_try (certify_state (cr_checks X) (clk 1) after_to True True)) (\<lambda>to_certification.
     let after_from = after_from\<lparr> v1_certification := from_certification \<rparr>;
         after_to = after_to\<lparr> v1_certification := to_certification \<rparr>
     in act_bind (act_try (validate_state after_from)) (\<lambda>_.
        act_bind (act_try (validate_state after_to)) (\<lambda>_.
        act_bind (on_store (put_state after_from)) (\<lambda>_.
        act_bind (on_store (put_state after_to)) (\<lambda>_.
        act_bind (act_try (transfer_record (cr_checks X) (cr_hash X) (cr_serde X) (clk 2) (clk 3) (clk 4) (clk 5)
          before_from before_to after_from after_to amount)) (\<lambda>(sender_record, receiver_record).
        let sender_record = sender_record\<lparr> vr_certification := v1_certification after_from \<rparr>;
            receiver_record = receiver_record\<lparr> vr_certification := v1_certification after_to \<rparr>
        in act_bind (act_try (assert_record_operation_kind X sender_record Op_Transfer)) (\<lambda>_.
           act_bind (act_try (assert_record_operation_kind X receiver_record Op_Transfer)) (\<lambda>_.
           act_bind (keep_record sender_record) (\<lambda>_.
           act_bind (keep_record receiver_record) (\<lambda>_.
           act_bind (log_transition X (Some before_from) after_from Op_Transfer (v1_version after_from)
             (clk 6) (\<lambda>k. latest_parent_hash_for_entity k (v1_vector_id after_from))) (\<lambda>_.
           act_bind (log_transition X (Some before_to) after_to Op_Transfer (v1_version after_to)
             (clk 7) (\<lambda>k. latest_parent_hash_for_entity k (v1_vector_id after_to))) (\<lambda>_.
           act_return (after_from, after_to)))))))))))))))))"

definition drain ::
  "crates \<Rightarrow> (nat \<Rightarrow> u64) \<Rightarrow> string \<Rightarrow> u16 \<Rightarrow> vector_state_v1 kernel_action" where
  "drain X clk vector_id basis_points =
     act_bind (fetch_state vector_id) (\<lambda>before.
     act_bind (act_try (apply_drain (v1_components before) basis_points
       (cs_auth_ratio (v1_certification before)) (cs_threshold (v1_certification before)))) (\<lambda>(_, remaining).
     let state = before\<lparr> v1_components := remaining \<rparr>
     in act_bind (act_try (certify_state (cr_checks X) (clk 0) state True True)) (\<lambda>certification.
        act_bind (act_try (plus_checked (cr_checks X) (v1_version state) 1)) (\<lambda>version.
        let state = state\<lparr> v1_certification := certification, v1_updated_at_ms := clk 1,
              v1_version := version \<rparr>
        in act_bind (act_try (validate_state state)) (\<lambda>_.
           act_bind (on_store (put_state state)) (\<lambda>_.
           act_bind (act_try (json_u128s (cr_serde X) (v1_components state))) (\<lambda>remaining_json.
           let record_params = json_object
                 [(''basis_points'', json_word basis_points), (''remaining'', remaining_json)];
               r = record_new (cr_hash X) (cr_serde X) (clk 2)
                 (make_record_id (cr_hash X) ''drain'' vector_id (sd_text (cr_serde X) record_params))
                 vector_id (Some before) state OK_Drain record_params
           in act_bind (act_try (assert_record_operation_kind X r Op_Drain)) (\<lambda>_.
           act_bind (keep_record r) (\<lambda>_.
              act_bind (log_transition X (Some before) state Op_Drain (v1_version state)
                (v1_updated_at_ms state) (\<lambda>k. latest_parent_hash_for_entity k (v1_vector_id state))) (\<lambda>_.
              act_return state))))))))))"

definition project ::
  "crates \<Rightarrow> (nat \<Rightarrow> u64) \<Rightarrow> string \<Rightarrow> u128 list \<Rightarrow> string \<Rightarrow> vector_state_v1 kernel_action" where
  "project X clk vector_id projected_components escrow_id =
     act_bind (fetch_state vector_id) (\<lambda>before.
     act_bind (act_try (project_vector (cr_checks X) (clk 0) before projected_components escrow_id)) (\<lambda>after.
     act_bind (act_try (certify_state (cr_checks X) (clk 1) after True True)) (\<lambda>certification.
     let after = after\<lparr> v1_certification := certification \<rparr>
     in act_bind (act_try (validate_state after)) (\<lambda>_.
        act_bind (on_store (put_state after)) (\<lambda>_.
        act_bind (act_try (json_u128s (cr_serde X) projected_components)) (\<lambda>projected_json.
        let record_params = json_object [(''projected_components'', projected_json)];
            r = record_new (cr_hash X) (cr_serde X) (clk 2)
              (make_record_id (cr_hash X) ''project'' vector_id (sd_text (cr_serde X) record_params))
              vector_id (Some before) after OK_Project record_params
        in act_bind (act_try (assert_record_operation_kind X r Op_Project)) (\<lambda>_.
           act_bind (keep_record r) (\<lambda>_.
           act_bind (log_transition X (Some before) after Op_Project (v1_version after)
             (v1_updated_at_ms after) (\<lambda>k. latest_parent_hash_for_entity k (v1_vector_id after))) (\<lambda>_.
           act_return after)))))))))"

definition reconstruct ::
  "crates \<Rightarrow> (nat \<Rightarrow> u64) \<Rightarrow> string \<Rightarrow> settlement_outcome \<Rightarrow> vector_state_v1 kernel_action" where
  "reconstruct X clk vector_id out =
     act_bind (fetch_state vector_id) (\<lambda>before.
     act_bind (act_try (reconstruct_vector (cr_checks X) (clk 0) before out)) (\<lambda>after.
     act_bind (act_try (certify_state (cr_checks X) (clk 1) after True True)) (\<lambda>certification.
     let after = after\<lparr> v1_certification := certification \<rparr>
     in act_bind (act_try (validate_state after)) (\<lambda>_.
        act_bind (on_store (put_state after)) (\<lambda>_.
        act_bind (act_try (json_u128s (cr_serde X) (so_gains out))) (\<lambda>gains_json.
        act_bind (act_try (json_u128s (cr_serde X) (so_losses out))) (\<lambda>losses_json.
        let record_params = json_object [(''outcome_tag'', JString (so_outcome_tag out)),
              (''gains'', gains_json), (''losses'', losses_json)];
            r = record_new (cr_hash X) (cr_serde X) (clk 2)
              (make_record_id (cr_hash X) ''reconstruct'' vector_id (sd_text (cr_serde X) record_params))
              vector_id (Some before) after OK_Reconstruct record_params
        in act_bind (act_try (assert_record_operation_kind X r Op_Reconstruct)) (\<lambda>_.
           act_bind (keep_record r) (\<lambda>_.
           act_bind (log_transition X (Some before) after Op_Reconstruct (v1_version after)
             (v1_updated_at_ms after) (\<lambda>k. latest_parent_hash_for_entity k (v1_vector_id after))) (\<lambda>_.
           act_return after))))))))))"

definition create_region ::
  "crates \<Rightarrow> (nat \<Rightarrow> u64) \<Rightarrow> region_create_request \<Rightarrow> string \<Rightarrow> region_state kernel_action" where
  "create_region X clk request actor_public_key =
     act_bind (act_try (validate_region_create_request request)) (\<lambda>_.
     act_bind (act_try (verify_region_create_request_signature (cr_hash X) (cr_ed X) (cr_map_json X)
       (cr_hex_encode X) actor_public_key request)) (\<lambda>_.
     act_bind (act_get (\<lambda>k. query_region_by_name k (rq_region_name request) (rq_region_prefix request)))
       (\<lambda>existing.
     if existing \<noteq> None
     then act_try (Err (InvalidState ''region already exists for this lookup key''))
     else if trim actor_public_key = []
     then act_try (Err (InvalidState ''actor_public_key cannot be empty''))
     else
       act_bind (act_get (\<lambda>k. Ok (next_logical_clock k))) (\<lambda>logical_clock.
       act_bind (act_try (build_region_genesis_event (cr_hash X) (cr_map_json X) request actor_public_key
         logical_clock (clk 0) 1)) (\<lambda>event.
       if \<not> is_region_create_event event
       then act_try (Err (InvalidState ''failed to build canonical region create event''))
       else
         act_bind (act_try (validate_event (cr_hash X) (cr_ed X) event)) (\<lambda>_.
         act_bind (append_canonical_event X event) (\<lambda>_.
         act_try (region_state_from_event event))))))))"

end
