(* ===== verification/Engine_Invariants.thy ===== *)
theory Engine_Invariants
  imports Engine
begin

text \<open>
  What the operations of the kernel keep, on every exit: the log only grows, and the invariant
  \<open>kernel_ok\<close> of the store.
\<close>

section \<open>The log only grows\<close>

definition extends :: "kernel_engine \<Rightarrow> kernel_engine \<Rightarrow> bool" where
  "extends k k' \<longleftrightarrow>
     (store_ok (ke_store k) \<longrightarrow>
        store_ok (ke_store k') \<and>
        (\<forall>h e. get_event_by_hash (ke_store k) h = Some e \<longrightarrow> get_event_by_hash (ke_store k') h = Some e) \<and>
        (\<forall>v. get_state (ke_store k) v \<noteq> None \<longrightarrow> get_state (ke_store k') v \<noteq> None) \<and>
        (\<forall>r. get_record (ke_store k) r \<noteq> None \<longrightarrow> get_record (ke_store k') r \<noteq> None) \<and>
        ms_snapshots (ke_store k') = ms_snapshots (ke_store k)) \<and>
     ke_consensus k' = ke_consensus k"

interpretation growth: step_relation extends
  by unfold_locales (auto simp: extends_def)

lemma extends_put_state: "within extends (on_store (put_state st))"
  unfolding on_store_def
  by (rule growth.within_modify)
    (auto simp: extends_def vectors.ok_put vectors.get_put )

lemma extends_keep_record: "within extends (keep_record r)"
  unfolding keep_record_def
  by (rule growth.within_modify)
    (auto simp: extends_def audit.ok_put audit.get_put )

lemma extends_append: "within extends (append_canonical_event X e)"
  unfolding append_canonical_event_def
proof (intro growth.within_bind growth.within_intros growth.within_update)
  fix k k' :: kernel_engine
  assume "map_ok (\<lambda>store. k\<lparr>ke_store := store\<rparr>) (append_event e (ke_store k)) = Ok k'"
  then obtain t where t: "append_event e (ke_store k) = Ok t" "k' = k\<lparr>ke_store := t\<rparr>" by auto
  from t(1) have "get_event_by_hash (ke_store k) h = Some f \<Longrightarrow> get_event_by_hash t h = Some f"
    if "store_ok (ke_store k)" for h f
    using log.append_all_keeps [OF that, of "[e]" t h f] by simp
  with t store_ok_append(1) [OF _ t(1)] show "extends k k'"
    by (simp add: extends_def append_event_frame)
qed

lemma extends_log: "within extends (log_transition X before after op' c t parents)"
  unfolding log_transition_def by (intro growth.within_bind growth.within_intros extends_append)

lemmas extends_intros = growth.within_bind growth.within_intros growth.within_prod growth.within_if
  growth.within_let extends_put_state extends_keep_record extends_log extends_append

lemma operations_extend:
  "within extends (certify X clk v)"
  "within extends (origin_create X clk v ow sp cs seed nonce difficulty)"
  "within extends (transfer X clk v w amount)"
  "within extends (drain X clk v bps)"
  "within extends (project X clk v cs escrow)"
  "within extends (reconstruct X clk v out)"
  "within extends (create_region X clk request pk)"
  unfolding certify_def origin_create_def transfer_def drain_def project_def reconstruct_def
    create_region_def fetch_state_def Let_def
  by (intro extends_intros)+

section \<open>The invariant of the kernel\<close>

definition certification_ok :: "certification_state \<Rightarrow> bool" where
  "certification_ok c \<longleftrightarrow> cs_certified c \<and> cs_threshold c = 700 \<and> cs_auth_ratio c \<in> {700, 1000}"

definition stored_ok :: "vector_state_v1 \<Rightarrow> bool" where
  "stored_ok st \<longleftrightarrow> validate_state st = Ok () \<and> certification_ok (v1_certification st)"

text \<open>
  The store is well formed, every vector in it is canonical and certified, every event in it passed
  the validation and has all of its parents in the log, and every record is one the policy accepts.
\<close>

definition kernel_ok :: "crates \<Rightarrow> kernel_engine \<Rightarrow> bool" where
  "kernel_ok X k \<longleftrightarrow>
     store_ok (ke_store k) \<and>
     (\<forall>st \<in> set (list_states (ke_store k)). stored_ok st) \<and>
     (\<forall>e \<in> set (list_events (ke_store k)).
        validate_event (cr_hash X) (cr_ed X) e = Ok () \<and>
        (\<forall>p \<in> set (ev_parent_hashes e). get_event_by_hash (ke_store k) p \<noteq> None)) \<and>
     (\<forall>r \<in> set (list_records (ke_store k)). accept_record r (ke_consensus k))"

lemma kernel_ok_new: "kernel_ok X kernel_new"
  by (simp add: kernel_ok_def kernel_new_def store_ok_def store_default_def store_ops)

lemma kernel_ok_with_store: "kernel_ok X (with_store store_default)"
  using kernel_ok_new [of X] by (simp add: with_store_def kernel_new_def)

lemma certified_again:
  assumes "certify_state chk now st True True = Ok c" "cs_threshold (v1_certification st) = 700"
    and "v1_components st \<noteq> []"
  shows "certification_ok c"
  using certify_state_default_threshold [OF assms(1,3,2)] by (simp add: certification_ok_def)

lemma stored_okI:
  assumes "certify_state chk now st True True = Ok c" "cs_threshold (v1_certification st) = 700"
    and "validate_state st' = Ok ()" "v1_components st' = v1_components st" "v1_certification st' = c"
  shows "stored_ok st'"
  using certified_again [OF assms(1,2)] assms(3-5)
  by (auto simp: stored_ok_def validate_state_eq validate_canonical_state_Ok)

lemma keeps_fetch: "keeps (kernel_ok X) (fetch_state v) (\<lambda>st. stored_ok st \<and> v1_vector_id st = v)"
  unfolding fetch_state_def
proof (rule keeps_get)
  fix k :: kernel_engine and st
  assume k: "kernel_ok X k" and "ok_or VectorNotFound (get_state (ke_store k) v) = Ok st"
  then have g: "get_state (ke_store k) v = Some st" by simp
  from k have ok: "store_ok (ke_store k)" by (simp add: kernel_ok_def)
  from vectors.get_key [OF ok g] vectors.values_get [OF ok, of st] g k
  show "stored_ok st \<and> v1_vector_id st = v" by (simp add: kernel_ok_def)
qed

lemma keeps_put_state: "stored_ok st \<Longrightarrow> keeps (kernel_ok X) (on_store (put_state st)) (\<lambda>_. True)"
  unfolding on_store_def
  by (rule keeps_modify) (simp add: kernel_ok_def vectors.ok_put vectors.values_put)

lemma keeps_keep_record: "keeps (kernel_ok X) (keep_record r) (\<lambda>_. True)"
  unfolding keep_record_def
  by (rule keeps_modify) (simp add: kernel_ok_def audit.ok_put audit.values_put)

lemma ensure_parents_Ok: "ensure_parents s h ps = Ok () \<longleftrightarrow> (\<forall>p \<in> set ps. get_event_by_hash s p \<noteq> None)"
  by (induction ps) auto

lemma ensure_parents_not_panicked [simp]: "ensure_parents s h ps \<noteq> Panicked"
  by (induction ps) auto

lemma append_canonical_event_Ok:
  "append_canonical_event X e k = (k', Ok u) \<longleftrightarrow>
     validate_event (cr_hash X) (cr_ed X) e = Ok () \<and>
     (\<forall>p \<in> set (ev_parent_hashes e). get_event_by_hash (ke_store k) p \<noteq> None) \<and>
     (\<exists>t. append_event e (ke_store k) = Ok t \<and> k' = k\<lparr> ke_store := t \<rparr>)"
  by (cases "append_event e (ke_store k)")
    (auto simp: append_canonical_event_def act_bind_Ok act_try_def act_get_def act_update_def
      ensure_parent_closure_def ensure_parents_Ok)

lemma append_canonical_event_fails:
  "append_canonical_event X e k = (k', r) \<Longrightarrow> r \<noteq> Ok () \<Longrightarrow> k' = k"
  by (auto simp: append_canonical_event_def act_bind_def act_defs split: result.splits prod.splits)

lemma kernel_ok_append:
  assumes "kernel_ok X k" "append_event e (ke_store k) = Ok t"
    and "validate_event (cr_hash X) (cr_ed X) e = Ok ()"
    and "\<forall>p \<in> set (ev_parent_hashes e). get_event_by_hash (ke_store k) p \<noteq> None"
  shows "kernel_ok X (k\<lparr> ke_store := t \<rparr>)"
proof -
  have ok: "store_ok (ke_store k)" using assms(1) by (simp add: kernel_ok_def)
  note a = store_ok_append [OF ok assms(2)]
  have ev: "set (list_events t) = insert e (set (list_events (ke_store k)))"
    using mset_eq_setD [of "list_events t" "e # list_events (ke_store k)"] a(2) by simp
  have "get_event_by_hash (ke_store k) p \<noteq> None \<Longrightarrow> get_event_by_hash t p \<noteq> None" for p
    using log.lookup_append [OF ok assms(2)] by auto
  with assms ev a(1) show ?thesis by (auto simp: kernel_ok_def append_event_frame [OF assms(2)])
qed

lemma keeps_append: "keeps (kernel_ok X) (append_canonical_event X e) (\<lambda>_. True)"
  unfolding keeps_def
proof (intro allI impI conjI)
  fix k assume k: "kernel_ok X k"
  obtain k' r where a: "append_canonical_event X e k = (k', r)" by fastforce
  show "kernel_ok X (fst (append_canonical_event X e k))"
  proof (cases "r = Ok ()")
    case True
    with a append_canonical_event_Ok [of X e k k' "()"] kernel_ok_append [OF k] show ?thesis by auto
  next
    case False
    with append_canonical_event_fails [OF a] a k show ?thesis by simp
  qed
qed simp

lemma keeps_log: "keeps (kernel_ok X) (log_transition X before after op' c t parents) (\<lambda>_. True)"
  unfolding log_transition_def
  by (rule keeps_bind [OF keeps_get [where Q = "\<lambda>_. True"] keeps_append]) simp

lemma keeps_true: "keeps I m (\<lambda>_. True) \<Longrightarrow> keeps I (act_bind m (\<lambda>_. act_return x)) (\<lambda>_. True)"
  by (rule keeps_bind [OF _ keeps_return])

lemma keeps_check: "(\<And>x. r = Ok x \<Longrightarrow> keeps I (f x) Q) \<Longrightarrow> keeps I (act_bind (act_try r) f) Q"
  by (rule keeps_bind [OF keeps_try])

lemma keeps_then: "keeps I m (\<lambda>_. True) \<Longrightarrow> (\<And>x. keeps I (f x) Q) \<Longrightarrow> keeps I (act_bind m f) Q"
  by (rule keeps_bind)

lemma keeps_fetched:
  "(\<And>st. stored_ok st \<Longrightarrow> v1_vector_id st = v \<Longrightarrow> keeps (kernel_ok X) (f st) Q) \<Longrightarrow>
     keeps (kernel_ok X) (act_bind (fetch_state v) f) Q"
  by (rule keeps_bind [OF keeps_fetch]) simp

lemmas keeps_steps = keeps_fetched keeps_check keeps_then [OF keeps_put_state] keeps_then [OF keeps_keep_record]
  keeps_then [OF keeps_log] keeps_return keeps_prod

lemma stored_threshold: "stored_ok st \<Longrightarrow> cs_threshold (v1_certification st) = 700"
  by (simp add: stored_ok_def certification_ok_def)

lemma certify_keeps: "keeps (kernel_ok X) (certify X clk v) (\<lambda>_. True)"
  unfolding certify_def Let_def
  by (intro keeps_steps; (rule stored_okI, assumption)?) (auto simp: stored_threshold)

lemma origin_threshold:
  "create_origin_vector H now v ow sp cs seed nonce difficulty = Ok st \<Longrightarrow>
     cs_threshold (v1_certification st) = 700"
  by (auto simp: create_origin_vector_def Let_def v1_new_def split: if_splits)

lemma origin_create_keeps: "keeps (kernel_ok X) (origin_create X clk v ow sp cs seed nonce difficulty) (\<lambda>_. True)"
  unfolding origin_create_def Let_def
  by (intro keeps_steps; (rule stored_okI, assumption)?) (auto simp: origin_threshold)

lemma transfer_keeps: "keeps (kernel_ok X) (transfer X clk v w amount) (\<lambda>_. True)"
  unfolding transfer_def Let_def
  by (intro keeps_steps; (rule stored_okI, assumption)?) (auto simp: stored_threshold transfer_components_Ok)

lemma drain_keeps: "keeps (kernel_ok X) (drain X clk v bps) (\<lambda>_. True)"
  unfolding drain_def Let_def
  by (intro keeps_steps; (rule stored_okI, assumption)?) (auto simp: stored_threshold)

lemma project_keeps: "keeps (kernel_ok X) (project X clk v cs escrow) (\<lambda>_. True)"
  unfolding project_def Let_def
  by (intro keeps_steps; (rule stored_okI, assumption)?) (auto simp: stored_threshold dest: project_vector_Ok)

lemma reconstruct_keeps: "keeps (kernel_ok X) (reconstruct X clk v out) (\<lambda>_. True)"
  unfolding reconstruct_def Let_def
  by (intro keeps_steps; (rule stored_okI, assumption)?) (auto simp: stored_threshold elim: reconstruct_vector_Ok)

lemma create_region_keeps: "keeps (kernel_ok X) (create_region X clk request pk) (\<lambda>_. True)"
  unfolding create_region_def Let_def
  by (intro keeps_check keeps_then [OF keeps_get [where Q = "\<lambda>_. True"]] keeps_if
      keeps_weaken [OF keeps_try] keeps_then [OF keeps_append] TrueI)

section \<open>Reachable kernels\<close>

text \<open>One call of an operation, with any arguments and any readings of the clock, whatever it returns.\<close>

inductive kernel_step :: "crates \<Rightarrow> kernel_engine \<Rightarrow> kernel_engine \<Rightarrow> bool" for X :: crates where
  step_certify: "certify X clk v k = (k', r) \<Longrightarrow> kernel_step X k k'"
| step_origin_create:
    "origin_create X clk v ow sp cs seed nonce difficulty k = (k', r) \<Longrightarrow> kernel_step X k k'"
| step_transfer: "transfer X clk v w amount k = (k', r2) \<Longrightarrow> kernel_step X k k'"
| step_drain: "drain X clk v bps k = (k', r) \<Longrightarrow> kernel_step X k k'"
| step_project: "project X clk v cs escrow k = (k', r) \<Longrightarrow> kernel_step X k k'"
| step_reconstruct: "reconstruct X clk v out k = (k', r) \<Longrightarrow> kernel_step X k k'"
| step_create_region: "create_region X clk request pk k = (k', rr) \<Longrightarrow> kernel_step X k k'"

inductive kernel_steps :: "crates \<Rightarrow> kernel_engine \<Rightarrow> kernel_engine \<Rightarrow> bool" for X :: crates where
  steps_refl: "kernel_steps X k k"
| steps_step: "kernel_steps X k k' \<Longrightarrow> kernel_step X k' k'' \<Longrightarrow> kernel_steps X k k''"

lemma kernel_step_extends: "kernel_step X k k' \<Longrightarrow> extends k k'"
  by (induction rule: kernel_step.induct) (blast intro: operations_extend [THEN withinD])+

lemma kernel_step_ok: "kernel_step X k k' \<Longrightarrow> kernel_ok X k \<Longrightarrow> kernel_ok X k'"
  by (induction rule: kernel_step.induct)
    (blast dest: keepsD [OF certify_keeps] keepsD [OF origin_create_keeps] keepsD [OF transfer_keeps]
      keepsD [OF drain_keeps] keepsD [OF project_keeps] keepsD [OF reconstruct_keeps]
      keepsD [OF create_region_keeps])+

lemma kernel_steps_extends: "kernel_steps X k k' \<Longrightarrow> extends k k'"
  by (induction rule: kernel_steps.induct) (blast intro: growth.rel_refl growth.rel_trans kernel_step_extends)+

lemma kernel_steps_ok: "kernel_steps X k k' \<Longrightarrow> kernel_ok X k \<Longrightarrow> kernel_ok X k'"
  by (induction rule: kernel_steps.induct) (auto dest: kernel_step_ok)

lemma kernel_steps_trans: "kernel_steps X k' k'' \<Longrightarrow> kernel_steps X k k' \<Longrightarrow> kernel_steps X k k''"
  by (induction rule: kernel_steps.induct) (auto intro: kernel_steps.intros)

lemma kernel_steps_log:
  assumes "kernel_steps X k k'" "store_ok (ke_store k)"
  shows "set (list_events (ke_store k)) \<subseteq> set (list_events (ke_store k'))"
proof
  fix e assume "e \<in> set (list_events (ke_store k))"
  then have "get_event_by_hash (ke_store k) (ev_event_hash e) = Some e"
    using log.lookup_iff [OF assms(2), of "ev_event_hash e" e] by simp
  then show "e \<in> set (list_events (ke_store k'))"
    using kernel_steps_extends [OF assms(1)] assms(2) log.lookup_iff [of "ke_store k'" "ev_event_hash e" e]
    by (auto simp: extends_def)
qed

end
