(* ===== verification/Engine_Log.thy ===== *)
theory Engine_Log
  imports Engine_Invariants
begin

text \<open>The events the operations build: their fields, when they pass, and where the log takes them.\<close>

section \<open>The event of a transition\<close>

lemma narrow_components_Ok:
  "narrow_components cs acc = Ok xs \<longleftrightarrow> (\<forall>c \<in> set cs. unat c < 2 ^ 64) \<and> xs = acc @ map ucast cs"
  by (induction cs arbitrary: acc) auto

lemma narrow_components_not_panicked [simp]: "narrow_components cs acc \<noteq> Panicked"
  by (induction cs arbitrary: acc) auto

lemma bt_rebuild: "bt_ordered m \<Longrightarrow> fold (\<lambda>(k, v). bt_insert k v) m [] = m"
proof -
  have get: "bt_get (fold (\<lambda>(k, v). bt_insert k v) m n) q =
      (case bt_get (rev m) q of Some v \<Rightarrow> Some v | None \<Rightarrow> bt_get n q)" for m n :: "('a, 'b) btree" and q
    by (induction m arbitrary: n) (auto simp: map_add_def split: option.split)
  have ord: "bt_ordered (fold (\<lambda>(k, v). bt_insert k v) m n)" if "bt_ordered n" for m n :: "('a, 'b) btree"
    using that by (induction m arbitrary: n) auto
  assume m: "bt_ordered m"
  have "bt_get (rev m) = bt_get m"
    using bt_ordered_distinct [OF m]
    by (intro ext option_ext) (simp add: map_of_eq_Some_iff rev_map [symmetric] del: rev_map)
  then show ?thesis using m ord [of "[]" m] get [of m "[]"] by (intro bt_ordered_ext) (auto split: option.split)
qed

definition event_state :: "vector_state_v1 \<Rightarrow> vector_state" where
  "event_state st = vs_new (map ucast (v1_components st)) (v1_owner_pubkey st)
     (vector_type_debug (v1_vector_type st)) (fold (\<lambda>(k, v). bt_insert k v) (v1_type_metadata st) [])"

definition narrow :: "vector_state_v1 \<Rightarrow> bool" where
  "narrow st \<longleftrightarrow> (\<forall>c \<in> set (v1_components st). unat c < 2 ^ 64)"

lemma vector_v1_to_event_state_iff:
  "vector_v1_to_event_state st =
     (if narrow st then Ok (event_state st)
      else Err (InvalidState ''component value exceeds u64 canonical event limit''))"
proof -
  have "narrow_components cs acc = (if \<forall>c \<in> set cs. unat c < 2 ^ 64 then Ok (acc @ map ucast cs)
      else Err (InvalidState ''component value exceeds u64 canonical event limit''))" for cs acc
    by (induction cs arbitrary: acc) auto
  then show ?thesis by (simp add: vector_v1_to_event_state_def event_state_def narrow_def Let_def)
qed

definition event_before :: "vector_state_v1 option \<Rightarrow> vector_state_v1 \<Rightarrow> vector_state" where
  "event_before before after =
     (case before of
        Some st \<Rightarrow> event_state st
      | None \<Rightarrow> vs_zero (length (v1_components after)) (v1_owner_pubkey after)
          (vector_type_debug (v1_vector_type after)))"

text \<open>The event as \<open>build_transition_event\<close> makes it, with its place \<open>seq\<close> in the history.\<close>

definition transition_event ::
  "(bytes \<Rightarrow> string) \<Rightarrow> vector_state_v1 option \<Rightarrow> vector_state_v1 \<Rightarrow> operation_type \<Rightarrow> u64 \<Rightarrow> u64 \<Rightarrow>
     string list \<Rightarrow> u64 \<Rightarrow> vector_event" where
  "transition_event H before after op' lc ts ps seq =
     (let e = ev_new (canonical_event_id (v1_vector_id after) (v1_space_id after) op' lc seq) ps
            (v1_space_id after) (v1_vector_id after) op' (event_before before after) (event_state after)
            (f64_thousandths (cs_auth_ratio (v1_certification after)))
            (cs_certified (v1_certification after)) (v1_owner_pubkey after) lc ts;
          e = e\<lparr> ev_payload_hash := canonical_payload_hash H e \<rparr>
      in e\<lparr> ev_event_hash := canonical_event_hash H e \<rparr>)"

definition sequence_of :: "kernel_engine \<Rightarrow> vector_state_v1 \<Rightarrow> nat" where
  "sequence_of k st = length (filter (\<lambda>e. ev_entity_id e = v1_vector_id st \<and> ev_region_id e = v1_space_id st)
     (load_events_for_replay (ke_store k))) + 1"

lemma build_transition_event_iff:
  "build_transition_event X k before after op' lc ts ps =
     (if \<not> (pred_option narrow before \<and> narrow after)
      then Err (InvalidState ''component value exceeds u64 canonical event limit'')
      else if 2 ^ 64 \<le> sequence_of k after then Err (InvalidState ''event sequence overflow'')
      else Ok (transition_event (cr_hash X) before after op' lc ts ps (of_nat (sequence_of k after))))"
  by (cases before)
    (auto simp: build_transition_event_def vector_v1_to_event_state_iff next_event_sequence_for_entity_def
      sequence_of_def transition_event_def event_before_def Let_def)

lemma transition_event_fields [simp]:
  "ev_event_id (transition_event H before after op' lc ts ps seq) =
     canonical_event_id (v1_vector_id after) (v1_space_id after) op' lc seq"
  "ev_parent_hashes (transition_event H before after op' lc ts ps seq) = ps"
  "ev_region_id (transition_event H before after op' lc ts ps seq) = v1_space_id after"
  "ev_entity_id (transition_event H before after op' lc ts ps seq) = v1_vector_id after"
  "ev_operation (transition_event H before after op' lc ts ps seq) = op'"
  "ev_vector_before (transition_event H before after op' lc ts ps seq) = event_before before after"
  "ev_vector_after (transition_event H before after op' lc ts ps seq) = event_state after"
  "ev_auth_ratio (transition_event H before after op' lc ts ps seq) =
     f64_thousandths (cs_auth_ratio (v1_certification after))"
  "ev_actor_public_key (transition_event H before after op' lc ts ps seq) = v1_owner_pubkey after"
  "ev_logical_clock (transition_event H before after op' lc ts ps seq) = lc"
  "ev_timestamp (transition_event H before after op' lc ts ps seq) = ts"
  "ev_signature (transition_event H before after op' lc ts ps seq) = []"
  by (simp_all add: transition_event_def ev_new_def Let_def)

lemma transition_event_hashes:
  assumes "e = transition_event H before after op' lc ts ps seq"
  shows "ev_payload_hash e = canonical_payload_hash H e" "ev_event_hash e = canonical_event_hash H e"
  by (simp_all add: assms transition_event_def Let_def canonical_payload_hash_def canonical_event_hash_def
      canonical_event_bytes_def payload_bytes_ignore)

text \<open>An identifier with a character that is not white space is not blank.\<close>

lemma canonical_event_id_not_blank: "trim (canonical_event_id v r op' lc seq) \<noteq> []"
  by (rule trim_not_blank [of "CHR '':''"]) (simp_all add: canonical_event_id_def solid_def)

definition plain_transition :: "operation_type \<Rightarrow> vector_state_v1 \<Rightarrow> bool" where
  "plain_transition op' after \<longleftrightarrow>
     op' \<in> {Op_OriginCreate, Op_Certify, Op_Transfer, Op_Drain, Op_Project, Op_Reconstruct} \<and>
     (op' = Op_OriginCreate \<longrightarrow> v1_type_metadata after = [])"

lemma transition_not_region:
  "plain_transition op' after \<Longrightarrow> \<not> is_region_create_event (transition_event H before after op' lc ts ps seq)"
  by (auto simp: plain_transition_def is_region_create_event_def event_state_def vs_new_def)

lemma length_event_before:
  "length (vs_components (event_before before after)) =
     length (v1_components (case before of Some st \<Rightarrow> st | None \<Rightarrow> after))"
  by (simp add: event_before_def event_state_def vs_new_def vs_zero_def split: option.split)

lemma transition_event_valid:
  assumes "plain_transition op' after" "unat (cs_auth_ratio (v1_certification after)) \<le> 1000"
  shows "validate_event H E (transition_event H before after op' lc ts ps seq) = Ok () \<longleftrightarrow>
    trim (v1_space_id after) \<noteq> [] \<and> trim (v1_vector_id after) \<noteq> [] \<and> trim (v1_owner_pubkey after) \<noteq> [] \<and>
    (case before of Some st \<Rightarrow> length (v1_components st) = length (v1_components after) | None \<Rightarrow> True)"
proof -
  have "length (vs_components (event_state after)) = length (v1_components after)"
    by (simp add: event_state_def vs_new_def)
  with f64_thousandths_in_unit [OF assms(2)] show ?thesis
    by (subst validate_event_unsigned [OF _ transition_not_region [OF assms(1)] transition_event_hashes [OF refl]])
      (auto simp: canonical_event_id_not_blank length_event_before split: option.split)
qed

section \<open>Appending it\<close>

lemma log_transition_wide:
  "\<not> (pred_option narrow before \<and> narrow after) \<Longrightarrow>
     log_transition X before after op' lc ts parents k =
       (k, Err (InvalidState ''component value exceeds u64 canonical event limit''))"
  by (simp add: log_transition_def act_bind_try build_transition_event_iff)

lemma log_transition_Ok:
  "log_transition X before after op' lc ts parents k = (k', Ok u) \<longleftrightarrow>
     pred_option narrow before \<and> narrow after \<and> sequence_of k after < 2 ^ 64 \<and>
     append_canonical_event X (transition_event (cr_hash X) before after op' lc ts (parents k)
       (of_nat (sequence_of k after))) k = (k', Ok u)"
  by (auto simp: log_transition_def act_bind_Ok act_get_def build_transition_event_iff)

lemma log_transition_fails:
  "log_transition X before after op' lc ts parents k = (k', r) \<Longrightarrow> r \<noteq> Ok () \<Longrightarrow> k' = k"
  by (auto simp: log_transition_def act_bind_try build_transition_event_iff append_canonical_event_fails
      split: if_splits)

lemma log_transition_frame:
  assumes "log_transition X before after op' lc ts parents k = (k', r)"
  shows "get_state (ke_store k') = get_state (ke_store k)" "list_states (ke_store k') = list_states (ke_store k)"
    "ke_consensus k' = ke_consensus k"
proof -
  have "get_state (ke_store k') = get_state (ke_store k) \<and> list_states (ke_store k') = list_states (ke_store k) \<and>
      ke_consensus k' = ke_consensus k"
  proof (cases "r = Ok ()")
    case True
    with assms show ?thesis by (auto simp: log_transition_Ok append_canonical_event_Ok append_event_frame)
  qed (use log_transition_fails [OF assms] in simp)
  then show "get_state (ke_store k') = get_state (ke_store k)"
    "list_states (ke_store k') = list_states (ke_store k)" "ke_consensus k' = ke_consensus k" by auto
qed

section \<open>What each operation does when it returns\<close>

text \<open>The kernel after the writes that come before the event.\<close>

definition written :: "vector_state_v1 list \<Rightarrow> vector_record_v1 list \<Rightarrow> kernel_engine \<Rightarrow> kernel_engine" where
  "written sts rs k =
     k\<lparr> ke_store := fold put_record (filter (\<lambda>r. accept_record r (ke_consensus k)) rs)
          (fold put_state sts (ke_store k)) \<rparr>"

lemma written_frame [simp]:
  "load_events_for_replay (ke_store (written sts rs k)) = load_events_for_replay (ke_store k)"
  "list_events (ke_store (written sts rs k)) = list_events (ke_store k)"
  "get_event_by_hash (ke_store (written sts rs k)) = get_event_by_hash (ke_store k)"
  "ke_consensus (written sts rs k) = ke_consensus k"
  "get_state (ke_store (written sts rs k)) = get_state (fold put_state sts (ke_store k))"
  "list_states (ke_store (written sts rs k)) = list_states (fold put_state sts (ke_store k))"
proof -
  have st: "load_events_for_replay (fold put_state sts s) = load_events_for_replay s \<and>
      list_events (fold put_state sts s) = list_events s \<and>
      get_event_by_hash (fold put_state sts s) = get_event_by_hash s" for s
    by (induction sts arbitrary: s) simp_all
  have rec: "load_events_for_replay (fold put_record rs s) = load_events_for_replay s \<and>
      list_events (fold put_record rs s) = list_events s \<and>
      get_event_by_hash (fold put_record rs s) = get_event_by_hash s \<and>
      get_state (fold put_record rs s) = get_state s \<and> list_states (fold put_record rs s) = list_states s"
    for rs s by (induction rs arbitrary: s) simp_all
  show "load_events_for_replay (ke_store (written sts rs k)) = load_events_for_replay (ke_store k)"
    "list_events (ke_store (written sts rs k)) = list_events (ke_store k)"
    "get_event_by_hash (ke_store (written sts rs k)) = get_event_by_hash (ke_store k)"
    "ke_consensus (written sts rs k) = ke_consensus k"
    "get_state (ke_store (written sts rs k)) = get_state (fold put_state sts (ke_store k))"
    "list_states (ke_store (written sts rs k)) = list_states (fold put_state sts (ke_store k))"
    using st rec by (simp_all add: written_def)
qed

lemma fetch_state_Ok: "fetch_state v k = (k', Ok st) \<longleftrightarrow> k' = k \<and> get_state (ke_store k) v = Some st"
  by (auto simp: fetch_state_def act_get_def)

lemma write_step:
  "act_bind (on_store (put_state st)) f k = f () (k\<lparr> ke_store := put_state st (ke_store k) \<rparr>)"
  by (simp add: on_store_def)

definition kept :: "vector_record_v1 \<Rightarrow> kernel_engine \<Rightarrow> kernel_engine" where
  "kept r k = (if accept_record r (ke_consensus k) then k\<lparr> ke_store := put_record r (ke_store k) \<rparr> else k)"

lemma record_step: "act_bind (keep_record r) f k = f () (kept r k)"
  by (simp add: keep_record_def kept_def)

lemma try_Ok: "act_try r k = (k', Ok x) \<longleftrightarrow> k' = k \<and> r = Ok x"
  by (auto simp: act_try_def)

lemma return_Ok: "act_return x k = (k', Ok y) \<longleftrightarrow> k' = k \<and> y = x"
  by (auto simp: act_return_def)

lemma kept_written:
  "kept r (k\<lparr> ke_store := put_state st (ke_store k) \<rparr>) = written [st] [r] k"
  "kept q (kept r (k\<lparr> ke_store := put_state st' (put_state st (ke_store k)) \<rparr>)) = written [st, st'] [r, q] k"
  by (simp_all add: kept_def written_def)

lemmas run_simps = act_bind_Ok [of "fetch_state _"] act_bind_Ok [of "act_try _"] act_bind_Ok [of "log_transition _ _ _ _ _ _ _"]
  fetch_state_Ok try_Ok return_Ok write_step record_step

lemma certify_Ok:
  assumes "certify X clk v k = (k', Ok after)"
  obtains st c r where "get_state (ke_store k) v = Some st"
    "certify_state (cr_checks X) (clk 0) st True True = Ok c"
    "plus_checked (cr_checks X) (v1_version st) 1 = Ok (v1_version after)"
    "after = st\<lparr> v1_certification := c, v1_updated_at_ms := clk 1, v1_version := v1_version st + 1 \<rparr>"
    "validate_state after = Ok ()"
    "log_transition X (Some st) after Op_Certify (v1_version after) (clk 1)
       (\<lambda>k. latest_parent_hash_for_entity k (v1_vector_id after)) (written [after] [r] k) = (k', Ok ())"
  using assms unfolding certify_def Let_def
  by (auto simp: run_simps plus_checked_Ok kept_written)

lemma origin_create_Ok:
  assumes "origin_create X clk v ow sp cs seed nonce difficulty k = (k', Ok after)"
  obtains st c r where
    "create_origin_vector (cr_hash X) (clk 0) v ow sp cs seed nonce difficulty = Ok st"
    "certify_state (cr_checks X) (clk 1) st True True = Ok c"
    "after = st\<lparr> v1_certification := c \<rparr>" "validate_state after = Ok ()"
    "log_transition X None after Op_OriginCreate (v1_version after) (v1_created_at_ms after)
       (\<lambda>k. []) (written [after] [r] k) = (k', Ok ())"
  using assms unfolding origin_create_def Let_def
  by (auto simp: run_simps kept_written)

lemma drain_Ok:
  assumes "drain X clk v bps k = (k', Ok after)"
  obtains st dr rem c r where "get_state (ke_store k) v = Some st"
    "apply_drain (v1_components st) bps (cs_auth_ratio (v1_certification st))
       (cs_threshold (v1_certification st)) = Ok (dr, rem)"
    "certify_state (cr_checks X) (clk 0) (st\<lparr> v1_components := rem \<rparr>) True True = Ok c"
    "plus_checked (cr_checks X) (v1_version st) 1 = Ok (v1_version after)"
    "after = st\<lparr> v1_components := rem, v1_certification := c, v1_updated_at_ms := clk 1,
       v1_version := v1_version st + 1 \<rparr>"
    "validate_state after = Ok ()"
    "log_transition X (Some st) after Op_Drain (v1_version after) (clk 1)
       (\<lambda>k. latest_parent_hash_for_entity k (v1_vector_id after)) (written [after] [r] k) = (k', Ok ())"
  using assms unfolding drain_def Let_def
  by (auto simp: run_simps plus_checked_Ok kept_written split: prod.splits)

lemma project_Ok:
  assumes "project X clk v cs escrow k = (k', Ok after)"
  obtains st mid c r where "get_state (ke_store k) v = Some st"
    "project_vector (cr_checks X) (clk 0) st cs escrow = Ok mid"
    "certify_state (cr_checks X) (clk 1) mid True True = Ok c"
    "after = mid\<lparr> v1_certification := c \<rparr>" "validate_state after = Ok ()"
    "log_transition X (Some st) after Op_Project (v1_version after) (v1_updated_at_ms after)
       (\<lambda>k. latest_parent_hash_for_entity k (v1_vector_id after)) (written [after] [r] k) = (k', Ok ())"
  using assms unfolding project_def Let_def
  by (auto simp: run_simps kept_written)

lemma reconstruct_Ok:
  assumes "reconstruct X clk v out k = (k', Ok after)"
  obtains st mid c r where "get_state (ke_store k) v = Some st"
    "reconstruct_vector (cr_checks X) (clk 0) st out = Ok mid"
    "certify_state (cr_checks X) (clk 1) mid True True = Ok c"
    "after = mid\<lparr> v1_certification := c \<rparr>" "validate_state after = Ok ()"
    "log_transition X (Some st) after Op_Reconstruct (v1_version after) (v1_updated_at_ms after)
       (\<lambda>k. latest_parent_hash_for_entity k (v1_vector_id after)) (written [after] [r] k) = (k', Ok ())"
  using assms unfolding reconstruct_def Let_def
  by (auto simp: run_simps kept_written)

lemma transfer_Ok:
  assumes "transfer X clk v w amount k = (k', Ok (after, after'))"
  obtains st st' mid mid' c c' r r' k1 where
    "get_state (ke_store k) v = Some st" "get_state (ke_store k) w = Some st'"
    "transfer_components st st' amount = Ok (mid, mid')"
    "certify_state (cr_checks X) (clk 0) mid True True = Ok c"
    "certify_state (cr_checks X) (clk 1) mid' True True = Ok c'"
    "after = mid\<lparr> v1_certification := c \<rparr>" "after' = mid'\<lparr> v1_certification := c' \<rparr>"
    "validate_state after = Ok ()" "validate_state after' = Ok ()"
    "log_transition X (Some st) after Op_Transfer (v1_version after) (clk 6)
       (\<lambda>k. latest_parent_hash_for_entity k (v1_vector_id after)) (written [after, after'] [r, r'] k) =
       (k1, Ok ())"
    "log_transition X (Some st') after' Op_Transfer (v1_version after') (clk 7)
       (\<lambda>k. latest_parent_hash_for_entity k (v1_vector_id after')) k1 = (k', Ok ())"
  using assms unfolding transfer_def Let_def
  by (auto simp: run_simps kept_written split: prod.splits)

section \<open>Runs\<close>

lemma record_new_operation [simp]: "vr_operation (record_new H SD now i v before after kind params) = kind"
  by (simp add: record_new_def Let_def)

lemma assert_kind [simp]:
  "canonical_name (op_kind_to_event_kind (vr_operation r)) = canonical_name expected \<Longrightarrow>
     assert_record_operation_kind X r expected = Ok ()"
  by (simp add: assert_record_operation_kind_def)

lemma try_step: "r = Ok x \<Longrightarrow> act_bind (act_try r) f k = f x k"
  by (simp add: act_bind_try)

lemma try_Ok_step [simp]: "act_bind (act_try (Ok x)) f k = f x k"
  by (rule try_step) simp

lemma fetch_step: "get_state (ke_store k) v = Some st \<Longrightarrow> act_bind (fetch_state v) f k = f st k"
  by (simp add: fetch_state_def act_bind_try)

text \<open>The vector an origin makes, and its record.\<close>

definition origin_vector ::
  "(bytes \<Rightarrow> string) \<Rightarrow> u64 \<Rightarrow> string \<Rightarrow> string \<Rightarrow> string \<Rightarrow> u128 list \<Rightarrow> string \<Rightarrow> u64 \<Rightarrow> u32 \<Rightarrow>
     certification_state \<Rightarrow> vector_state_v1" where
  "origin_vector H now v ow sp cs seed nonce difficulty c =
     (v1_new v ow sp cs VT_Origin now)
       \<lparr> v1_origin := Some \<lparr> os_seed = seed, os_nonce = nonce, os_difficulty = difficulty,
           os_proof_hash = origin_proof_hash H seed nonce \<rparr>, v1_certification := c \<rparr>"

lemma origin_vector_fields [simp]:
  "v1_vector_id (origin_vector H now v ow sp cs seed nonce difficulty c) = v"
  "v1_owner_pubkey (origin_vector H now v ow sp cs seed nonce difficulty c) = ow"
  "v1_space_id (origin_vector H now v ow sp cs seed nonce difficulty c) = sp"
  "v1_components (origin_vector H now v ow sp cs seed nonce difficulty c) = cs"
  "v1_certification (origin_vector H now v ow sp cs seed nonce difficulty c) = c"
  "v1_type_metadata (origin_vector H now v ow sp cs seed nonce difficulty c) = []"
  "v1_version (origin_vector H now v ow sp cs seed nonce difficulty c) = 1"
  "v1_vector_type (origin_vector H now v ow sp cs seed nonce difficulty c) = VT_Origin"
  "v1_created_at_ms (origin_vector H now v ow sp cs seed nonce difficulty c) = now"
  by (simp_all add: origin_vector_def v1_new_def)

lemma create_origin_vector_Ok:
  "create_origin_vector H now v ow sp cs seed nonce difficulty = Ok st \<longleftrightarrow>
     verify_origin H seed nonce difficulty \<and>
     st = origin_vector H now v ow sp cs seed nonce difficulty
       \<lparr> cs_certified = True, cs_auth_ratio = 1000, cs_threshold = 700,
         cs_last_checked_at_ms = now, cs_reason = None \<rparr>"
  by (auto simp: create_origin_vector_def origin_vector_def v1_new_def Let_def)

lemma origin_create_run:
  assumes "verify_origin (cr_hash X) seed nonce difficulty"
    and "v \<noteq> []" "ow \<noteq> []" "sp \<noteq> []" "cs \<noteq> []" "nat_sum cs < 2 ^ 128"
  obtains c r where "certification_ok c"
    "origin_create X clk v ow sp cs seed nonce difficulty k =
       act_bind (log_transition X None (origin_vector (cr_hash X) (clk 0) v ow sp cs seed nonce difficulty c)
           Op_OriginCreate 1 (clk 0) (\<lambda>k. []))
         (\<lambda>_. act_return (origin_vector (cr_hash X) (clk 0) v ow sp cs seed nonce difficulty c))
         (written [origin_vector (cr_hash X) (clk 0) v ow sp cs seed nonce difficulty c] [r] k)"
proof -
  let ?v = "origin_vector (cr_hash X) (clk 0) v ow sp cs seed nonce difficulty"
  let ?c0 = "\<lparr> cs_certified = True, cs_auth_ratio = 1000, cs_threshold = 700,
         cs_last_checked_at_ms = clk 0, cs_reason = None \<rparr> :: certification_state"
  have o: "create_origin_vector (cr_hash X) (clk 0) v ow sp cs seed nonce difficulty = Ok (?v ?c0)"
    using assms(1) by (simp add: create_origin_vector_Ok)
  have valid: "validate_state (?v c) = Ok ()" for c
    using assms by (simp add: validate_state_eq validate_canonical_state_Ok)
      (simp add: origin_vector_def v1_new_def)
  have "\<exists>c. certify_state (cr_checks X) (clk 1) (?v ?c0) True True = Ok c"
    by (rule certify_state_returns) (use assms(6) in simp)
  then obtain c where c: "certify_state (cr_checks X) (clk 1) (?v ?c0) True True = Ok c" by blast
  have cok: "certification_ok c" using certified_again [OF c] assms(5) by simp
  have upd: "(?v ?c0)\<lparr> v1_certification := c \<rparr> = ?v c" by (simp add: origin_vector_def)
  show thesis
    by (rule that [OF cok])
      (simp add: origin_create_def Let_def try_step [OF o] try_step [OF valid] try_step [OF c [unfolded One_nat_def]] upd
        write_step record_step kept_written)
qed

text \<open>
  The one refusal that rests on the hash: the log already has an event with the hash of the new one,
  though the canonical bytes of the two are different. The error names the hash they share.
\<close>

definition hash_collision :: "crates \<Rightarrow> kernel_engine \<Rightarrow> 'a outcome \<Rightarrow> bool" where
  "hash_collision X k r \<longleftrightarrow>
     (\<exists>e. \<exists>f \<in> set (list_events (ke_store k)).
        r = Err (InvalidState (''duplicate canonical event_hash detected: '' @ cr_hash X (canonical_event_bytes e))) \<and>
        canonical_event_bytes e \<noteq> canonical_event_bytes f \<and>
        cr_hash X (canonical_event_bytes e) = cr_hash X (canonical_event_bytes f))"

lemma no_collision: "inj (cr_hash X) \<Longrightarrow> \<not> hash_collision X k r"
  by (auto simp: hash_collision_def inj_eq)

text \<open>A call refused for it makes the calls that use it fail the same way.\<close>

lemma collision_bind:
  assumes "\<not> hash_collision X (g (fst (act_bind m f s))) (snd (act_bind m f s))"
  shows "\<not> hash_collision X (g (fst (m s))) (snd (m s))"
    and "m s = (s', Ok x) \<Longrightarrow> \<not> hash_collision X (g (fst (f x s'))) (snd (f x s'))"
proof -
  have "act_bind m f s = (t, Err e)" if "m s = (t, Err e)" for t e using that by (simp add: act_bind_def)
  then show "\<not> hash_collision X (g (fst (m s))) (snd (m s))"
    using assms by (cases "m s"; cases "snd (m s)") (auto simp: hash_collision_def)
  show "\<not> hash_collision X (g (fst (f x s'))) (snd (f x s'))" if "m s = (s', Ok x)"
    using assms that by (simp add: act_bind_def)
qed

lemmas collision_step = collision_bind [where g = "\<lambda>k. k"]

text \<open>
  Where the identifiers are shorter than \<open>2^64\<close> bytes, events with different identifiers have different
  canonical bytes.
\<close>

lemma event_bytes_differ:
  assumes "ok_len (ev_event_id e)" "ok_len (ev_event_id f)" "ev_event_id e \<noteq> ev_event_id f"
  shows "canonical_event_bytes e \<noteq> canonical_event_bytes f"
proof
  assume "canonical_event_bytes e = canonical_event_bytes f"
  moreover have "\<exists>r. canonical_event_bytes g = write_str (ev_event_id g) @ r" for g
    by (simp add: canonical_event_bytes_def canonical_event_payload_bytes_def)
  ultimately obtain r q where "write_str (ev_event_id f) @ r = write_str (ev_event_id e) @ q" by metis
  then have "ev_event_id f = ev_event_id e"
    using str.enc_prefix_free [of "ev_event_id f" "ev_event_id e"] assms(1,2) by blast
  with assms(3) show False by simp
qed

definition short_ids :: "kernel_engine \<Rightarrow> bool" where
  "short_ids k \<longleftrightarrow> (\<forall>f \<in> set (list_events (ke_store k)). ok_len (ev_event_id f))"

text \<open>A valid event with a new identifier is taken, unless its hash collides.\<close>

lemma append_canonical_fresh:
  assumes ok: "store_ok (ke_store k)" and hashes: "\<forall>f \<in> set (list_events (ke_store k)).
      ev_event_hash f = canonical_event_hash (cr_hash X) f"
    and valid: "validate_event (cr_hash X) (cr_ed X) e = Ok ()"
    and H: "\<forall>b. cr_hash X b \<noteq> []" and h: "ev_event_hash e = canonical_event_hash (cr_hash X) e"
    and parents: "\<forall>p \<in> set (ev_parent_hashes e). get_event_by_hash (ke_store k) p \<noteq> None"
    and new: "short_ids k" "ok_len (ev_event_id e)" "\<forall>f \<in> set (list_events (ke_store k)). ev_event_id f \<noteq> ev_event_id e"
    and nc: "\<not> hash_collision X (fst (append_canonical_event X e k)) (snd (append_canonical_event X e k))"
  obtains t where "append_event e (ke_store k) = Ok t" "append_canonical_event X e k = (k\<lparr> ke_store := t \<rparr>, Ok ())"
proof -
  have ne: "ev_event_hash e \<noteq> []" using H h by (simp add: canonical_event_hash_def)
  have ie: "ev_event_id e \<noteq> []" using validate_event_shape [OF valid] by auto
  have "ev_event_hash e \<notin> ev_event_hash ` set (list_events (ke_store k))"
  proof
    assume "ev_event_hash e \<in> ev_event_hash ` set (list_events (ke_store k))"
    then obtain f where f: "f \<in> set (list_events (ke_store k))" "ev_event_hash f = ev_event_hash e" by auto
    then have "get_event_by_hash (ke_store k) (ev_event_hash e) \<noteq> None"
      using log.lookup_iff [OF ok, of "ev_event_hash e" f] by simp
    then have "append_event e (ke_store k) =
        Err (InvalidState (''duplicate canonical event_hash detected: '' @ ev_event_hash e))"
      using ne ie by (simp add: append_event_def get_event_by_hash_def)
    then have "append_canonical_event X e k =
        (k, Err (InvalidState (''duplicate canonical event_hash detected: '' @ ev_event_hash e)))"
      using valid ensure_parents_Ok [THEN iffD2, OF parents]
      by (simp add: append_canonical_event_def act_bind_try act_update_def ensure_parent_closure_def)
    moreover have "canonical_event_bytes e \<noteq> canonical_event_bytes f"
      by (rule event_bytes_differ) (use new f(1) in \<open>auto simp: short_ids_def\<close>)
    moreover have "ev_event_hash e = cr_hash X (canonical_event_bytes e)"
      "cr_hash X (canonical_event_bytes e) = cr_hash X (canonical_event_bytes f)"
      using f hashes h by (simp_all add: canonical_event_hash_def)
    ultimately have "hash_collision X (fst (append_canonical_event X e k)) (snd (append_canonical_event X e k))"
      unfolding hash_collision_def using f(1) by (intro exI [of _ e] bexI [of _ f]) simp_all
    with nc show False ..
  qed
  moreover have "ev_event_id e \<notin> ev_event_id ` set (list_events (ke_store k))" using new(3) by auto
  ultimately obtain t where t: "append_event e (ke_store k) = Ok t"
    using log.append_iff [OF ok, of e] ne ie by blast
  with valid parents show thesis by (intro that [OF t]) (simp add: append_canonical_event_Ok)
qed

text \<open>So a new identifier makes a transition that the log takes, unless its hash collides.\<close>

lemma log_transition_fresh:
  assumes e: "e = transition_event (cr_hash X) before after op' lc ts ps (of_nat (sequence_of k after))"
    and ps: "parents k = ps"
    and k: "kernel_ok X k'" "set (list_events (ke_store k)) = set (list_events (ke_store k'))"
      "store_ok (ke_store k)"
    and H: "\<forall>b. cr_hash X b \<noteq> []"
    and new: "short_ids k" "ok_len (ev_event_id e)"
      "\<forall>f \<in> set (list_events (ke_store k)). ev_event_id f \<noteq> ev_event_id e"
    and nc: "\<not> hash_collision X (fst (log_transition X before after op' lc ts parents k))
      (snd (log_transition X before after op' lc ts parents k))"
    and wide: "pred_option narrow before" "narrow after" "sequence_of k after < 2 ^ 64"
    and plain: "plain_transition op' after" "certification_ok (v1_certification after)"
    and ids: "trim (v1_space_id after) \<noteq> []" "trim (v1_vector_id after) \<noteq> []"
      "trim (v1_owner_pubkey after) \<noteq> []"
    and shape: "pred_option (\<lambda>st. length (v1_components st) = length (v1_components after)) before"
    and parents: "\<forall>p \<in> set ps. get_event_by_hash (ke_store k) p \<noteq> None"
  obtains t where "append_event e (ke_store k) = Ok t"
    "log_transition X before after op' lc ts parents k = (k\<lparr> ke_store := t \<rparr>, Ok ())"
proof -
  have ratio: "unat (cs_auth_ratio (v1_certification after)) \<le> 1000"
    using plain(2) by (auto simp: certification_ok_def)
  have run: "log_transition X before after op' lc ts parents k = append_canonical_event X e k"
    using wide by (simp add: log_transition_def act_bind_try build_transition_event_iff e ps)
  have hashes: "\<forall>f \<in> set (list_events (ke_store k)). ev_event_hash f = canonical_event_hash (cr_hash X) f"
    using k(1,2) by (auto simp: kernel_ok_def dest: validate_event_hashes)
  have valid: "validate_event (cr_hash X) (cr_ed X) e = Ok ()"
    unfolding e using ids shape by (subst transition_event_valid [OF plain(1) ratio]) (auto split: option.split)
  have parents': "\<forall>p \<in> set (ev_parent_hashes e). get_event_by_hash (ke_store k) p \<noteq> None"
    using parents by (simp add: e)
  show thesis
    by (rule append_canonical_fresh [OF k(3) hashes valid H transition_event_hashes(2) [OF e] parents' new nc [unfolded run]])
      (rule that, simp_all add: run)
qed

lemma written_ok: "store_ok (ke_store k) \<Longrightarrow> store_ok (ke_store (written sts rs k))"
  by (simp add: written_def vectors.ok_puts audit.ok_puts)

lemma sequence_of_written [simp]: "sequence_of (written sts rs k) st = sequence_of k st"
  by (simp add: sequence_of_def)

lemma origin_create_succeeds:
  assumes "kernel_ok X k" "\<not> hash_collision X (fst (origin_create X clk v ow sp cs seed nonce difficulty k))
      (snd (origin_create X clk v ow sp cs seed nonce difficulty k))" "\<forall>b. cr_hash X b \<noteq> []" "short_ids k"
    and "verify_origin (cr_hash X) seed nonce difficulty"
    and "trim v \<noteq> []" "trim ow \<noteq> []" "trim sp \<noteq> []" "v \<noteq> []" "ow \<noteq> []" "sp \<noteq> []" "cs \<noteq> []"
    and "nat_sum cs < 2 ^ 128" "\<forall>c \<in> set cs. unat c < 2 ^ 64"
    and "length (filter (\<lambda>e. ev_entity_id e = v \<and> ev_region_id e = sp) (load_events_for_replay (ke_store k))) = n"
    and "n + 1 < 2 ^ 64" "i = canonical_event_id v sp Op_OriginCreate 1 (of_nat (n + 1))" "ok_len i"
    and "\<forall>f \<in> set (list_events (ke_store k)). ev_event_id f \<noteq> i"
  obtains k' c e where
    "origin_create X clk v ow sp cs seed nonce difficulty k =
       (k', Ok (origin_vector (cr_hash X) (clk 0) v ow sp cs seed nonce difficulty c))"
    "certification_ok c" "kernel_ok X k'"
    "get_state (ke_store k') =
       (get_state (ke_store k))(v \<mapsto> origin_vector (cr_hash X) (clk 0) v ow sp cs seed nonce difficulty c)"
    "mset (list_events (ke_store k')) = add_mset e (mset (list_events (ke_store k)))"
    "ev_event_id e = i" "ev_entity_id e = v" "ev_region_id e = sp" "ev_event_hash e = canonical_event_hash (cr_hash X) e"
proof -
  obtain c r where c: "certification_ok c"
    "origin_create X clk v ow sp cs seed nonce difficulty k =
       act_bind (log_transition X None (origin_vector (cr_hash X) (clk 0) v ow sp cs seed nonce difficulty c)
           Op_OriginCreate 1 (clk 0) (\<lambda>k. []))
         (\<lambda>_. act_return (origin_vector (cr_hash X) (clk 0) v ow sp cs seed nonce difficulty c))
         (written [origin_vector (cr_hash X) (clk 0) v ow sp cs seed nonce difficulty c] [r] k)"
    by (rule origin_create_run [OF assms(5,9-13)])
  let ?v = "origin_vector (cr_hash X) (clk 0) v ow sp cs seed nonce difficulty c"
  let ?k = "written [?v] [r] k"
  define e where "e = transition_event (cr_hash X) None ?v Op_OriginCreate 1 (clk 0) [] (of_nat (sequence_of ?k ?v))"
  have ok: "store_ok (ke_store k)" using assms(1) by (simp add: kernel_ok_def)
  have seq: "sequence_of ?k ?v = n + 1" using assms(15) by (simp add: sequence_of_def)
  have i: "ev_event_id e = i" using assms(17) by (simp add: e_def seq del: sequence_of_written)
  obtain t where t: "append_event e (ke_store ?k) = Ok t"
    "log_transition X None ?v Op_OriginCreate 1 (clk 0) (\<lambda>k. []) ?k = (?k\<lparr> ke_store := t \<rparr>, Ok ())"
    by (rule log_transition_fresh [of e X None ?v Op_OriginCreate 1 "clk 0" "[]" ?k "\<lambda>k. []",
          OF e_def refl assms(1) _ written_ok [OF ok] assms(3) _ _ _ collision_step(1) [OF assms(2) [unfolded c(2)]]])
      (use assms c i seq in \<open>simp_all add: short_ids_def narrow_def plain_transition_def\<close>)
  have run: "origin_create X clk v ow sp cs seed nonce difficulty k = (?k\<lparr> ke_store := t \<rparr>, Ok ?v)"
    unfolding c(2) by (simp add: act_bind_def t(2) act_return_def)
  show thesis
  proof (rule that [OF run c(1) _ _ _ i])
    show "kernel_ok X (?k\<lparr> ke_store := t \<rparr>)"
      using keepsD [OF origin_create_keeps assms(1) run] by blast
    show "get_state (ke_store (?k\<lparr> ke_store := t \<rparr>)) = (get_state (ke_store k))(v \<mapsto> ?v)"
      by (simp add: append_event_frame [OF t(1)] fun_eq_iff vectors.get_put)
    show "mset (list_events (ke_store (?k\<lparr> ke_store := t \<rparr>))) = add_mset e (mset (list_events (ke_store k)))"
      using store_ok_append(2) [OF written_ok [OF ok] t(1)] by simp
    show "ev_entity_id e = v" "ev_region_id e = sp" by (simp_all add: e_def)
    show "ev_event_hash e = canonical_event_hash (cr_hash X) e"
      by (rule transition_event_hashes(2) [OF e_def])
  qed
qed

lemma transfer_record_runs:
  assumes "nat_sum (v1_components a) < 2 ^ 128" "nat_sum (v1_components b) < 2 ^ 128"
    and "json_u128s SD amount = Ok j"
  obtains r q where "transfer_record chk H SD n1 n2 n3 n4 st st' a b amount = Ok (r, q)"
    "vr_operation r = OK_Transfer" "vr_operation q = OK_Transfer"
proof -
  obtain c1 c2 where "certify_state chk n1 a True True = Ok c1" "certify_state chk n2 b True True = Ok c2"
    using certify_state_returns [OF assms(1)] certify_state_returns [OF assms(2)] by metis
  then show thesis using that by (simp add: transfer_record_def assms(3) Let_def)
qed

lemma transfer_run:
  assumes g: "get_state (ke_store k) v = Some st" "get_state (ke_store k) w = Some st'"
    and t: "transfer_components st st' amount = Ok (mid, mid')"
    and ok: "stored_ok st" "stored_ok st'"
    and sums: "nat_sum (v1_components mid) < 2 ^ 128" "nat_sum (v1_components mid') < 2 ^ 128"
    and j: "json_u128s (cr_serde X) amount = Ok j"
  obtains c c' r r' where "certification_ok c" "certification_ok c'"
    "transfer X clk v w amount k =
       act_bind (log_transition X (Some st) (mid\<lparr> v1_certification := c \<rparr>) Op_Transfer (v1_version mid) (clk 6)
           (\<lambda>k. latest_parent_hash_for_entity k (v1_vector_id mid))) (\<lambda>_.
       act_bind (log_transition X (Some st') (mid'\<lparr> v1_certification := c' \<rparr>) Op_Transfer (v1_version mid') (clk 7)
           (\<lambda>k. latest_parent_hash_for_entity k (v1_vector_id mid'))) (\<lambda>_.
       act_return (mid\<lparr> v1_certification := c \<rparr>, mid'\<lparr> v1_certification := c' \<rparr>)))
         (written [mid\<lparr> v1_certification := c \<rparr>, mid'\<lparr> v1_certification := c' \<rparr>] [r, r'] k)"
proof -
  note m = t [unfolded transfer_components_Ok]
  have ne: "v1_components st \<noteq> []" "v1_components st' \<noteq> []"
    using ok by (simp_all add: stored_ok_def validate_state_eq validate_canonical_state_Ok)
  obtain c c' where c: "certify_state (cr_checks X) (clk 0) mid True True = Ok c"
    "certify_state (cr_checks X) (clk (Suc 0)) mid' True True = Ok c'"
    using certify_state_returns [OF sums(1)] certify_state_returns [OF sums(2)] by metis
  have thr: "cs_threshold (v1_certification mid) = 700" "cs_threshold (v1_certification mid') = 700"
    using m stored_threshold [OF ok(1)] stored_threshold [OF ok(2)] by simp_all
  have nm: "v1_components mid \<noteq> []" "v1_components mid' \<noteq> []"
    using m ne by (auto simp: zip_eq_Nil_iff)
  let ?a = "mid\<lparr> v1_certification := c \<rparr>" and ?b = "mid'\<lparr> v1_certification := c' \<rparr>"
  have valid: "validate_state ?a = Ok ()" "validate_state ?b = Ok ()"
    using ok nm m by (auto simp: stored_ok_def validate_state_eq validate_canonical_state_Ok)
  obtain r q where r: "transfer_record (cr_checks X) (cr_hash X) (cr_serde X) (clk 2) (clk 3) (clk 4) (clk 5)
      st st' ?a ?b amount = Ok (r, q)" "vr_operation r = OK_Transfer" "vr_operation q = OK_Transfer"
    by (rule transfer_record_runs [of ?a ?b "cr_serde X" amount j]) (use sums j in simp_all)
  have "certification_ok c" "certification_ok c'"
    using certified_again [OF c(1) thr(1) nm(1)] certified_again [OF c(2) thr(2) nm(2)] by simp_all
  then show thesis
    by (rule that [where r = "r\<lparr> vr_certification := c \<rparr>" and r' = "q\<lparr> vr_certification := c' \<rparr>"])
      (simp add: transfer_def Let_def fetch_step [OF g(1)] fetch_step [OF g(2)] try_step [OF t]
        try_step [OF c(1)] try_step [OF c(2)] try_step [OF valid(1)] try_step [OF valid(2)] try_step [OF r(1)] r(2,3)
        write_step record_step kept_written)
qed

lemma latest_parent_logged:
  assumes "store_ok (ke_store k)" "p \<in> set (latest_parent_hash_for_entity k v)"
  shows "get_event_by_hash (ke_store k) p \<noteq> None"
proof -
  let ?es = "rev (sort_key canonical_event_sort_key (load_events_for_replay (ke_store k)))"
  obtain e where e: "find (\<lambda>e. ev_entity_id e = v) ?es = Some e" "p = ev_event_hash e"
    using assms(2) by (cases "find (\<lambda>e. ev_entity_id e = v) ?es") (simp_all add: latest_parent_hash_for_entity_def Let_def)
  from find_SomeD [OF e(1)] have "e \<in> set (load_events_for_replay (ke_store k))" by simp
  then have "e \<in> set (list_events (ke_store k))" using load_events_mset by (metis mset_eq_setD)
  with e(2) show ?thesis using log.lookup_iff [OF assms(1), of p e] by auto
qed

end
