(* ===== verification/Engine_Runs.thy ===== *)
theory Engine_Runs
  imports Engine_Log
begin

text \<open>
  When operations of the kernel succeed, a sample run, and the properties of every run: the invariant
  of the reachable kernels, and the log that is only appended to.
\<close>

section \<open>When a transfer succeeds\<close>

lemma sequence_of_mset:
  "sequence_of k st = size (filter_mset (\<lambda>e. ev_entity_id e = v1_vector_id st \<and> ev_region_id e = v1_space_id st)
     (mset (list_events (ke_store k)))) + 1"
proof -
  have "length (filter p (load_events_for_replay s)) = size (filter_mset p (mset (list_events s)))" for p s
    unfolding load_events_mset [symmetric] by (metis mset_filter size_mset)
  then show ?thesis by (simp add: sequence_of_def)
qed

definition transfer_id :: "vector_state_v1 \<Rightarrow> nat \<Rightarrow> string" where
  "transfer_id st n = canonical_event_id (v1_vector_id st) (v1_space_id st) Op_Transfer (v1_version st) (of_nat n)"

text \<open>What a party to a transfer must be: stored, with components an event can hold, and named.\<close>

definition party :: "kernel_engine \<Rightarrow> string \<Rightarrow> vector_state_v1 \<Rightarrow> bool" where
  "party k v st \<longleftrightarrow> get_state (ke_store k) v = Some st \<and> narrow st \<and>
     trim (v1_space_id st) \<noteq> [] \<and> trim (v1_vector_id st) \<noteq> [] \<and> trim (v1_owner_pubkey st) \<noteq> []"

definition unused_id :: "kernel_engine \<Rightarrow> string \<Rightarrow> bool" where
  "unused_id k i \<longleftrightarrow> ok_len i \<and> (\<forall>f \<in> set (list_events (ke_store k)). ev_event_id f \<noteq> i)"

lemma narrow_sub: "length xs = length ys \<Longrightarrow> \<forall>c \<in> set xs. unat c < (n :: nat) \<Longrightarrow>
     \<forall>c \<in> set (map2 saturating_sub xs ys). unat c < n"
  by (induction xs ys rule: list_induct2) (auto simp: unat_saturating_sub)

lemma narrow_add:
  "length xs = length ys \<Longrightarrow> list_all2 (\<lambda>x y. unat x + unat y < 2 ^ 64) xs ys \<Longrightarrow>
     \<forall>c \<in> set (map2 saturating_add xs ys). unat (c :: u128) < 2 ^ 64"
  by (induction xs ys rule: list_induct2) (auto simp: unat_saturating_add)

lemma transfer_logs_parts:
  assumes k: "kernel_ok X k"
    and nc: "\<not> hash_collision X (fst (transfer X clk v w amount k)) (snd (transfer X clk v w amount k))"
    and H: "\<forall>b. cr_hash X b \<noteq> []" and short: "short_ids k"
    and p: "party k v st" "party k w st'"
    and dim: "length (v1_components st) = length amount" "length (v1_components st') = length amount"
    and funds: "\<forall>i < length amount. amount ! i \<le> v1_components st ! i"
    and room: "list_all2 (\<lambda>x y. unat x + unat y < 2 ^ 64) (v1_components st') amount"
    and sums: "nat_sum (v1_components st) < 2 ^ 128" "nat_sum (v1_components st') + nat_sum amount < 2 ^ 128"
    and j: "json_u128s (cr_serde X) amount = Ok j"
    and n: "n = sequence_of k st" "n' = (if v = w then n + 1 else sequence_of k st')" "n < 2 ^ 64" "n' < 2 ^ 64"
    and ids: "unused_id k (transfer_id st n)" "unused_id k (transfer_id st' n')" "transfer_id st n \<noteq> transfer_id st' n'"
  obtains k' a b e e' where "transfer X clk v w amount k = (k', Ok (a, b))"
    "mset (list_events (ke_store k')) = add_mset e' (add_mset e (mset (list_events (ke_store k))))"
    "ev_event_id e = transfer_id st n" "ev_event_id e' = transfer_id st' n'"
proof -
  have ok: "store_ok (ke_store k)" using k by (simp add: kernel_ok_def)
  have g: "get_state (ke_store k) v = Some st" "get_state (ke_store k) w = Some st'"
    using p by (simp_all add: party_def)
  have vid: "v1_vector_id st = v" "v1_vector_id st' = w"
    by (rule vectors.get_key [OF ok g(1)], rule vectors.get_key [OF ok g(2)])
  have st: "stored_ok st" "stored_ok st'"
    using k g vectors.values_get [OF ok, of st] vectors.values_get [OF ok, of st'] vid
    by (simp_all add: kernel_ok_def)
  let ?m = "st\<lparr> v1_components := map2 saturating_sub (v1_components st) amount, v1_vector_type := VT_Standard \<rparr>"
  let ?m' = "st'\<lparr> v1_components := map2 saturating_add (v1_components st') amount, v1_vector_type := VT_Standard \<rparr>"
  have t: "transfer_components st st' amount = Ok (?m, ?m')"
    using dim funds by (simp add: transfer_components_Ok)
  have s: "nat_sum (v1_components ?m) < 2 ^ 128" "nat_sum (v1_components ?m') < 2 ^ 128"
    using transfer_components_conserves_parts(1) [OF t] sums nat_sum_map2_add_le [OF dim(2)]
    by (simp_all)
  obtain c c' r r' where c: "certification_ok c" "certification_ok c'" and
    run: "transfer X clk v w amount k =
       act_bind (log_transition X (Some st) (?m\<lparr> v1_certification := c \<rparr>) Op_Transfer (v1_version ?m) (clk 6)
           (\<lambda>k. latest_parent_hash_for_entity k (v1_vector_id ?m))) (\<lambda>_.
       act_bind (log_transition X (Some st') (?m'\<lparr> v1_certification := c' \<rparr>) Op_Transfer (v1_version ?m') (clk 7)
           (\<lambda>k. latest_parent_hash_for_entity k (v1_vector_id ?m'))) (\<lambda>_.
       act_return (?m\<lparr> v1_certification := c \<rparr>, ?m'\<lparr> v1_certification := c' \<rparr>)))
         (written [?m\<lparr> v1_certification := c \<rparr>, ?m'\<lparr> v1_certification := c' \<rparr>] [r, r'] k)"
    by (rule transfer_run [OF g t st s j, where clk = clk])
  let ?a = "?m\<lparr> v1_certification := c \<rparr>" and ?b = "?m'\<lparr> v1_certification := c' \<rparr>"
  let ?k = "written [?a, ?b] [r, r'] k"
  note nc1 = collision_step [OF nc [unfolded run]]
  have nar: "narrow st" "narrow st'" "narrow ?a" "narrow ?b"
    using p narrow_sub [OF dim(1), of "2 ^ 64"] narrow_add [OF dim(2) room] by (simp_all add: party_def narrow_def)
  define ps where "ps = latest_parent_hash_for_entity ?k v"
  define e where "e = transition_event (cr_hash X) (Some st) ?a Op_Transfer (v1_version st) (clk 6) ps
    (of_nat (sequence_of ?k ?a))"
  have seq: "sequence_of ?k ?a = n" using n(1) by (simp add: sequence_of_def)
  have eid: "ev_event_id e = transfer_id st n" by (simp add: e_def seq transfer_id_def del: sequence_of_written)
  obtain t1 where t1: "append_event e (ke_store ?k) = Ok t1"
    "log_transition X (Some st) ?a Op_Transfer (v1_version st) (clk 6)
       (\<lambda>k. latest_parent_hash_for_entity k v) ?k = (?k\<lparr> ke_store := t1 \<rparr>, Ok ())"
    by (rule log_transition_fresh [of e X "Some st" ?a Op_Transfer "v1_version st" "clk 6" ps ?k
          "\<lambda>k. latest_parent_hash_for_entity k v", OF e_def ps_def [symmetric] k _ written_ok [OF ok] H])
      (use nc1(1) vid short ids(1) nar seq n(3) c(1) p(1) dim latest_parent_logged [OF written_ok [OF ok], of _ _ _ v]
        in \<open>simp_all add: eid unused_id_def short_ids_def plain_transition_def party_def ps_def del: written_frame(3)\<close>)
  let ?k1 = "?k\<lparr> ke_store := t1 \<rparr>"
  have nc2: "\<not> hash_collision X (fst (log_transition X (Some st') ?b Op_Transfer (v1_version st') (clk 7)
      (\<lambda>k. latest_parent_hash_for_entity k w) ?k1)) (snd (log_transition X (Some st') ?b Op_Transfer (v1_version st') (clk 7)
      (\<lambda>k. latest_parent_hash_for_entity k w) ?k1))"
    using collision_step(1) [OF nc1(2) [of ?k1 "()"]] t1(2) vid by simp
  have ok1: "store_ok (ke_store ?k1)" and ev1: "mset (list_events t1) = add_mset e (mset (list_events (ke_store k)))"
    using store_ok_append [OF written_ok [OF ok] t1(1)] by simp_all
  obtain t0 where t0: "append_event e (ke_store k) = Ok t0"
    using log.append_iff [OF ok, of e] log.append_iff [OF written_ok [OF ok], of e "[?a, ?b]" "[r, r']"] t1(1) by auto
  have k0: "kernel_ok X (k\<lparr> ke_store := t0 \<rparr>)"
  proof (rule kernel_ok_append [OF k t0])
    have "append_canonical_event X e ?k = (?k1, Ok ())"
      using t1(2) seq by (simp add: log_transition_Ok e_def ps_def del: sequence_of_written)
    then show "validate_event (cr_hash X) (cr_ed X) e = Ok ()"
      "\<forall>p \<in> set (ev_parent_hashes e). get_event_by_hash (ke_store k) p \<noteq> None"
      by (simp_all add: append_canonical_event_Ok)
  qed
  have ev0: "set (list_events t1) = set (list_events t0)"
    using ev1 store_ok_append(2) [OF ok t0] by (metis mset_eq_setD)
  have evs: "set (list_events t1) = insert e (set (list_events (ke_store k)))"
    using mset_eq_setD [of "list_events t1" "e # list_events (ke_store k)"] ev1 by simp
  have seq': "sequence_of ?k1 ?b = n'"
  proof (cases "v = w")
    case True
    then have "st' = st" using g by simp
    with n True vid show ?thesis by (simp add: sequence_of_mset ev1 e_def)
  next
    case False
    with n vid show ?thesis by (simp add: sequence_of_mset ev1 e_def)
  qed
  define qs where "qs = latest_parent_hash_for_entity ?k1 w"
  define e' where "e' = transition_event (cr_hash X) (Some st') ?b Op_Transfer (v1_version st') (clk 7) qs
    (of_nat (sequence_of ?k1 ?b))"
  have eid': "ev_event_id e' = transfer_id st' n'" by (simp add: e'_def seq' transfer_id_def)
  have parents: "\<forall>p \<in> set qs. get_event_by_hash (ke_store ?k1) p \<noteq> None"
    using latest_parent_logged [OF ok1] by (simp add: qs_def)
  have short1: "short_ids ?k1"
    using short ids(1) evs eid by (auto simp: short_ids_def unused_id_def)
  have new1: "\<forall>f \<in> set (list_events (ke_store ?k1)). ev_event_id f \<noteq> ev_event_id e'"
    using ids(2,3) evs eid eid' by (auto simp: unused_id_def)
  obtain t2 where t2: "append_event e' (ke_store ?k1) = Ok t2"
    "log_transition X (Some st') ?b Op_Transfer (v1_version st') (clk 7)
       (\<lambda>k. latest_parent_hash_for_entity k w) ?k1 = (?k1\<lparr> ke_store := t2 \<rparr>, Ok ())"
    by (rule log_transition_fresh [of e' X "Some st'" ?b Op_Transfer "v1_version st'" "clk 7" qs ?k1
          "\<lambda>k. latest_parent_hash_for_entity k w", OF e'_def qs_def [symmetric] k0 _ ok1 H short1 _ new1 nc2])
      (use ids(2) nar seq' n(4) c(2) p(2) dim parents ev0
        in \<open>simp_all add: eid' unused_id_def plain_transition_def party_def\<close>)
  have "transfer X clk v w amount k = (?k1\<lparr> ke_store := t2 \<rparr>, Ok (?a, ?b))"
    unfolding run using t1(2) t2(2) by (simp add: act_bind_def vid act_return_def)
  moreover have "mset (list_events t2) = add_mset e' (add_mset e (mset (list_events (ke_store k))))"
    using store_ok_append(2) [OF ok1 t2(1)] ev1 by simp
  ultimately show thesis using that eid eid' by force
qed


section \<open>A sample run\<close>

definition sample_crates :: crates where
  "sample_crates = \<lparr> cr_checks = True, cr_hash = sample_hash, cr_ed = sample_ed25519,
     cr_hex_encode = sample_hash, cr_map_json = sample_json, cr_region_json = sample_json,
     cr_serde = sample_serde \<rparr>"

lemma sample_hash_inj: "inj sample_hash"
  using inj_from_bytes by (auto simp: inj_def sample_hash_def)

lemma sample_crates_hash:
  "\<not> hash_collision sample_crates k r" "\<forall>b. cr_hash sample_crates b \<noteq> []"
  "verify_origin (cr_hash sample_crates) seed nonce 0"
proof -
  show "\<not> hash_collision sample_crates k r" by (rule no_collision) (simp add: sample_crates_def sample_hash_inj)
qed (simp_all add: sample_crates_def sample_hash_def verify_origin_def)

lemma small_numbers:
  "show_word (1 :: u64) = ''1''" "show_word (2 :: u64) = ''2''" "show_word (3 :: u64) = ''3''"
  by code_simp+

lemma sample_names:
  "trim ''v-a'' = ''v-a''" "trim ''v-b'' = ''v-b''" "trim ''sp'' = ''sp''" "trim ''pk'' = ''pk''"
  by (rule trim_all_solid, simp add: solid_def)+

text \<open>Two vectors of two components, each with its origin in the log.\<close>

lemma sample_kernel:
  obtains k st st' e e' where "kernel_steps sample_crates kernel_new k" "kernel_ok sample_crates k"
    "party k ''v-a'' st" "party k ''v-b'' st'" "v1_version st = 1" "v1_version st' = 1"
    "v1_components st = [1000, 2000]" "v1_components st' = [50, 75]" "v1_space_id st = ''sp''" "v1_space_id st' = ''sp''"
    "v1_vector_id st = ''v-a''" "v1_vector_id st' = ''v-b''" "v1_projection st = None"
    "mset (list_events (ke_store k)) = {# e, e' #}"
    "ev_event_id e = ''v-a::sp::ORIGIN_CREATE::1::1''" "ev_event_id e' = ''v-b::sp::ORIGIN_CREATE::1::1''"
    "ev_entity_id e = ''v-a''" "ev_entity_id e' = ''v-b''" "ev_region_id e = ''sp''" "ev_region_id e' = ''sp''"
proof -
  let ?X = sample_crates
  have k0: "kernel_ok ?X kernel_new" "list_events (ke_store kernel_new) = []"
    using kernel_ok_new by (simp_all add: kernel_new_def store_default_def list_events_def)
  then have l0: "load_events_for_replay (ke_store kernel_new) = []"
    by (simp add: kernel_new_def store_default_def load_events_for_replay_def)
  have s0: "short_ids kernel_new" using k0 by (simp add: short_ids_def)
  have ids: "canonical_event_id ''v-a'' ''sp'' Op_OriginCreate 1 1 = ''v-a::sp::ORIGIN_CREATE::1::1''"
    "canonical_event_id ''v-b'' ''sp'' Op_OriginCreate 1 1 = ''v-b::sp::ORIGIN_CREATE::1::1''"
    by (simp_all add: canonical_event_id_def small_numbers)
  obtain k1 c e where 1:
    "origin_create ?X (\<lambda>_. 5) ''v-a'' ''pk'' ''sp'' [1000, 2000] ''s'' 0 0 kernel_new =
       (k1, Ok (origin_vector (cr_hash ?X) 5 ''v-a'' ''pk'' ''sp'' [1000, 2000] ''s'' 0 0 c))"
    "kernel_ok ?X k1"
    "get_state (ke_store k1) = (get_state (ke_store kernel_new))
       (''v-a'' \<mapsto> origin_vector (cr_hash ?X) 5 ''v-a'' ''pk'' ''sp'' [1000, 2000] ''s'' 0 0 c)"
    "mset (list_events (ke_store k1)) = add_mset e (mset (list_events (ke_store kernel_new)))"
    "ev_event_id e = ''v-a::sp::ORIGIN_CREATE::1::1''" "ev_entity_id e = ''v-a''" "ev_region_id e = ''sp''"
    by (rule origin_create_succeeds [where X = ?X and k = kernel_new and clk = "\<lambda>_. 5" and v = "''v-a''" and ow = "''pk''"
          and sp = "''sp''" and cs = "[1000, 2000]" and seed = "''s''" and nonce = 0 and difficulty = 0
          and n = 0 and i = "''v-a::sp::ORIGIN_CREATE::1::1''",
          OF k0(1) sample_crates_hash(1,2) s0 sample_crates_hash(3)])
      (use k0 l0 ids in \<open>simp_all add: sample_names ok_len_def\<close>)
  have ev1: "list_events (ke_store k1) = [e]" using 1(4) k0(2) by simp
  have "mset (load_events_for_replay (ke_store k1)) = {# e #}" by (simp add: load_events_mset ev1)
  then have l1: "load_events_for_replay (ke_store k1) = [e]" by simp
  have s1: "short_ids k1" using 1(5) by (simp add: short_ids_def ev1 ok_len_def)
  obtain k2 c' e' where 2:
    "origin_create ?X (\<lambda>_. 6) ''v-b'' ''pk'' ''sp'' [50, 75] ''s'' 0 0 k1 =
       (k2, Ok (origin_vector (cr_hash ?X) 6 ''v-b'' ''pk'' ''sp'' [50, 75] ''s'' 0 0 c'))"
    "kernel_ok ?X k2"
    "get_state (ke_store k2) = (get_state (ke_store k1))
       (''v-b'' \<mapsto> origin_vector (cr_hash ?X) 6 ''v-b'' ''pk'' ''sp'' [50, 75] ''s'' 0 0 c')"
    "mset (list_events (ke_store k2)) = add_mset e' (mset (list_events (ke_store k1)))"
    "ev_event_id e' = ''v-b::sp::ORIGIN_CREATE::1::1''" "ev_entity_id e' = ''v-b''" "ev_region_id e' = ''sp''"
    by (rule origin_create_succeeds [where X = ?X and k = k1 and clk = "\<lambda>_. 6" and v = "''v-b''" and ow = "''pk''"
          and sp = "''sp''" and cs = "[50, 75]" and seed = "''s''" and nonce = 0 and difficulty = 0
          and n = 0 and i = "''v-b::sp::ORIGIN_CREATE::1::1''",
          OF 1(2) sample_crates_hash(1,2) s1 sample_crates_hash(3)])
      (use 1(5,6) l1 ids in \<open>simp_all add: sample_names ok_len_def ev1\<close>)
  have steps: "kernel_steps ?X kernel_new k2"
    using 1(1) 2(1) by (meson kernel_steps.intros step_origin_create)
  show thesis
    by (rule that [OF steps 2(2), where st = "origin_vector (cr_hash ?X) 5 ''v-a'' ''pk'' ''sp'' [1000, 2000] ''s'' 0 0 c"
          and st' = "origin_vector (cr_hash ?X) 6 ''v-b'' ''pk'' ''sp'' [50, 75] ''s'' 0 0 c'" and e = e and e' = e'])
      (use 1 2 ev1 in \<open>simp_all add: party_def narrow_def sample_names origin_vector_def v1_new_def\<close>)
qed

text \<open>On it the first vector can transfer to either vector.\<close>

lemma sample_transfer_ready:
  assumes "w \<in> {''v-a'', ''v-b''}"
  obtains k st q j n e where "kernel_steps sample_crates kernel_new k" "e \<in> set (list_events (ke_store k))"
    "kernel_ok sample_crates k" "short_ids k" "party k ''v-a'' st" "party k w q"
    "length (v1_components st) = length [250, 250 :: u128]" "length (v1_components q) = length [250, 250 :: u128]"
    "\<forall>i < length [250, 250 :: u128]. [250, 250] ! i \<le> v1_components st ! i"
    "list_all2 (\<lambda>x y. unat x + unat y < 2 ^ 64) (v1_components q) [250, 250 :: u128]"
    "nat_sum (v1_components st) < 2 ^ 128" "nat_sum (v1_components q) + nat_sum [250, 250 :: u128] < 2 ^ 128"
    "json_u128s (cr_serde sample_crates) [250, 250] = Ok j"
    "2 = sequence_of k st" "n = (if ''v-a'' = w then 2 + 1 else sequence_of k q)"
    "unused_id k (transfer_id st 2)" "unused_id k (transfer_id q n)" "transfer_id st 2 \<noteq> transfer_id q n"
    "n < 2 ^ 64"
proof -
  obtain k st st' e e' where k: "kernel_steps sample_crates kernel_new k" "kernel_ok sample_crates k"
    "party k ''v-a'' st" "party k ''v-b'' st'" "v1_version st = 1" "v1_version st' = 1"
    "v1_components st = [1000, 2000]" "v1_components st' = [50, 75]" "v1_space_id st = ''sp''" "v1_space_id st' = ''sp''"
    "v1_vector_id st = ''v-a''" "v1_vector_id st' = ''v-b''"
    "mset (list_events (ke_store k)) = {# e, e' #}"
    "ev_event_id e = ''v-a::sp::ORIGIN_CREATE::1::1''" "ev_event_id e' = ''v-b::sp::ORIGIN_CREATE::1::1''"
    "ev_entity_id e = ''v-a''" "ev_entity_id e' = ''v-b''" "ev_region_id e = ''sp''" "ev_region_id e' = ''sp''"
    by (rule sample_kernel) (rule that; assumption)
  have es: "set (list_events (ke_store k)) = {e, e'}"
    using mset_eq_setD [of "list_events (ke_store k)" "[e, e']"] k(13) by simp
  have short: "short_ids k" using k(14,15) by (simp add: short_ids_def es ok_len_def)
  have j: "json_u128s (cr_serde sample_crates) [250, 250] = Ok (JArray [json_word (250 :: u128), json_word (250 :: u128)])"
    by (simp add: json_u128s_def sample_crates_def sample_serde_def Let_def)
  have seq: "2 = sequence_of k st" "2 = sequence_of k st'"
    using k(9-12,16-19) by (simp_all add: sequence_of_mset k(13))
  have ids: "transfer_id st 2 = ''v-a::sp::TRANSFER::1::2''" "transfer_id st 3 = ''v-a::sp::TRANSFER::1::3''"
    "transfer_id st' 2 = ''v-b::sp::TRANSFER::1::2''"
    using k(5,6,9-12) by (simp_all add: transfer_id_def canonical_event_id_def small_numbers)
  have unused: "unused_id k ''v-a::sp::TRANSFER::1::2''" "unused_id k ''v-a::sp::TRANSFER::1::3''"
    "unused_id k ''v-b::sp::TRANSFER::1::2''"
    using k(14,15) by (simp_all add: unused_id_def es ok_len_def)
  have num: "\<forall>i < length [250, 250 :: u128]. [250, 250 :: u128] ! i \<le> [1000, 2000] ! i"
    by (simp add: less_Suc_eq)
  define q where "q = (if w = ''v-a'' then st else st')"
  show thesis
    by (rule that [OF k(1) _ k(2) short k(3), where q = q and e = e
          and n = "if w = ''v-a'' then 3 else 2", OF _ _ _ _ _ _ _ _ j])
      (use assms k num seq ids unused es in \<open>auto simp: q_def\<close>)
qed

lemma sample_transfer_run:
  assumes "w \<in> {''v-a'', ''v-b''}"
  obtains k k' a b e where "kernel_steps sample_crates kernel_new k" "kernel_ok sample_crates k"
    "e \<in> set (list_events (ke_store k))"
    "transfer sample_crates (\<lambda>_. 9) ''v-a'' w [250, 250] k = (k', Ok (a, b))"
proof (rule sample_transfer_ready [OF assms])
  fix k st q j n e
  assume r: "kernel_steps sample_crates kernel_new k" "e \<in> set (list_events (ke_store k))"
    "kernel_ok sample_crates k" "short_ids k" "party k ''v-a'' st" "party k w q"
    "length (v1_components st) = length [250, 250 :: u128]" "length (v1_components q) = length [250, 250 :: u128]"
    "\<forall>i < length [250, 250 :: u128]. [250, 250] ! i \<le> v1_components st ! i"
    "list_all2 (\<lambda>x y. unat x + unat y < 2 ^ 64) (v1_components q) [250, 250 :: u128]"
    "nat_sum (v1_components st) < 2 ^ 128" "nat_sum (v1_components q) + nat_sum [250, 250 :: u128] < 2 ^ 128"
    "json_u128s (cr_serde sample_crates) [250, 250] = Ok j"
    "2 = sequence_of k st" "n = (if ''v-a'' = w then 2 + 1 else sequence_of k q)"
    "unused_id k (transfer_id st 2)" "unused_id k (transfer_id q n)" "transfer_id st 2 \<noteq> transfer_id q n"
    "n < 2 ^ 64"
  show thesis
    by (rule transfer_logs_parts [OF r(3) sample_crates_hash(1,2) r(4-15) _ r(19) r(16-18), of "\<lambda>_. 9"])
      (simp, rule that [OF r(1,3,2)])
qed

section \<open>Properties\<close>

text \<open>
  C2: Whatever operations are called, with whatever arguments and whatever they return, the kernel
  stays well formed: a vector is stored under its identifier, it is canonical, and it is certified, with
  the default threshold and the ratio 700 or 1000; every event of the log passed the validation, is
  found under its hash, has all of its parents in the log and an identifier of its own; and every
  record is one the consensus policy accepts.
\<close>

theorem kernel_invariant:
  assumes "kernel_steps X kernel_new k"
  shows "(\<forall>v st. get_state (ke_store k) v = Some st \<longrightarrow>
      v1_vector_id st = v \<and> validate_state st = Ok () \<and> cs_certified (v1_certification st) \<and>
      cs_threshold (v1_certification st) = 700 \<and> cs_auth_ratio (v1_certification st) \<in> {700, 1000}) \<and>
    (\<forall>h e. get_event_by_hash (ke_store k) h = Some e \<longrightarrow>
      ev_event_hash e = h \<and> validate_event (cr_hash X) (cr_ed X) e = Ok () \<and>
      (\<forall>p \<in> set (ev_parent_hashes e). get_event_by_hash (ke_store k) p \<noteq> None)) \<and>
    distinct (map ev_event_id (list_events (ke_store k))) \<and>
    (\<forall>r \<in> set (list_records (ke_store k)). accept_record r policy_default)"
proof -
  have k: "kernel_ok X k" by (rule kernel_steps_ok [OF assms kernel_ok_new])
  then have ok: "store_ok (ke_store k)" by (simp add: kernel_ok_def)
  have "ke_consensus k = policy_default"
    using kernel_steps_extends [OF assms] by (simp add: extends_def kernel_new_def)
  moreover have "v1_vector_id st = v \<and> stored_ok st" if "get_state (ke_store k) v = Some st" for v st
    using vectors.get_key [OF ok that] vectors.values_get [OF ok, of st] that k by (simp add: kernel_ok_def)
  moreover have "distinct (map ev_event_id (list_events (ke_store k)))"
    using ok by (simp add: store_ok_def list_events_def)
  ultimately show ?thesis
    using k log.lookup_iff [OF ok] by (auto simp: kernel_ok_def stored_ok_def certification_ok_def)
qed

theorem kernel_invariant_witness:
  "\<exists>k st. kernel_steps sample_crates kernel_new k \<and> get_state (ke_store k) ''v-a'' = Some st \<and>
     cs_certified (v1_certification st) \<and> list_events (ke_store k) \<noteq> []"
proof -
  obtain k st e e' where k: "kernel_steps sample_crates kernel_new k" "party k ''v-a'' st"
    "mset (list_events (ke_store k)) = {# e, e' #}"
    by (rule sample_kernel) (rule that; assumption)
  then have "get_state (ke_store k) ''v-a'' = Some st" "list_events (ke_store k) \<noteq> []" by (auto simp: party_def)
  with kernel_invariant [OF k(1)] k(1) show ?thesis by blast
qed

text \<open>
  C3: Nothing the kernel does ever changes or removes an event of the log, or takes away a vector or
  a record: from one kernel of a run to a later one every event is still found, the same, under its hash.
\<close>

theorem kernel_log_append_only:
  assumes "kernel_steps X kernel_new k" "kernel_steps X k k'"
  shows "(\<forall>h e. get_event_by_hash (ke_store k) h = Some e \<longrightarrow> get_event_by_hash (ke_store k') h = Some e) \<and>
    (\<forall>v. get_state (ke_store k) v \<noteq> None \<longrightarrow> get_state (ke_store k') v \<noteq> None) \<and>
    (\<forall>r. get_record (ke_store k) r \<noteq> None \<longrightarrow> get_record (ke_store k') r \<noteq> None)"
proof -
  have "store_ok (ke_store k)"
    using kernel_steps_ok [OF assms(1) kernel_ok_new] by (simp add: kernel_ok_def)
  with kernel_steps_extends [OF assms(2)] show ?thesis by (simp add: extends_def)
qed

theorem kernel_log_append_only_witness:
  "\<exists>k k' e. kernel_steps sample_crates k k' \<and> (\<exists>r. transfer sample_crates (\<lambda>_. 9) ''v-a'' ''v-b'' [250, 250] k = (k', Ok r)) \<and>
     get_event_by_hash (ke_store k) (ev_event_hash e) = Some e \<and>
     get_event_by_hash (ke_store k') (ev_event_hash e) = Some e"
proof -
  obtain k k' a b e where k: "kernel_steps sample_crates kernel_new k" "kernel_ok sample_crates k"
    "e \<in> set (list_events (ke_store k))"
    "transfer sample_crates (\<lambda>_. 9) ''v-a'' ''v-b'' [250, 250] k = (k', Ok (a, b))"
    by (rule sample_transfer_run [of "''v-b''"]) (simp, rule that)
  then have s: "kernel_steps sample_crates k k'" by (meson kernel_steps.intros step_transfer)
  have ok: "store_ok (ke_store k)" using k(2) by (simp add: kernel_ok_def)
  have "get_event_by_hash (ke_store k) (ev_event_hash e) = Some e"
    using k(3) by (simp add: log.lookup_iff [OF ok])
  with kernel_log_append_only [OF k(1) s] s k(4) show ?thesis by blast
qed

text \<open>
  C7: A transfer that the balances allow succeeds: with two stored vectors whose components fit an
  event, the funds on the one side and the room on the other, and event identifiers not used before, the
  operation returns the two states, debited and credited by the amount, and the log gains the two
  events of those identifiers. Nothing is assumed of collisions of the hash: the only other outcome is the
  refusal of the log, whose error names a hash that an event already logged shares with an event of
  other canonical bytes.
\<close>

theorem transfer_succeeds:
  assumes "kernel_ok X k" "\<forall>b. cr_hash X b \<noteq> []" "short_ids k"
    and "party k v st" "party k w st'"
    and "length (v1_components st) = length amount" "length (v1_components st') = length amount"
    and "\<forall>i < length amount. amount ! i \<le> v1_components st ! i"
    and "list_all2 (\<lambda>x y. unat x + unat y < 2 ^ 64) (v1_components st') amount"
    and "nat_sum (v1_components st) < 2 ^ 128" "nat_sum (v1_components st') + nat_sum amount < 2 ^ 128"
    and "json_u128s (cr_serde X) amount = Ok j"
    and "n = sequence_of k st" "n' = (if v = w then n + 1 else sequence_of k st')" "n < 2 ^ 64" "n' < 2 ^ 64"
    and "unused_id k (transfer_id st n)" "unused_id k (transfer_id st' n')" "transfer_id st n \<noteq> transfer_id st' n'"
  shows "(\<exists>k' a b. transfer X clk v w amount k = (k', Ok (a, b)) \<and>
      v1_components a = map2 saturating_sub (v1_components st) amount \<and>
      v1_components b = map2 saturating_add (v1_components st') amount \<and>
      mset (map ev_event_id (list_events (ke_store k'))) =
        mset (map ev_event_id (list_events (ke_store k))) + {# transfer_id st n, transfer_id st' n' #}) \<or>
    hash_collision X (fst (transfer X clk v w amount k)) (snd (transfer X clk v w amount k))"
proof (rule disjCI)
  assume nc: "\<not> hash_collision X (fst (transfer X clk v w amount k)) (snd (transfer X clk v w amount k))"
  obtain k' a b e e' where t: "transfer X clk v w amount k = (k', Ok (a, b))"
    "mset (list_events (ke_store k')) = add_mset e' (add_mset e (mset (list_events (ke_store k))))"
    "ev_event_id e = transfer_id st n" "ev_event_id e' = transfer_id st' n'"
    by (rule transfer_logs_parts [OF assms(1) nc assms(2-)]) (rule that; assumption)
  obtain u u' mid mid' c c' where "get_state (ke_store k) v = Some u" "get_state (ke_store k) w = Some u'"
    "transfer_components u u' amount = Ok (mid, mid')" "a = mid\<lparr> v1_certification := c \<rparr>" "b = mid'\<lparr> v1_certification := c' \<rparr>"
    by (rule transfer_Ok [OF t(1)]) (rule that; assumption)
  then show "\<exists>k' a b. transfer X clk v w amount k = (k', Ok (a, b)) \<and>
      v1_components a = map2 saturating_sub (v1_components st) amount \<and>
      v1_components b = map2 saturating_add (v1_components st') amount \<and>
      mset (map ev_event_id (list_events (ke_store k'))) =
        mset (map ev_event_id (list_events (ke_store k))) + {# transfer_id st n, transfer_id st' n' #}"
    using t assms(4,5) by (intro exI [of _ k'] exI [of _ a] exI [of _ b]) (auto simp: party_def transfer_components_Ok)
qed

theorem transfer_succeeds_witness:
  "\<exists>k k' a b. kernel_steps sample_crates kernel_new k \<and>
     transfer sample_crates (\<lambda>_. 9) ''v-a'' ''v-b'' [250, 250] k = (k', Ok (a, b)) \<and>
     length (list_events (ke_store k')) = length (list_events (ke_store k)) + 2"
proof (rule sample_transfer_ready [of "''v-b''"])
  fix k st q j n e
  assume r: "kernel_steps sample_crates kernel_new k" "e \<in> set (list_events (ke_store k))"
    "kernel_ok sample_crates k" "short_ids k" "party k ''v-a'' st" "party k ''v-b'' q"
    "length (v1_components st) = length [250, 250 :: u128]" "length (v1_components q) = length [250, 250 :: u128]"
    "\<forall>i < length [250, 250 :: u128]. [250, 250] ! i \<le> v1_components st ! i"
    "list_all2 (\<lambda>x y. unat x + unat y < 2 ^ 64) (v1_components q) [250, 250 :: u128]"
    "nat_sum (v1_components st) < 2 ^ 128" "nat_sum (v1_components q) + nat_sum [250, 250 :: u128] < 2 ^ 128"
    "json_u128s (cr_serde sample_crates) [250, 250] = Ok j"
    "2 = sequence_of k st" "n = (if ''v-a'' = ''v-b'' then 2 + 1 else sequence_of k q)"
    "unused_id k (transfer_id st 2)" "unused_id k (transfer_id q n)" "transfer_id st 2 \<noteq> transfer_id q n"
    "n < 2 ^ 64"
  from transfer_succeeds [OF r(3) sample_crates_hash(2) r(4-15) _ r(19) r(16-18), of "\<lambda>_. 9"]
  obtain k' a b where t: "transfer sample_crates (\<lambda>_. 9) ''v-a'' ''v-b'' [250, 250] k = (k', Ok (a, b))"
    "mset (map ev_event_id (list_events (ke_store k'))) =
       mset (map ev_event_id (list_events (ke_store k))) + {# transfer_id st 2, transfer_id q n #}" by (auto simp: sample_crates_hash(1))
  from arg_cong [OF t(2), of size] have "length (list_events (ke_store k')) = length (list_events (ke_store k)) + 2" by simp
  with r(1) t(1) show ?thesis by blast
qed simp

end
