(* ===== verification/Engine_Samples.thy ===== *)
theory Engine_Samples
  imports Engine_Runs
begin

text \<open>When a drain and a projection succeed, and sample runs of the operations that make an origin twice.\<close>

section \<open>When an operation on one vector succeeds\<close>

lemma updated_succeeds:
  assumes k: "kernel_ok X k" and H: "\<forall>b. cr_hash X b \<noteq> []" and short: "short_ids k"
    and nc: "\<not> hash_collision X (fst (log_transition X (Some st) after op' lc ts (\<lambda>k. latest_parent_hash_for_entity k v)
        (written [after] rs k))) (snd (log_transition X (Some st) after op' lc ts (\<lambda>k. latest_parent_hash_for_entity k v)
        (written [after] rs k)))"
    and p: "party k v st"
    and after: "v1_vector_id after = v" "v1_space_id after = v1_space_id st"
      "v1_owner_pubkey after = v1_owner_pubkey st" "length (v1_components after) = length (v1_components st)"
      "certification_ok (v1_certification after)" "narrow after"
    and op: "op' \<in> {Op_Certify, Op_Drain, Op_Project, Op_Reconstruct}"
    and n: "sequence_of k st = n" "n < 2 ^ 64"
    and id: "unused_id k (canonical_event_id v (v1_space_id st) op' lc (of_nat n))"
  obtains t where "log_transition X (Some st) after op' lc ts (\<lambda>k. latest_parent_hash_for_entity k v)
      (written [after] rs k) = (t, Ok ())"
proof -
  have ok: "store_ok (ke_store k)" using k by (simp add: kernel_ok_def)
  have vid: "v1_vector_id st = v" using p vectors.get_key [OF ok] by (simp add: party_def)
  let ?k = "written [after] rs k"
  define ps where "ps = latest_parent_hash_for_entity ?k v"
  define e where "e = transition_event (cr_hash X) (Some st) after op' lc ts ps (of_nat (sequence_of ?k after))"
  have seq: "sequence_of ?k after = n" using n after vid by (simp add: sequence_of_def)
  have eid: "ev_event_id e = canonical_event_id v (v1_space_id st) op' lc (of_nat n)"
    by (simp add: e_def seq after del: sequence_of_written)
  obtain t where "append_event e (ke_store ?k) = Ok t"
    "log_transition X (Some st) after op' lc ts (\<lambda>k. latest_parent_hash_for_entity k v) ?k =
       (?k\<lparr> ke_store := t \<rparr>, Ok ())"
    by (rule log_transition_fresh [of e X "Some st" after op' lc ts ps ?k
          "\<lambda>k. latest_parent_hash_for_entity k v", OF e_def ps_def [symmetric] k _ written_ok [OF ok] H _ _ _ nc])
      (use short id after op seq n(2) p vid latest_parent_logged [OF written_ok [OF ok], of _ _ _ v]
        in \<open>auto simp: eid unused_id_def short_ids_def plain_transition_def party_def ps_def simp del: written_frame(3)\<close>)
  then show thesis using that by blast
qed

lemma nat_sum_split:
  assumes "length ys = length xs" "length zs = length xs"
    and "\<And>i. i < length xs \<Longrightarrow> unat (ys ! i) + unat (zs ! i) = unat (xs ! i)"
  shows "nat_sum ys + nat_sum zs = nat_sum (xs :: 'a::len word list)"
  using assms
  by (simp add: nat_sum_def sum_list_sum_nth atLeast0LessThan sum.distrib [symmetric])

lemma narrow_le:
  assumes "narrow st" "length xs = length (v1_components st)"
    and "\<And>i. i < length xs \<Longrightarrow> unat (xs ! i) \<le> unat (v1_components st ! i)"
  shows "\<forall>c \<in> set xs. unat c < 2 ^ 64"
proof
  fix c assume "c \<in> set xs"
  then obtain i where i: "i < length xs" "c = xs ! i" by (auto simp: in_set_conv_nth)
  with assms(2) have "v1_components st ! i \<in> set (v1_components st)" by simp
  with assms(1) have "unat (v1_components st ! i) < 2 ^ 64" unfolding narrow_def by blast
  with assms(3) [OF i(1)] show "unat c < 2 ^ 64" by (simp only: i(2) order.strict_trans1)
qed

lemma drain_succeeds:
  assumes k: "kernel_ok X k" and nc: "\<not> hash_collision X (fst (drain X clk v bps k)) (snd (drain X clk v bps k))"
    and H: "\<forall>b. cr_hash X b \<noteq> []" and short: "short_ids k"
    and p: "party k v st" and bps: "unat bps \<le> 10000"
    and sum: "nat_sum (v1_components st) < 2 ^ 128" and version: "unat (v1_version st) + 1 < 2 ^ 64"
    and j: "\<forall>cs. (\<forall>c \<in> set cs. unat c < 2 ^ 64) \<longrightarrow> (\<exists>j. json_u128s (cr_serde X) cs = Ok j)"
    and n: "sequence_of k st = n" "n < 2 ^ 64"
    and id: "unused_id k (canonical_event_id v (v1_space_id st) Op_Drain (v1_version st + 1) (of_nat n))"
  obtains k' after where "drain X clk v bps k = (k', Ok after)"
proof -
  have ok: "store_ok (ke_store k)" using k by (simp add: kernel_ok_def)
  have g: "get_state (ke_store k) v = Some st" using p by (simp add: party_def)
  have vid: "v1_vector_id st = v" by (rule vectors.get_key [OF ok g])
  have sok: "stored_ok st" using k g vectors.values_get [OF ok, of st] vid by (simp add: kernel_ok_def)
  have "\<exists>d r. apply_drain (v1_components st) bps (cs_auth_ratio (v1_certification st))
      (cs_threshold (v1_certification st)) = Ok (d, r)"
    using bps by (simp add: apply_drain_def drain_loop_maps word_less_nat_alt)
  then obtain d r where dr: "apply_drain (v1_components st) bps (cs_auth_ratio (v1_certification st))
      (cs_threshold (v1_certification st)) = Ok (d, r)" by blast
  note a = apply_drain_accounts_parts [OF dr]
  have le: "nat_sum d + nat_sum r = nat_sum (v1_components st)"
    by (rule nat_sum_split [OF a(1,2,3)])
  let ?m = "st\<lparr> v1_components := r \<rparr>"
  obtain c where c: "certify_state (cr_checks X) (clk 0) ?m True True = Ok c"
    using certify_state_returns [of ?m] le sum by force
  have ne: "v1_components st \<noteq> []" and valid: "validate_state st = Ok ()"
    using sok by (simp_all add: stored_ok_def validate_state_eq validate_canonical_state_Ok)
  then have rne: "r \<noteq> []" using a(2) by auto
  let ?a = "st\<lparr> v1_components := r, v1_certification := c, v1_updated_at_ms := clk 1,
       v1_version := v1_version st + 1 \<rparr>"
  have cok: "certification_ok c" using certified_again [OF c] stored_threshold [OF sok] rne by simp
  have va: "validate_state ?a = Ok ()"
    using valid rne by (simp add: validate_state_eq validate_canonical_state_Ok)
  have nar: "\<forall>c \<in> set r. unat c < 2 ^ 64"
    by (rule narrow_le [of st]) (use p a in \<open>auto simp: party_def dest: a(3)\<close>)
  then obtain j' where j': "json_u128s (cr_serde X) r = Ok j'" using j by blast
  have plus: "plus_checked (cr_checks X) (v1_version st) 1 = Ok (v1_version st + 1)"
    using version by (simp add: plus_checked_def)
  obtain rs where run: "drain X clk v bps k =
      act_bind (log_transition X (Some st) ?a Op_Drain (v1_version st + 1) (clk 1)
        (\<lambda>k. latest_parent_hash_for_entity k v)) (\<lambda>_. act_return ?a) (written [?a] rs k)"
    by (rule that) (simp add: drain_def Let_def fetch_step [OF g] try_step [OF dr] try_step [OF c] plus
        try_step [OF va [unfolded One_nat_def]] try_step [OF j'] write_step record_step kept_written vid)
  obtain t where "log_transition X (Some st) ?a Op_Drain (v1_version st + 1) (clk 1)
      (\<lambda>k. latest_parent_hash_for_entity k v) (written [?a] rs k) = (t, Ok ())"
    by (rule updated_succeeds [OF k H short collision_step(1) [OF nc [unfolded run]] p, of n])
      (use vid cok nar a(2) n id in \<open>auto simp: narrow_def\<close>)
  then show thesis by (intro that) (unfold run, simp add: act_bind_step act_return_def)
qed

lemma project_succeeds:
  assumes k: "kernel_ok X k" and nc: "\<not> hash_collision X (fst (project X clk v part escrow k)) (snd (project X clk v part escrow k))"
    and H: "\<forall>b. cr_hash X b \<noteq> []" and short: "short_ids k"
    and p: "party k v st" and len: "length part = length (v1_components st)"
    and funds: "\<forall>i < length part. part ! i \<le> v1_components st ! i"
    and sum: "nat_sum (v1_components st) < 2 ^ 128" and version: "unat (v1_version st) + 1 < 2 ^ 64"
    and j: "json_u128s (cr_serde X) part = Ok j"
    and n: "sequence_of k st = n" "n < 2 ^ 64"
    and id: "unused_id k (canonical_event_id v (v1_space_id st) Op_Project (v1_version st + 1) (of_nat n))"
  obtains k' after where "project X clk v part escrow k = (k', Ok after)"
proof -
  have ok: "store_ok (ke_store k)" using k by (simp add: kernel_ok_def)
  have g: "get_state (ke_store k) v = Some st" using p by (simp add: party_def)
  have vid: "v1_vector_id st = v" by (rule vectors.get_key [OF ok g])
  have sok: "stored_ok st" using k g vectors.values_get [OF ok, of st] vid by (simp add: kernel_ok_def)
  have "\<not> list_ex (\<lambda>(p, c). c < p) (zip part (v1_components st))"
    using len funds by (auto simp: list_ex_iff set_zip not_less)
  then have "\<exists>mid. project_vector (cr_checks X) (clk 0) st part escrow = Ok mid"
    using len version by (simp add: project_vector_def Let_def bump_version_def plus_checked_def)
  then obtain mid where mid: "project_vector (cr_checks X) (clk 0) st part escrow = Ok mid" by blast
  note m = project_vector_Ok [OF mid]
  have le: "nat_sum (v1_components mid) + nat_sum part = nat_sum (v1_components st)"
    using m nat_sum_map2_sub [of "v1_components st" part] by simp
  obtain c where c: "certify_state (cr_checks X) (clk (Suc 0)) mid True True = Ok c"
    using certify_state_returns [of mid] le sum by force
  have ne: "v1_components st \<noteq> []" and valid: "validate_state st = Ok ()"
    using sok by (simp_all add: stored_ok_def validate_state_eq validate_canonical_state_Ok)
  then have mne: "v1_components mid \<noteq> []" using m by (auto simp: zip_eq_Nil_iff)
  let ?a = "mid\<lparr> v1_certification := c \<rparr>"
  have cok: "certification_ok c" using certified_again [OF c] m stored_threshold [OF sok] mne by simp
  have va: "validate_state ?a = Ok ()"
    using valid mne m by (simp add: validate_state_eq validate_canonical_state_Ok)
  have nar: "\<forall>c \<in> set (v1_components mid). unat c < 2 ^ 64"
    using m narrow_sub [of "v1_components st" part "2 ^ 64"] p by (simp add: party_def narrow_def)
  have mv: "v1_vector_id mid = v" using m vid by simp
  obtain rs where run: "project X clk v part escrow k =
      act_bind (log_transition X (Some st) ?a Op_Project (v1_version mid) (v1_updated_at_ms mid)
        (\<lambda>k. latest_parent_hash_for_entity k v)) (\<lambda>_. act_return ?a) (written [?a] rs k)"
    by (rule that) (simp add: project_def Let_def fetch_step [OF g] try_step [OF mid] try_step [OF c]
        try_step [OF va] try_step [OF j] write_step record_step kept_written mv)
  obtain t where "log_transition X (Some st) ?a Op_Project (v1_version mid) (v1_updated_at_ms mid)
      (\<lambda>k. latest_parent_hash_for_entity k v) (written [?a] rs k) = (t, Ok ())"
    by (rule updated_succeeds [OF k H short collision_step(1) [OF nc [unfolded run]] p, of n])
      (use vid cok nar m n id in \<open>auto simp: narrow_def\<close>)
  then show thesis by (intro that) (unfold run, simp add: act_bind_step act_return_def)
qed

section \<open>Sample runs\<close>

lemma sample_vector:
  obtains k st where "kernel_steps sample_crates kernel_new k" "kernel_ok sample_crates k" "short_ids k"
    "party k ''v-a'' st" "v1_version st = 1" "v1_components st = [1000, 2000]" "v1_space_id st = ''sp''"
    "v1_projection st = None" "sequence_of k st = 2"
    "\<And>op' lc. op' \<in> {Op_Drain, Op_Project} \<Longrightarrow> lc = 2 \<Longrightarrow> unused_id k (canonical_event_id ''v-a'' ''sp'' op' lc 2)"
proof -
  obtain k st st' e e' where k: "kernel_steps sample_crates kernel_new k" "kernel_ok sample_crates k"
    "party k ''v-a'' st" "v1_version st = 1" "v1_components st = [1000, 2000]" "v1_space_id st = ''sp''"
    "v1_vector_id st = ''v-a''" "v1_projection st = None"
    "mset (list_events (ke_store k)) = {# e, e' #}"
    "ev_event_id e = ''v-a::sp::ORIGIN_CREATE::1::1''" "ev_event_id e' = ''v-b::sp::ORIGIN_CREATE::1::1''"
    "ev_entity_id e = ''v-a''" "ev_entity_id e' = ''v-b''" "ev_region_id e = ''sp''" "ev_region_id e' = ''sp''"
    by (rule sample_kernel) (rule that; assumption)
  have es: "set (list_events (ke_store k)) = {e, e'}"
    using mset_eq_setD [of "list_events (ke_store k)" "[e, e']"] k(9) by simp
  have "short_ids k" using k(10,11) by (simp add: short_ids_def es ok_len_def)
  moreover have "sequence_of k st = 2"
    using k(6,7,12-15) by (simp add: sequence_of_mset k(9))
  moreover have "unused_id k (canonical_event_id ''v-a'' ''sp'' op' lc 2)"
    if "op' \<in> {Op_Drain, Op_Project}" "lc = 2" for op' lc
    using that k(10,11) by (auto simp: unused_id_def es ok_len_def canonical_event_id_def small_numbers)
  ultimately show thesis using that k by blast
qed

lemma sample_json:
  "\<forall>c \<in> set cs. unat c < 2 ^ 64 \<Longrightarrow> \<exists>j. json_u128s (cr_serde sample_crates) cs = Ok j"
  by (auto simp: json_u128s_def sample_crates_def sample_serde_def Let_def list_all_iff)

lemma sample_drain_run:
  obtains k k' a where "kernel_ok sample_crates k" "drain sample_crates (\<lambda>_. 9) ''v-a'' 100 k = (k', Ok a)"
proof -
  obtain k st where k: "kernel_ok sample_crates k" "short_ids k"
    "party k ''v-a'' st" "v1_version st = 1" "v1_components st = [1000, 2000]" "v1_space_id st = ''sp''"
    "sequence_of k st = 2"
    "\<And>op' lc. op' \<in> {Op_Drain, Op_Project} \<Longrightarrow> lc = 2 \<Longrightarrow> unused_id k (canonical_event_id ''v-a'' ''sp'' op' lc 2)"
    by (rule sample_vector) (rule that; assumption)
  show thesis
    by (rule drain_succeeds [OF k(1) sample_crates_hash(1,2) k(2,3), of 100 2 "\<lambda>_. 9"])
      (use k(4-8) sample_json that [OF k(1)] in simp_all)
qed

lemma sample_project_run:
  obtains k k' a where "kernel_ok sample_crates k"
    "project sample_crates (\<lambda>_. 9) ''v-a'' [10, 20] ''escrow-1'' k = (k', Ok a)"
proof -
  obtain k st where k: "kernel_ok sample_crates k" "short_ids k"
    "party k ''v-a'' st" "v1_version st = 1" "v1_components st = [1000, 2000]" "v1_space_id st = ''sp''"
    "sequence_of k st = 2"
    "\<And>op' lc. op' \<in> {Op_Drain, Op_Project} \<Longrightarrow> lc = 2 \<Longrightarrow> unused_id k (canonical_event_id ''v-a'' ''sp'' op' lc 2)"
    by (rule sample_vector) (rule that; assumption)
  obtain j where j: "json_u128s (cr_serde sample_crates) [10, 20] = Ok j"
    using sample_json [of "[10, 20]"] by auto
  have funds: "\<forall>i < length [10, 20 :: u128]. [10, 20] ! i \<le> v1_components st ! i"
    using k(5) by (simp add: less_Suc_eq)
  show thesis
    by (rule project_succeeds [OF k(1) sample_crates_hash(1,2) k(2,3) _ funds _ _ j, of 2 "\<lambda>_. 9" "''escrow-1''"])
      (use k(4-8) that [OF k(1)] in simp_all)
qed

text \<open>Two origins of one vector in a row.\<close>

lemma sample_two_origins:
  obtains k1 k2 a b where
    "origin_create sample_crates (\<lambda>_. 5) ''v-a'' ''pk'' ''sp'' [1000, 2000] ''s'' 0 0 kernel_new = (k1, Ok a)"
    "origin_create sample_crates (\<lambda>_. 6) ''v-a'' ''pk'' ''sp'' [50, 75] ''s'' 0 0 k1 = (k2, Ok b)"
proof -
  let ?X = sample_crates
  have k0: "kernel_ok ?X kernel_new" by (rule kernel_ok_new)
  have l0: "list_events (ke_store kernel_new) = []" "load_events_for_replay (ke_store kernel_new) = []"
    by (simp_all add: kernel_new_def store_default_def list_events_def load_events_for_replay_def)
  have s0: "short_ids kernel_new" by (simp add: short_ids_def l0)
  have ids: "canonical_event_id ''v-a'' ''sp'' Op_OriginCreate 1 1 = ''v-a::sp::ORIGIN_CREATE::1::1''"
    "canonical_event_id ''v-a'' ''sp'' Op_OriginCreate 1 2 = ''v-a::sp::ORIGIN_CREATE::1::2''"
    by (simp_all add: canonical_event_id_def small_numbers)
  obtain k1 a e where 1:
    "origin_create ?X (\<lambda>_. 5) ''v-a'' ''pk'' ''sp'' [1000, 2000] ''s'' 0 0 kernel_new = (k1, Ok a)"
    "kernel_ok ?X k1" "mset (list_events (ke_store k1)) = add_mset e (mset (list_events (ke_store kernel_new)))"
    "ev_event_id e = ''v-a::sp::ORIGIN_CREATE::1::1''" "ev_entity_id e = ''v-a''" "ev_region_id e = ''sp''"
    by (rule origin_create_succeeds [where X = ?X and k = kernel_new and clk = "\<lambda>_. 5" and v = "''v-a''" and ow = "''pk''"
          and sp = "''sp''" and cs = "[1000, 2000]" and seed = "''s''" and nonce = 0 and difficulty = 0
          and n = 0 and i = "''v-a::sp::ORIGIN_CREATE::1::1''",
          OF k0 sample_crates_hash(1,2) s0 sample_crates_hash(3)])
      (use l0 ids in \<open>simp_all add: sample_names ok_len_def\<close>)
  have ev1: "list_events (ke_store k1) = [e]" using 1(3) l0(1) by simp
  have "mset (load_events_for_replay (ke_store k1)) = {# e #}" by (simp add: load_events_mset ev1)
  then have l1: "load_events_for_replay (ke_store k1) = [e]" by simp
  have s1: "short_ids k1" using 1(4) by (simp add: short_ids_def ev1 ok_len_def)
  obtain k2 b where "origin_create ?X (\<lambda>_. 6) ''v-a'' ''pk'' ''sp'' [50, 75] ''s'' 0 0 k1 = (k2, Ok b)"
    by (rule origin_create_succeeds [where X = ?X and k = k1 and clk = "\<lambda>_. 6" and v = "''v-a''" and ow = "''pk''"
          and sp = "''sp''" and cs = "[50, 75]" and seed = "''s''" and nonce = 0 and difficulty = 0
          and n = 1 and i = "''v-a::sp::ORIGIN_CREATE::1::2''",
          OF 1(2) sample_crates_hash(1,2) s1 sample_crates_hash(3)])
      (use 1(4-6) l1 ids in \<open>simp_all add: sample_names ok_len_def ev1\<close>)
  with 1(1) show thesis by (rule that)
qed

end
