(* ===== verification/Engine_Value.thy ===== *)
theory Engine_Value
  imports Engine_Samples
begin

text \<open>
  The value in the store: what the operations of the kernel do to the sum of all components, read as
  natural numbers, and what they leave behind when they fail.
\<close>

section \<open>The value of a store\<close>

definition value_of :: "vector_state_v1 \<Rightarrow> nat" where
  "value_of st = nat_sum (v1_components st)"

definition store_value :: "kernel_engine \<Rightarrow> nat" where
  "store_value k = sum_list (map value_of (list_states (ke_store k)))"

text \<open>What a vector has given to a projection that is not settled yet.\<close>

definition pending :: "vector_state_v1 \<Rightarrow> nat" where
  "pending st =
     (case v1_projection st of
        Some p \<Rightarrow> (case ps_settlement_at_ms p of None \<Rightarrow> nat_sum (ps_projected_components p) | Some _ \<Rightarrow> 0)
      | None \<Rightarrow> 0)"

definition store_pending :: "kernel_engine \<Rightarrow> nat" where
  "store_pending k = sum_list (map pending (list_states (ke_store k)))"

lemma put_one:
  fixes f :: "vector_state_v1 \<Rightarrow> nat"
  assumes "store_ok s" "get_state s (v1_vector_id st) = Some u"
  shows "sum_list (map f (list_states (put_state st s))) + f u = sum_list (map f (list_states s)) + f st"
  by (rule vectors.sum_values_put [OF assms])

lemma written_one_value:
  assumes "kernel_ok X k" "get_state (ke_store k) (v1_vector_id st) = Some u"
    and "log_transition X b st op' lc ts ps (written [st] [r] k) = (k', x)"
  shows "sum_list (map f (list_states (ke_store k'))) + f u = sum_list (map f (list_states (ke_store k))) + (f st :: nat)"
    and "get_state (ke_store k') = (get_state (ke_store k))(v1_vector_id st \<mapsto> st)"
proof -
  have "store_ok (ke_store k)" using assms(1) by (simp add: kernel_ok_def)
  from put_one [OF this assms(2)] show
    "sum_list (map f (list_states (ke_store k'))) + f u = sum_list (map f (list_states (ke_store k))) + f st"
    by (simp add: log_transition_frame [OF assms(3)])
  show "get_state (ke_store k') = (get_state (ke_store k))(v1_vector_id st \<mapsto> st)"
    by (simp add: log_transition_frame [OF assms(3)] fun_eq_iff vectors.get_put)
qed

lemma narrow_saturating_add:
  "unat (saturating_add a b :: u128) < 2 ^ 64 \<Longrightarrow> unat a + unat b < 2 ^ 128"
  by (auto simp: unat_saturating_add min_def split: if_splits)

lemma transfer_values:
  assumes "kernel_ok X k" "transfer X clk v w amount k = (k', Ok (a, b))"
  obtains st st' where "get_state (ke_store k) v = Some st" "get_state (ke_store k) w = Some st'"
    "v1_vector_id st = v" "v1_vector_id st' = w" "v1_vector_id a = v" "v1_vector_id b = w"
    "list_states (ke_store k') = list_states (put_state b (put_state a (ke_store k)))"
    "get_state (ke_store k') = (get_state (ke_store k))(v \<mapsto> a, w \<mapsto> b)"
    "value_of a + nat_sum amount = value_of st" "value_of b = value_of st' + nat_sum amount"
proof -
  have ok: "store_ok (ke_store k)" using assms(1) by (simp add: kernel_ok_def)
  obtain st st' mid mid' c c' r r' k1 where
    t: "get_state (ke_store k) v = Some st" "get_state (ke_store k) w = Some st'"
      "transfer_components st st' amount = Ok (mid, mid')"
      "a = mid\<lparr> v1_certification := c \<rparr>" "b = mid'\<lparr> v1_certification := c' \<rparr>"
      "log_transition X (Some st) a Op_Transfer (v1_version a) (clk 6)
         (\<lambda>k. latest_parent_hash_for_entity k (v1_vector_id a)) (written [a, b] [r, r'] k) = (k1, Ok ())"
      "log_transition X (Some st') b Op_Transfer (v1_version b) (clk 7)
         (\<lambda>k. latest_parent_hash_for_entity k (v1_vector_id b)) k1 = (k', Ok ())"
    by (rule transfer_Ok [OF assms(2)]) (rule that; assumption)
  have i: "v1_vector_id st = v" "v1_vector_id st' = w"
    by (rule vectors.get_key [OF ok t(1)], rule vectors.get_key [OF ok t(2)])
  note c = t(3) [unfolded transfer_components_Ok]
  then have ids: "v1_vector_id a = v" "v1_vector_id b = w" using t(4,5) i by simp_all
  have nb: "narrow b" using t(7) by (simp add: log_transition_Ok)
  have "unat (v1_components st' ! j) + unat (amount ! j) < 2 ^ 128" if j: "j < length amount" for j
  proof (rule narrow_saturating_add)
    have "v1_components b ! j = saturating_add (v1_components st' ! j) (amount ! j)"
      "j < length (v1_components b)" using c t(5) j by simp_all
    with nb show "unat (saturating_add (v1_components st' ! j) (amount ! j)) < 2 ^ 64"
      unfolding narrow_def by (metis nth_mem)
  qed
  from transfer_components_conserves_parts(1) [OF t(3)] transfer_components_conserves_parts(3) [OF t(3) this]
  have "value_of a + nat_sum amount = value_of st" "value_of b = value_of st' + nat_sum amount"
    by (simp_all add: value_of_def t(4,5))
  then show thesis
    using t(1,2) i ids log_transition_frame [OF t(6)] log_transition_frame [OF t(7)]
    by (intro that [of st st']) (simp_all add: fun_eq_iff vectors.get_put)
qed

section \<open>Properties\<close>

text \<open>
  C5: A transfer between two vectors keeps the value of the store: what the sender loses the receiver
  gains, nothing saturates, and no other vector changes.
\<close>

theorem transfer_conserves_store:
  assumes "kernel_ok X k" "transfer X clk v w amount k = (k', Ok (a, b))" "v \<noteq> w"
  shows "store_value k' = store_value k \<and>
    get_state (ke_store k') = (get_state (ke_store k))(v \<mapsto> a, w \<mapsto> b) \<and>
    (\<exists>st st'. get_state (ke_store k) v = Some st \<and> get_state (ke_store k) w = Some st' \<and>
       value_of a + nat_sum amount = value_of st \<and> value_of b = value_of st' + nat_sum amount)"
proof -
  have ok: "store_ok (ke_store k)" using assms(1) by (simp add: kernel_ok_def)
  from transfer_values [OF assms(1,2)] obtain st st' where
    t: "get_state (ke_store k) v = Some st" "get_state (ke_store k) w = Some st'"
      "v1_vector_id a = v" "v1_vector_id b = w"
      "list_states (ke_store k') = list_states (put_state b (put_state a (ke_store k)))"
      "get_state (ke_store k') = (get_state (ke_store k))(v \<mapsto> a, w \<mapsto> b)"
      "value_of a + nat_sum amount = value_of st" "value_of b = value_of st' + nat_sum amount"
    by blast
  have "get_state (put_state a (ke_store k)) (v1_vector_id b) = Some st'"
    using t assms(3) by (simp add: vectors.get_put)
  from put_one [OF vectors.ok_put [OF ok] this, of value_of] put_one [OF ok, of a st value_of] t
  have "store_value k' = store_value k" by (simp add: store_value_def)
  with t show ?thesis by blast
qed

theorem transfer_conserves_store_witness:
  "\<exists>k k' a b. transfer sample_crates (\<lambda>_. 9) ''v-a'' ''v-b'' [250, 250] k = (k', Ok (a, b)) \<and>
     store_value k' = store_value k"
proof -
  obtain k k' a b where k: "kernel_ok sample_crates k"
    "transfer sample_crates (\<lambda>_. 9) ''v-a'' ''v-b'' [250, 250] k = (k', Ok (a, b))"
    by (rule sample_transfer_run [of "''v-b''"]) (simp, rule that)
  with transfer_conserves_store [OF k] show ?thesis by auto
qed

text \<open>
  C17: A transfer of a vector to itself makes value: the store gains the amount, since the receiver's
  state is computed from the balance before the transfer and is written last.
\<close>

theorem self_transfer_mints:
  assumes "kernel_ok X k" "transfer X clk v v amount k = (k', Ok (a, b))"
  shows "store_value k' = store_value k + nat_sum amount"
proof -
  have ok: "store_ok (ke_store k)" using assms(1) by (simp add: kernel_ok_def)
  from transfer_values [OF assms] obtain st where
    t: "get_state (ke_store k) v = Some st" "v1_vector_id a = v" "v1_vector_id b = v"
      "list_states (ke_store k') = list_states (put_state b (put_state a (ke_store k)))"
      "value_of b = value_of st + nat_sum amount"
    by (metis option.inject)
  have "get_state (put_state a (ke_store k)) (v1_vector_id b) = Some a"
    using t by (simp add: vectors.get_put)
  from put_one [OF vectors.ok_put [OF ok] this, of value_of] put_one [OF ok, of a st value_of] t
  show ?thesis by (simp add: store_value_def)
qed

theorem self_transfer_mints_witness:
  "\<exists>k k' a b. transfer sample_crates (\<lambda>_. 9) ''v-a'' ''v-a'' [250, 250] k = (k', Ok (a, b)) \<and>
     store_value k' = store_value k + 500"
proof -
  obtain k k' a b where k: "kernel_ok sample_crates k"
    "transfer sample_crates (\<lambda>_. 9) ''v-a'' ''v-a'' [250, 250] k = (k', Ok (a, b))"
    by (rule sample_transfer_run [of "''v-a''"]) (simp, rule that)
  with self_transfer_mints [OF k] show ?thesis by auto
qed

lemma drain_values:
  assumes "kernel_ok X k" "drain X clk v bps k = (k', Ok after)"
  obtains st drained remaining where "get_state (ke_store k) v = Some st"
    "apply_drain (v1_components st) bps (cs_auth_ratio (v1_certification st))
       (cs_threshold (v1_certification st)) = Ok (drained, remaining)"
    "get_state (ke_store k') = (get_state (ke_store k))(v \<mapsto> after)" "v1_components after = remaining"
    "store_value k' + nat_sum drained = store_value k"
proof -
  obtain st dr rem c r where d: "get_state (ke_store k) v = Some st"
    "apply_drain (v1_components st) bps (cs_auth_ratio (v1_certification st))
       (cs_threshold (v1_certification st)) = Ok (dr, rem)"
    "after = st\<lparr> v1_components := rem, v1_certification := c, v1_updated_at_ms := clk 1,
       v1_version := v1_version st + 1 \<rparr>"
    "log_transition X (Some st) after Op_Drain (v1_version after) (clk 1)
       (\<lambda>k. latest_parent_hash_for_entity k (v1_vector_id after)) (written [after] [r] k) = (k', Ok ())"
    by (rule drain_Ok [OF assms(2)]) (rule that; assumption)
  have ok: "store_ok (ke_store k)" using assms(1) by (simp add: kernel_ok_def)
  have "v1_vector_id st = v" by (rule vectors.get_key [OF ok d(1)])
  then have i: "v1_vector_id after = v" by (simp add: d(3))
  note w = written_one_value [OF assms(1) _ d(4), of st, unfolded i, OF d(1)]
  note a = apply_drain_accounts_parts [OF d(2)]
  have "nat_sum dr + nat_sum rem = value_of st"
    unfolding value_of_def by (rule nat_sum_split [OF a(1,2,3)])
  with w(1) [of value_of] have "store_value k' + nat_sum dr = store_value k"
    by (simp add: store_value_def value_of_def d(3))
  then show thesis using that [OF d(1,2) w(2)] d(3) by simp
qed

text \<open>
  C20: Draining a vector takes its fee out of the store: the vector keeps what the fee leaves of it, no
  other vector changes, and the value of the store falls by exactly the fee.
\<close>

theorem drain_burns_fee:
  assumes "kernel_ok X k" "drain X clk v bps k = (k', Ok after)"
  shows "\<exists>st drained. get_state (ke_store k) v = Some st \<and>
    apply_drain (v1_components st) bps (cs_auth_ratio (v1_certification st))
      (cs_threshold (v1_certification st)) = Ok (drained, v1_components after) \<and>
    get_state (ke_store k') = (get_state (ke_store k))(v \<mapsto> after) \<and>
    store_value k' + nat_sum drained = store_value k"
  by (rule drain_values [OF assms]) blast

theorem drain_burns_fee_witness:
  "\<exists>k k' a (drained :: u128 list). drain sample_crates (\<lambda>_. 9) ''v-a'' 100 k = (k', Ok a) \<and>
     store_value k' + nat_sum drained = store_value k"
proof -
  obtain k k' a where k: "kernel_ok sample_crates k" "drain sample_crates (\<lambda>_. 9) ''v-a'' 100 k = (k', Ok a)"
    by (rule sample_drain_run)
  from drain_burns_fee [OF k] k(2) show ?thesis by blast
qed

text \<open>
  C21: A projection moves the slice out of the components into the projection, so the components and
  the unsettled projections of the store together keep their value, less what an earlier projection of
  the same vector still held: projecting twice without settling loses the first slice.
\<close>

theorem projection_value:
  assumes "kernel_ok X k" "project X clk v part escrow k = (k', Ok after)"
  shows "\<exists>st. get_state (ke_store k) v = Some st \<and> pending after = nat_sum part \<and>
    store_value k' + store_pending k' + pending st = store_value k + store_pending k"
proof -
  obtain st mid c r where d: "get_state (ke_store k) v = Some st"
    "project_vector (cr_checks X) (clk 0) st part escrow = Ok mid" "after = mid\<lparr> v1_certification := c \<rparr>"
    "log_transition X (Some st) after Op_Project (v1_version after) (v1_updated_at_ms after)
       (\<lambda>k. latest_parent_hash_for_entity k (v1_vector_id after)) (written [after] [r] k) = (k', Ok ())"
    by (rule project_Ok [OF assms(2)]) (rule that; assumption)
  have ok: "store_ok (ke_store k)" using assms(1) by (simp add: kernel_ok_def)
  note m = project_vector_Ok [OF d(2)]
  have "v1_vector_id st = v" by (rule vectors.get_key [OF ok d(1)])
  then have i: "v1_vector_id after = v" using m by (simp add: d(3))
  note w = written_one_value [OF assms(1) _ d(4), of st, unfolded i, OF d(1)]
  have "value_of after + nat_sum part = value_of st" "pending after = nat_sum part"
    using m nat_sum_map2_sub [of "v1_components st" part] by (simp_all add: value_of_def pending_def d(3))
  with w(1) [of value_of] w(1) [of pending] d(1) show ?thesis
    by (intro exI [of _ st]) (simp add: store_value_def store_pending_def)
qed

theorem projection_value_witness:
  "\<exists>k k' a. project sample_crates (\<lambda>_. 9) ''v-a'' [10, 20] ''escrow-1'' k = (k', Ok a) \<and> pending a = 30"
proof -
  obtain k k' a where k: "kernel_ok sample_crates k"
    "project sample_crates (\<lambda>_. 9) ''v-a'' [10, 20] ''escrow-1'' k = (k', Ok a)"
    by (rule sample_project_run)
  from projection_value [OF k] k(2) show ?thesis by auto
qed

text \<open>
  C19: The operations are not atomic. Creating a vector with a component of \<open>2^64\<close> or more returns an
  error, since the event cannot hold it, but the vector is already stored and stays: it is returned by
  the queries and can be transferred from, and no event tells of it.
\<close>

theorem wide_origin_stored_without_event:
  assumes "verify_origin (cr_hash X) seed nonce difficulty"
    and "v \<noteq> []" "ow \<noteq> []" "sp \<noteq> []" "nat_sum cs < 2 ^ 128"
    and "c \<in> set cs" "2 ^ 64 \<le> unat c"
  shows "\<exists>k' st. origin_create X clk v ow sp cs seed nonce difficulty k =
      (k', Err (InvalidState ''component value exceeds u64 canonical event limit'')) \<and>
    query_vector k' v = Some st \<and> v1_components st = cs \<and>
    list_events (ke_store k') = list_events (ke_store k)"
proof -
  have ne: "cs \<noteq> []" using assms(6) by auto
  obtain c0 r where run: "origin_create X clk v ow sp cs seed nonce difficulty k =
       act_bind (log_transition X None (origin_vector (cr_hash X) (clk 0) v ow sp cs seed nonce difficulty c0)
           Op_OriginCreate 1 (clk 0) (\<lambda>k. []))
         (\<lambda>_. act_return (origin_vector (cr_hash X) (clk 0) v ow sp cs seed nonce difficulty c0))
         (written [origin_vector (cr_hash X) (clk 0) v ow sp cs seed nonce difficulty c0] [r] k)"
    by (rule origin_create_run [OF assms(1-4) ne assms(5), of clk k])
  let ?v = "origin_vector (cr_hash X) (clk 0) v ow sp cs seed nonce difficulty c0"
  have "\<not> narrow ?v" using assms(6,7) by (auto simp: narrow_def not_less)
  then have "origin_create X clk v ow sp cs seed nonce difficulty k =
      (written [?v] [r] k, Err (InvalidState ''component value exceeds u64 canonical event limit''))"
    unfolding run by (simp add: act_bind_def log_transition_wide)
  then show ?thesis
    by (simp add: query_vector_def query_get_vector_def vectors.get_put)
qed

theorem wide_origin_stored_without_event_witness:
  "\<exists>k' st. origin_create sample_crates (\<lambda>_. 5) ''v-a'' ''pk'' ''sp'' [2 ^ 64] ''s'' 0 0 kernel_new =
      (k', Err (InvalidState ''component value exceeds u64 canonical event limit'')) \<and>
    query_vector k' ''v-a'' = Some st \<and> v1_components st = [2 ^ 64]"
  using wide_origin_stored_without_event [of sample_crates "''s''" 0 0 "''v-a''" "''pk''" "''sp''" "[2 ^ 64]" "2 ^ 64"
      "\<lambda>_. 5" kernel_new] sample_crates_hash(3) by auto

text \<open>
  C18: Creating a vector a second time under the same identifier is accepted: it overwrites the vector,
  and from then on the history of the kernel can never be replayed again, whatever else is called.
\<close>

theorem second_origin_breaks_replay:
  assumes "kernel_ok X k" "origin_create X clk v ow sp cs seed nonce difficulty k = (k1, Ok a)"
    and "kernel_steps X k1 k2"
    and "origin_create X clk' v ow' sp' cs' seed' nonce' difficulty' k2 = (k3, Ok b)"
    and "kernel_steps X k3 k4"
  shows "get_state (ke_store k3) v = Some b \<and> (\<exists>m. replay_canonical_history X k4 = Err m)"
proof -
  have logged: "\<exists>e. ev_entity_id e = v \<and> ev_parent_hashes e = [] \<and> e \<notin> set (list_events (ke_store k)) \<and>
      e \<in> set (list_events (ke_store k')) \<and> get_state (ke_store k') v = Some a"
    if k: "kernel_ok X k" and o: "origin_create X clk v ow sp cs seed nonce difficulty k = (k', Ok a)"
    for k k' clk ow sp cs seed nonce difficulty a
  proof -
    obtain st c r where d: "create_origin_vector (cr_hash X) (clk 0) v ow sp cs seed nonce difficulty = Ok st"
      "a = st\<lparr> v1_certification := c \<rparr>"
      "log_transition X None a Op_OriginCreate (v1_version a) (v1_created_at_ms a)
         (\<lambda>k. []) (written [a] [r] k) = (k', Ok ())"
      by (rule origin_create_Ok [OF o]) (rule that; assumption)
    have ok: "store_ok (ke_store k)" using k by (simp add: kernel_ok_def)
    have v: "v1_vector_id a = v" using d(1,2) by (auto simp: create_origin_vector_Ok)
    obtain e t where e: "ev_entity_id e = v" "ev_parent_hashes e = []"
      "append_event e (ke_store (written [a] [r] k)) = Ok t" "k' = (written [a] [r] k)\<lparr> ke_store := t \<rparr>"
      using d(3) v by (subst (asm) log_transition_Ok, subst (asm) append_canonical_event_Ok)
        (elim conjE exE, rule that, simp_all)
    have "e \<notin> set (list_events (ke_store k))"
      using log.append_iff [OF written_ok [OF ok], of e "[a]" "[r]"] e(3) by auto
    moreover have "e \<in> set (list_events (ke_store k'))"
      using mset_eq_setD [of "list_events t" "e # list_events (ke_store k)"]
        store_ok_append(2) [OF written_ok [OF ok] e(3)] e(4) by simp
    moreover have "get_state (ke_store k') v = Some a"
      using v by (simp add: log_transition_frame [OF d(3)] vectors.get_put)
    ultimately show ?thesis using e(1,2) by blast
  qed
  have k1: "kernel_ok X k1" using keepsD [OF origin_create_keeps assms(1,2)] by blast
  have k2: "kernel_ok X k2" by (rule kernel_steps_ok [OF assms(3) k1])
  have k3: "kernel_ok X k3" using keepsD [OF origin_create_keeps k2 assms(4)] by blast
  have k4: "kernel_ok X k4" by (rule kernel_steps_ok [OF assms(5) k3])
  obtain d where d: "ev_entity_id d = v" "ev_parent_hashes d = []" "d \<in> set (list_events (ke_store k1))"
    using logged [OF assms(1,2)] by blast
  obtain e where e: "ev_entity_id e = v" "ev_parent_hashes e = []" "e \<notin> set (list_events (ke_store k2))"
    "e \<in> set (list_events (ke_store k3))" "get_state (ke_store k3) v = Some b"
    using logged [OF k2 assms(4)] by blast
  have mono: "f \<in> set (list_events (ke_store l'))"
    if "kernel_ok X l" "kernel_ok X l'" "extends l l'" "f \<in> set (list_events (ke_store l))" for f l l'
    using that log.lookup_iff [of "ke_store l" "ev_event_hash f" f] log.lookup_iff [of "ke_store l'" "ev_event_hash f" f]
    by (simp add: kernel_ok_def extends_def)
  have "extends k2 k3" using withinD [OF operations_extend(2) assms(4)] .
  then have in4: "d \<in> set (list_events (ke_store k4))" "e \<in> set (list_events (ke_store k4))"
    and d2: "d \<in> set (list_events (ke_store k2))"
    using mono [OF k1 k2 kernel_steps_extends [OF assms(3)] d(3)] mono [OF k2 k3] mono [OF k3 k4 kernel_steps_extends [OF assms(5)]] e(4)
    by blast+
  have "ev_event_hash d \<noteq> ev_event_hash e"
    using in4 d2 e(3) log.lookup_iff [of "ke_store k4" "ev_event_hash e"] k4 by (metis kernel_ok_def option.inject)
  moreover have "d \<in> set (load_events_for_replay (ke_store k4))" "e \<in> set (load_events_for_replay (ke_store k4))"
    using in4 mset_eq_setD [OF load_events_mset] by blast+
  ultimately show ?thesis
    using two_roots_refused [of d "load_events_for_replay (ke_store k4)" e "cr_hash X" "cr_map_json X" "cr_region_json X"]
      d e by (auto simp: replay_canonical_history_def)
qed

theorem second_origin_breaks_replay_witness:
  "\<exists>k1 k2 b m.
     origin_create sample_crates (\<lambda>_. 6) ''v-a'' ''pk'' ''sp'' [50, 75] ''s'' 0 0 k1 = (k2, Ok b) \<and>
     replay_canonical_history sample_crates k2 = Err m"
proof -
  obtain k1 k2 a b where k:
    "origin_create sample_crates (\<lambda>_. 5) ''v-a'' ''pk'' ''sp'' [1000, 2000] ''s'' 0 0 kernel_new = (k1, Ok a)"
    "origin_create sample_crates (\<lambda>_. 6) ''v-a'' ''pk'' ''sp'' [50, 75] ''s'' 0 0 k1 = (k2, Ok b)"
    by (rule sample_two_origins)
  from second_origin_breaks_replay [OF kernel_ok_new k(1) kernel_steps.steps_refl k(2) kernel_steps.steps_refl] k(2)
  show ?thesis by blast
qed

end
