(* ===== verification/Engine_Flow.thy ===== *)
theory Engine_Flow
  imports Engine_Samples
begin

text \<open>
  The operations of the kernel in sequence: when each of them succeeds and what it leaves, stated over
  the ledger of the log, the bag of the entity, region and identifier of every event. So a run of many
  operations is followed by computing with small bags.
\<close>

section \<open>The ledger\<close>

type_synonym entry = "string \<times> string \<times> string"

definition ledger :: "kernel_engine \<Rightarrow> entry multiset" where
  "ledger k = image_mset (\<lambda>e. (ev_entity_id e, ev_region_id e, ev_event_id e)) (mset (list_events (ke_store k)))"

text \<open>The place of the next event of a vector, and the identifiers the ledger has room for.\<close>

definition place :: "entry multiset \<Rightarrow> string \<Rightarrow> string \<Rightarrow> nat" where
  "place L v sp = size (filter_mset (\<lambda>(w, r, _). w = v \<and> r = sp) L) + 1"

definition room_for :: "entry multiset \<Rightarrow> string \<Rightarrow> bool" where
  "room_for L i \<longleftrightarrow> ok_len i \<and> (\<forall>(_, _, j) \<in># L. j \<noteq> i)"

definition short_ledger :: "entry multiset \<Rightarrow> bool" where
  "short_ledger L \<longleftrightarrow> (\<forall>(_, _, j) \<in># L. ok_len j)"

lemma ledger_facts:
  "sequence_of k st = place (ledger k) (v1_vector_id st) (v1_space_id st)"
  "unused_id k i \<longleftrightarrow> room_for (ledger k) i"
  "short_ids k \<longleftrightarrow> short_ledger (ledger k)"
  by (simp_all add: sequence_of_mset place_def ledger_def filter_mset_image_mset room_for_def unused_id_def
      short_ledger_def short_ids_def)

lemma ledger_written [simp]: "ledger (written sts rs k) = ledger k"
  by (simp add: ledger_def)

lemma ledger_new [simp]: "ledger kernel_new = {#}"
  by (simp add: ledger_def kernel_new_def store_default_def list_events_def)

lemma log_ledger:
  assumes "store_ok (ke_store k)" "log_transition X b after op' lc ts ps k = (k', Ok u)"
  shows "ledger k' = add_mset (v1_vector_id after, v1_space_id after,
      canonical_event_id (v1_vector_id after) (v1_space_id after) op' lc
        (of_nat (place (ledger k) (v1_vector_id after) (v1_space_id after)))) (ledger k)"
    and "store_ok (ke_store k')" "narrow after"
proof -
  let ?e = "transition_event (cr_hash X) b after op' lc ts (ps k) (of_nat (sequence_of k after))"
  obtain t where t: "append_event ?e (ke_store k) = Ok t" "k' = k\<lparr> ke_store := t \<rparr>" "narrow after"
    using assms(2) by (auto simp: log_transition_Ok append_canonical_event_Ok)
  note a = store_ok_append [OF assms(1) t(1)]
  show "ledger k' = add_mset (v1_vector_id after, v1_space_id after,
      canonical_event_id (v1_vector_id after) (v1_space_id after) op' lc
        (of_nat (place (ledger k) (v1_vector_id after) (v1_space_id after)))) (ledger k)"
    using a(2) by (simp add: ledger_def [of k'] t(2) ledger_facts(1)) (simp add: ledger_def)
  show "store_ok (ke_store k')" "narrow after" using a(1) t(2,3) by simp_all
qed

section \<open>A step of one vector\<close>

text \<open>What an operation on one vector leaves: its new state, one more entry in the ledger.\<close>

definition steps_to ::
  "crates \<Rightarrow> kernel_engine \<Rightarrow> string \<Rightarrow> operation_type \<Rightarrow> vector_state_v1 \<Rightarrow> kernel_engine \<Rightarrow> bool" where
  "steps_to X k v op' after k' \<longleftrightarrow>
     kernel_ok X k' \<and> party k' v after \<and> (\<forall>w. w \<noteq> v \<longrightarrow> get_state (ke_store k') w = get_state (ke_store k) w) \<and>
     ledger k' = add_mset (v, v1_space_id after,
       canonical_event_id v (v1_space_id after) op' (v1_version after)
         (of_nat (place (ledger k) v (v1_space_id after)))) (ledger k)"

lemma steps_toI:
  assumes "kernel_ok X k" "kernel_ok X k'" "v1_vector_id after = v"
    and "trim (v1_space_id after) \<noteq> []" "trim v \<noteq> []" "trim (v1_owner_pubkey after) \<noteq> []"
    and "log_transition X b after op' (v1_version after) ts ps (written [after] [r] k) = (k', Ok u)"
  shows "steps_to X k v op' after k'"
proof -
  have ok: "store_ok (ke_store k)" using assms(1) by (simp add: kernel_ok_def)
  note l = log_ledger [OF written_ok [OF ok] assms(7)]
  show ?thesis
    using l assms(2-6) log_transition_frame(1) [OF assms(7)]
    by (simp add: steps_to_def party_def vectors.get_put)
qed

lemma party_elsewhere: "steps_to X k v op' after k' \<Longrightarrow> party k w st \<Longrightarrow> w \<noteq> v \<Longrightarrow> party k' w st"
  by (simp add: steps_to_def party_def)


section \<open>What the crates must do\<close>

text \<open>
  A hash that is never empty, and a serializer that has a JSON value for every list of numbers of 64
  bits. That no operation is refused for a collision of the hash is said of the run itself.
\<close>

definition ready_crates :: "crates \<Rightarrow> bool" where
  "ready_crates X \<longleftrightarrow> (\<forall>b. cr_hash X b \<noteq> []) \<and>
     (\<forall>cs. (\<forall>c \<in> set cs. unat c < 2 ^ 64) \<longrightarrow> (\<exists>j. json_u128s (cr_serde X) cs = Ok j))"

lemma ready_cratesD:
  assumes "ready_crates X"
  shows "\<forall>b. cr_hash X b \<noteq> []"
    "\<forall>cs. (\<forall>c \<in> set cs. unat c < 2 ^ 64) \<longrightarrow> (\<exists>j. json_u128s (cr_serde X) cs = Ok j)"
  using assms by (simp_all add: ready_crates_def)

lemma ready_json: "ready_crates X \<Longrightarrow> \<forall>c \<in> set cs. unat c < 2 ^ 64 \<Longrightarrow> \<exists>j. json_u128s (cr_serde X) cs = Ok j"
  by (simp add: ready_crates_def)

lemma sample_crates_ready: "ready_crates sample_crates"
  using sample_crates_hash(2) sample_json by (simp add: ready_crates_def)

abbreviation no_refusal :: "crates \<Rightarrow> kernel_engine \<times> 'a outcome \<Rightarrow> bool" where
  "no_refusal X kr \<equiv> \<not> hash_collision X (fst kr) (snd kr)"

section \<open>The operations\<close>

lemma origin_flows:
  assumes X: "ready_crates X" and k: "kernel_ok X k" "short_ledger (ledger k)" and nc: "no_refusal X (origin_create X clk v ow sp cs seed nonce difficulty k)"
    and o: "verify_origin (cr_hash X) seed nonce difficulty"
    and ids: "trim v \<noteq> []" "trim ow \<noteq> []" "trim sp \<noteq> []"
    and cs: "cs \<noteq> []" "nat_sum cs < 2 ^ 128" "\<forall>c \<in> set cs. unat c < 2 ^ 64"
    and n: "place (ledger k) v sp < 2 ^ 64"
      "room_for (ledger k) (canonical_event_id v sp Op_OriginCreate 1 (of_nat (place (ledger k) v sp)))"
  obtains k' st where "origin_create X clk v ow sp cs seed nonce difficulty k = (k', Ok st)"
    "steps_to X k v Op_OriginCreate st k'" "v1_components st = cs" "v1_version st = 1" "v1_space_id st = sp"
    "v1_projection st = None"
proof -
  note H = ready_cratesD [OF X]
  have ne: "v \<noteq> []" "ow \<noteq> []" "sp \<noteq> []" using ids by auto
  let ?n = "length (filter (\<lambda>e. ev_entity_id e = v \<and> ev_region_id e = sp) (load_events_for_replay (ke_store k)))"
  have place: "place (ledger k) v sp = ?n + 1"
  proof -
    have "?n = size (mset (filter (\<lambda>e. ev_entity_id e = v \<and> ev_region_id e = sp) (load_events_for_replay (ke_store k))))"
      by (simp only: size_mset)
    then have "?n = size (filter_mset (\<lambda>e. ev_entity_id e = v \<and> ev_region_id e = sp) (mset (list_events (ke_store k))))"
      by (simp only: mset_filter load_events_mset)
    then show ?thesis by (simp add: place_def ledger_def filter_mset_image_mset)
  qed
  have short: "short_ids k" using k(2) by (simp add: ledger_facts(3))
  have small: "?n + 1 < 2 ^ 64" using n(1) unfolding place .
  have "unused_id k (canonical_event_id v sp Op_OriginCreate 1 (of_nat (?n + 1)))"
    using n(2) unfolding ledger_facts(2) place .
  then have room: "ok_len (canonical_event_id v sp Op_OriginCreate 1 (of_nat (?n + 1)))"
    "\<forall>f \<in> set (list_events (ke_store k)).
       ev_event_id f \<noteq> canonical_event_id v sp Op_OriginCreate 1 (of_nat (?n + 1))"
    unfolding unused_id_def by blast+
  obtain k' c e where r: "origin_create X clk v ow sp cs seed nonce difficulty k =
       (k', Ok (origin_vector (cr_hash X) (clk 0) v ow sp cs seed nonce difficulty c))" "kernel_ok X k'"
    "get_state (ke_store k') =
       (get_state (ke_store k))(v \<mapsto> origin_vector (cr_hash X) (clk 0) v ow sp cs seed nonce difficulty c)"
    "mset (list_events (ke_store k')) = add_mset e (mset (list_events (ke_store k)))"
    "ev_event_id e = canonical_event_id v sp Op_OriginCreate 1 (of_nat (?n + 1))" "ev_entity_id e = v" "ev_region_id e = sp"
    by (rule origin_create_succeeds [OF k(1) nc H(1) short o ids ne cs refl small refl room]) (rule that)
  let ?v = "origin_vector (cr_hash X) (clk 0) v ow sp cs seed nonce difficulty c"
  have "steps_to X k v Op_OriginCreate ?v k'"
    using r ids cs(3) place by (simp add: steps_to_def party_def narrow_def ledger_def)
  then show thesis by (rule that [OF r(1)]) (simp_all add: origin_vector_def v1_new_def)
qed

lemma stored_party:
  assumes "kernel_ok X k" "party k v st"
  shows "v1_vector_id st = v" "stored_ok st" "get_state (ke_store k) v = Some st" "v1_components st \<noteq> []"
    "drain_discount bps (cs_auth_ratio (v1_certification st)) (cs_threshold (v1_certification st)) = bps div 2"
proof -
  have ok: "store_ok (ke_store k)" using assms(1) by (simp add: kernel_ok_def)
  show g: "get_state (ke_store k) v = Some st" using assms(2) by (simp add: party_def)
  show v: "v1_vector_id st = v" by (rule vectors.get_key [OF ok g])
  show s: "stored_ok st" using assms(1) g vectors.values_get [OF ok, of st] v by (simp add: kernel_ok_def)
  then show "v1_components st \<noteq> []" by (simp add: stored_ok_def validate_state_eq validate_canonical_state_Ok)
  from s show "drain_discount bps (cs_auth_ratio (v1_certification st)) (cs_threshold (v1_certification st)) = bps div 2"
    by (auto simp: stored_ok_def certification_ok_def drain_discount_def)
qed

lemma drain_flows:
  assumes X: "ready_crates X" and k: "kernel_ok X k" "short_ledger (ledger k)" and nc: "no_refusal X (drain X clk v bps k)"
    and p: "party k v st" and bps: "unat bps \<le> 10000"
    and sum: "nat_sum (v1_components st) < 2 ^ 128" and version: "unat (v1_version st) + 1 < 2 ^ 64"
    and n: "place (ledger k) v (v1_space_id st) = n" "n < 2 ^ 64"
      "room_for (ledger k) (canonical_event_id v (v1_space_id st) Op_Drain (v1_version st + 1) (of_nat n))"
  obtains k' after where "drain X clk v bps k = (k', Ok after)" "steps_to X k v Op_Drain after k'"
    "v1_components after = map (\<lambda>a. saturating_sub a (drain_fee (bps div 2) a)) (v1_components st)"
    "v1_version after = v1_version st + 1" "v1_space_id after = v1_space_id st"
    "v1_projection after = v1_projection st"
proof -
  note H = ready_cratesD [OF X] and s = stored_party [OF k(1) p]
  obtain k' after where r: "drain X clk v bps k = (k', Ok after)"
    by (rule drain_succeeds [OF k(1) nc H(1) _ p bps sum version H(2), of n])
      (use n k(2) s in \<open>simp_all add: ledger_facts\<close>)
  obtain st' d rem c q where d: "get_state (ke_store k) v = Some st'"
    "apply_drain (v1_components st') bps (cs_auth_ratio (v1_certification st'))
       (cs_threshold (v1_certification st')) = Ok (d, rem)"
    "after = st'\<lparr> v1_components := rem, v1_certification := c, v1_updated_at_ms := clk 1,
       v1_version := v1_version st' + 1 \<rparr>"
    "log_transition X (Some st') after Op_Drain (v1_version after) (clk 1)
       (\<lambda>k. latest_parent_hash_for_entity k (v1_vector_id after)) (written [after] [q] k) = (k', Ok ())"
    by (rule drain_Ok [OF r]) (rule that; assumption)
  have st: "st' = st" using d(1) s(3) by simp
  have k': "kernel_ok X k'" using keepsD [OF drain_keeps k(1) r] by blast
  have "steps_to X k v Op_Drain after k'"
    by (rule steps_toI [OF k(1) k' _ _ _ _ d(4)]) (use p s(1) st d(3) in \<open>simp_all add: party_def\<close>)
  moreover have "rem = map (\<lambda>a. saturating_sub a (drain_fee (bps div 2) a)) (v1_components st)"
    using d(2) s(5) by (simp add: st apply_drain_def drain_loop_maps split: if_splits)
  ultimately show thesis using that [OF r] d(3) by (simp add: st)
qed

lemma project_flows:
  assumes X: "ready_crates X" and k: "kernel_ok X k" "short_ledger (ledger k)" and nc: "no_refusal X (project X clk v part escrow k)"
    and p: "party k v st" and len: "length part = length (v1_components st)"
    and funds: "\<forall>i < length part. part ! i \<le> v1_components st ! i"
    and sum: "nat_sum (v1_components st) < 2 ^ 128" and version: "unat (v1_version st) + 1 < 2 ^ 64"
    and n: "place (ledger k) v (v1_space_id st) = n" "n < 2 ^ 64"
      "room_for (ledger k) (canonical_event_id v (v1_space_id st) Op_Project (v1_version st + 1) (of_nat n))"
  obtains k' after q where "project X clk v part escrow k = (k', Ok after)" "steps_to X k v Op_Project after k'"
    "v1_components after = map2 saturating_sub (v1_components st) part"
    "v1_version after = v1_version st + 1" "v1_space_id after = v1_space_id st"
    "v1_projection after = Some q" "ps_projected_components q = part"
proof -
  note H = ready_cratesD [OF X] and s = stored_party [OF k(1) p]
  have "\<forall>c \<in> set part. unat c < 2 ^ 64"
    by (rule narrow_le [of st]) (use p len funds in \<open>auto simp: party_def word_le_nat_alt\<close>)
  then obtain j where j: "json_u128s (cr_serde X) part = Ok j" using ready_json [OF X] by blast
  obtain k' after where r: "project X clk v part escrow k = (k', Ok after)"
    by (rule project_succeeds [OF k(1) nc H(1) _ p len funds sum version j, of n])
      (use n k(2) s in \<open>simp_all add: ledger_facts\<close>)
  obtain st' mid c q where d: "get_state (ke_store k) v = Some st'"
    "project_vector (cr_checks X) (clk 0) st' part escrow = Ok mid" "after = mid\<lparr> v1_certification := c \<rparr>"
    "log_transition X (Some st') after Op_Project (v1_version after) (v1_updated_at_ms after)
       (\<lambda>k. latest_parent_hash_for_entity k (v1_vector_id after)) (written [after] [q] k) = (k', Ok ())"
    by (rule project_Ok [OF r]) (rule that; assumption)
  have st: "st' = st" using d(1) s(3) by simp
  note m = project_vector_Ok [OF d(2) [unfolded st]]
  have k': "kernel_ok X k'" using keepsD [OF project_keeps k(1) r] by blast
  have "steps_to X k v Op_Project after k'"
    by (rule steps_toI [OF k(1) k' _ _ _ _ d(4)]) (use p s(1) m d(3) in \<open>simp_all add: party_def\<close>)
  then show thesis using that [OF r] d(3) m by simp
qed


lemma reconstruct_flows:
  fixes out :: settlement_outcome
  assumes X: "ready_crates X" and k: "kernel_ok X k" "short_ledger (ledger k)" and nc: "no_refusal X (reconstruct X clk v out k)"
    and p: "party k v st" and proj: "v1_projection st = Some pr"
    and len: "length (so_gains out) = length (v1_components st)" "length (so_losses out) = length (v1_components st)"
      "length (ps_projected_components pr) = length (v1_components st)"
    and zs: "zs = zip (zip (ps_projected_components pr) (so_gains out)) (so_losses out)" "list_all settle_fits zs"
    and cs: "cs = map2 saturating_add (v1_components st) (map settle_net zs)" "nat_sum cs < 2 ^ 128"
      "\<forall>c \<in> set cs. unat c < 2 ^ 64"
    and small: "\<forall>c \<in> set (so_gains out). unat c < 2 ^ 64" "\<forall>c \<in> set (so_losses out). unat c < 2 ^ 64"
    and version: "unat (v1_version st) + 1 < 2 ^ 64"
    and n: "place (ledger k) v (v1_space_id st) = n" "n < 2 ^ 64"
      "room_for (ledger k) (canonical_event_id v (v1_space_id st) Op_Reconstruct (v1_version st + 1) (of_nat n))"
  obtains k' after where "reconstruct X clk v out k = (k', Ok after)" "steps_to X k v Op_Reconstruct after k'"
    "v1_components after = cs" "v1_version after = v1_version st + 1" "v1_space_id after = v1_space_id st"
proof -
  note H = ready_cratesD [OF X] and s = stored_party [OF k(1) p]
  have loop: "settle_loop 0 zs (v1_components st) [] = Ok (cs, map settle_net zs)"
    using zs len cs(1) by (simp add: settle_loop_same_dim)
  define mid where "mid = st\<lparr> v1_components := cs,
    v1_projection := Some (pr\<lparr> ps_settled_components := map settle_net zs,
      ps_settlement_at_ms := Some (clk 0), ps_outcome_tag := Some (so_outcome_tag out) \<rparr>),
    v1_vector_type := VT_Settlement, v1_status := VS_Settled,
    v1_updated_at_ms := clk 0, v1_version := v1_version st + 1 \<rparr>"
  have mid: "reconstruct_vector (cr_checks X) (clk 0) st out = Ok mid"
    using proj len loop zs(1) version
    by (simp add: reconstruct_vector_def bump_version_def plus_checked_def mid_def)
  have clen: "length cs = length (v1_components st)" using cs(1) zs(1) len by simp
  then have ne: "cs \<noteq> []" using s(4) by auto
  obtain c where c: "certify_state (cr_checks X) (clk (Suc 0)) mid True True = Ok c"
    using certify_state_returns [of mid] cs(2) by (force simp: mid_def)
  let ?a = "mid\<lparr> v1_certification := c \<rparr>"
  have cok: "certification_ok c"
    using certified_again [OF c] stored_threshold [OF s(2)] ne by (simp add: mid_def)
  have va: "validate_state ?a = Ok ()"
    using s(2) ne by (simp add: stored_ok_def validate_state_eq validate_canonical_state_Ok mid_def)
  have mv: "v1_vector_id mid = v" "v1_version mid = v1_version st + 1" using s(1) by (simp_all add: mid_def)
  obtain j1 j2 where j: "json_u128s (cr_serde X) (so_gains out) = Ok j1" "json_u128s (cr_serde X) (so_losses out) = Ok j2"
    using ready_json [OF X] small by metis
  obtain r where run: "reconstruct X clk v out k =
      act_bind (log_transition X (Some st) ?a Op_Reconstruct (v1_version mid) (v1_updated_at_ms mid)
        (\<lambda>k. latest_parent_hash_for_entity k v)) (\<lambda>_. act_return ?a) (written [?a] [r] k)"
    by (rule that) (simp add: reconstruct_def Let_def fetch_step [OF s(3)] try_step [OF mid] try_step [OF c]
        try_step [OF va] try_step [OF j(1)] try_step [OF j(2)] write_step record_step kept_written mv)
  obtain k' where k': "log_transition X (Some st) ?a Op_Reconstruct (v1_version mid) (v1_updated_at_ms mid)
      (\<lambda>k. latest_parent_hash_for_entity k v) (written [?a] [r] k) = (k', Ok ())"
    by (rule updated_succeeds [OF k(1) H(1) _ collision_step(1) [OF nc [unfolded run]] p, of n])
      (use k(2) s(1) cok cs(3) clen n mv in \<open>auto simp: narrow_def ledger_facts mid_def\<close>)
  have r: "reconstruct X clk v out k = (k', Ok ?a)" unfolding run by (simp add: act_bind_step k' act_return_def)
  have "steps_to X k v Op_Reconstruct ?a k'"
    by (rule steps_toI [OF k(1) keepsD [OF reconstruct_keeps k(1) r, THEN conjunct1], where b = "Some st"
          and ts = "v1_updated_at_ms mid" and ps = "\<lambda>k. latest_parent_hash_for_entity k v" and r = r])
      (use p s(1) k' in \<open>simp_all add: party_def mid_def\<close>)
  then show thesis using that [OF r] by (simp add: mid_def)
qed

lemma transfer_flows:
  assumes X: "ready_crates X" and k: "kernel_ok X k" "short_ledger (ledger k)" and nc: "no_refusal X (transfer X clk v w amount k)"
    and p: "party k v st" "party k w st'" "v \<noteq> w"
    and dim: "length (v1_components st) = length amount" "length (v1_components st') = length amount"
    and funds: "\<forall>i < length amount. amount ! i \<le> v1_components st ! i"
    and room: "list_all2 (\<lambda>x y. unat x + unat y < 2 ^ 64) (v1_components st') amount"
    and sums: "nat_sum (v1_components st) < 2 ^ 128" "nat_sum (v1_components st') + nat_sum amount < 2 ^ 128"
    and n: "place (ledger k) v (v1_space_id st) = n" "place (ledger k) w (v1_space_id st') = n'"
      "n < 2 ^ 64" "n' < 2 ^ 64"
      "room_for (ledger k) (canonical_event_id v (v1_space_id st) Op_Transfer (v1_version st) (of_nat n))"
      "room_for (ledger k) (canonical_event_id w (v1_space_id st') Op_Transfer (v1_version st') (of_nat n'))"
      "canonical_event_id v (v1_space_id st) Op_Transfer (v1_version st) (of_nat n) \<noteq>
       canonical_event_id w (v1_space_id st') Op_Transfer (v1_version st') (of_nat n')"
  obtains k' a b where "transfer X clk v w amount k = (k', Ok (a, b))" "kernel_ok X k'" "party k' v a" "party k' w b"
    "v1_components a = map2 saturating_sub (v1_components st) amount"
    "v1_components b = map2 saturating_add (v1_components st') amount"
    "v1_version a = v1_version st" "v1_version b = v1_version st'"
    "v1_space_id a = v1_space_id st" "v1_space_id b = v1_space_id st'"
    "\<And>u. u \<noteq> v \<Longrightarrow> u \<noteq> w \<Longrightarrow> get_state (ke_store k') u = get_state (ke_store k) u"
    "ledger k' = {# (v, v1_space_id st, canonical_event_id v (v1_space_id st) Op_Transfer (v1_version st) (of_nat n)),
       (w, v1_space_id st', canonical_event_id w (v1_space_id st') Op_Transfer (v1_version st') (of_nat n')) #} + ledger k"
proof -
  note H = ready_cratesD [OF X] and s = stored_party [OF k(1) p(1)] and s' = stored_party [OF k(1) p(2)]
  have ok: "store_ok (ke_store k)" using k(1) by (simp add: kernel_ok_def)
  have "\<forall>c \<in> set amount. unat c < 2 ^ 64"
    by (rule narrow_le [of st]) (use p(1) dim(1) funds in \<open>auto simp: party_def word_le_nat_alt\<close>)
  then obtain j where j: "json_u128s (cr_serde X) amount = Ok j" using ready_json [OF X] by blast
  obtain k' a b where r: "transfer X clk v w amount k = (k', Ok (a, b))"
    by (rule transfer_logs_parts [OF k(1) nc H(1) _ p(1,2) dim funds room sums j, of n n'])
      (use n p(3) k(2) s(1) s'(1) in \<open>simp_all add: ledger_facts transfer_id_def\<close>)
  obtain u u' mid mid' c c' q q' k1 where t:
    "get_state (ke_store k) v = Some u" "get_state (ke_store k) w = Some u'"
    "transfer_components u u' amount = Ok (mid, mid')" "a = mid\<lparr> v1_certification := c \<rparr>" "b = mid'\<lparr> v1_certification := c' \<rparr>"
    "log_transition X (Some u) a Op_Transfer (v1_version a) (clk 6)
       (\<lambda>k. latest_parent_hash_for_entity k (v1_vector_id a)) (written [a, b] [q, q'] k) = (k1, Ok ())"
    "log_transition X (Some u') b Op_Transfer (v1_version b) (clk 7)
       (\<lambda>k. latest_parent_hash_for_entity k (v1_vector_id b)) k1 = (k', Ok ())"
    by (rule transfer_Ok [OF r]) (rule that; assumption)
  have u: "u = st" "u' = st'" using t(1,2) s(3) s'(3) by simp_all
  note m = t(3) [unfolded transfer_components_Ok u]
  have ids: "v1_vector_id a = v" "v1_vector_id b = w" using t(4,5) m s(1) s'(1) by simp_all
  note l1 = log_ledger [OF written_ok [OF ok] t(6)]
  note l2 = log_ledger [OF l1(2) t(7)]
  have f: "get_state (ke_store k') = (get_state (ke_store k))(v \<mapsto> a, w \<mapsto> b)"
    by (simp add: log_transition_frame(1) [OF t(7)] log_transition_frame(1) [OF t(6)] fun_eq_iff vectors.get_put ids)
  have fields: "v1_version a = v1_version st" "v1_version b = v1_version st'"
    "v1_space_id a = v1_space_id st" "v1_space_id b = v1_space_id st'"
    "v1_owner_pubkey a = v1_owner_pubkey st" "v1_owner_pubkey b = v1_owner_pubkey st'"
    using t(4,5) m by simp_all
  have "place (ledger k1) w (v1_space_id st') = n'"
    using n(2) p(3) by (simp add: l1(1) ids fields place_def)
  then have L: "ledger k' = {# (v, v1_space_id st, canonical_event_id v (v1_space_id st) Op_Transfer (v1_version st) (of_nat n)),
       (w, v1_space_id st', canonical_event_id w (v1_space_id st') Op_Transfer (v1_version st') (of_nat n')) #} + ledger k"
    using n(1) by (simp add: l2(1) l1(1) ids fields)
  show thesis
  proof (rule that [OF r])
    show "kernel_ok X k'" using keepsD [OF transfer_keeps k(1) r] by blast
    show "party k' v a" "party k' w b" using p l1(3) l2(3) f s(1) s'(1) by (simp_all add: party_def fields ids)
    show "v1_components a = map2 saturating_sub (v1_components st) amount"
      "v1_components b = map2 saturating_add (v1_components st') amount" using t(4,5) m by simp_all
    show "get_state (ke_store k') x = get_state (ke_store k) x" if "x \<noteq> v" "x \<noteq> w" for x using that f by simp
  qed (rule fields L)+
qed

end
