(* ===== verification/Engine_Regions.thy ===== *)
theory Engine_Regions
  imports Engine_Flow
begin

text \<open>
  The log by the kinds of its events, and the regions of a kernel: every event of a reachable log has the
  shape of its operation, only \<open>create_region\<close> logs a region, and a region is found by its name.
\<close>

section \<open>The shape of an event\<close>

text \<open>
  What an event of each operation looks like, in the log \<open>events\<close>. A vector event is not signed; an origin
  is a root that starts from zero; any other has at most one parent, an event of the same vector. A region is
  a signed root that is its own region and has no components.
\<close>

definition same_entity :: "vector_event list \<Rightarrow> vector_event \<Rightarrow> string \<Rightarrow> bool" where
  "same_entity events e p \<longleftrightarrow> list_ex (\<lambda>f. ev_event_hash f = p \<and> ev_entity_id f = ev_entity_id e) events"

definition well_typed :: "vector_event list \<Rightarrow> vector_event \<Rightarrow> bool" where
  "well_typed events e \<longleftrightarrow>
     (if ev_operation e = Op_OriginCreate then
        ev_signature e = [] \<and> ev_parent_hashes e = [] \<and> list_all (\<lambda>c. c = 0) (vs_components (ev_vector_before e))
      else if ev_operation e = Op_Other REGION_CREATE_OPERATION_NAME then
        trim (ev_signature e) \<noteq> [] \<and> ev_parent_hashes e = [] \<and>
        ev_entity_id e = ev_region_id e \<and> vs_components (ev_vector_after e) = []
      else
        ev_operation e \<in> {Op_Certify, Op_Transfer, Op_Drain, Op_Project, Op_Reconstruct} \<and>
        ev_signature e = [] \<and> length (ev_parent_hashes e) \<le> 1 \<and> list_all (same_entity events e) (ev_parent_hashes e))"

lemma well_typed_mono: "set es \<subseteq> set fs \<Longrightarrow> well_typed es e \<Longrightarrow> well_typed fs e"
  unfolding well_typed_def same_entity_def list_all_iff list_ex_iff by (auto split: if_splits; blast)

section \<open>What the operations on vectors log\<close>

text \<open>From one kernel to a later one the log gains well-typed events, none of them a region.\<close>

definition logs_vectors :: "kernel_engine \<Rightarrow> kernel_engine \<Rightarrow> bool" where
  "logs_vectors k k' \<longleftrightarrow>
     (store_ok (ke_store k) \<longrightarrow>
        store_ok (ke_store k') \<and>
        (\<exists>es. mset (list_events (ke_store k')) = mset (list_events (ke_store k)) + mset es \<and>
           (\<forall>e \<in> set es. \<not> is_region_create_event e \<and> well_typed (list_events (ke_store k')) e)))"

lemma mset_appended: "mset fs = mset ds + mset es \<Longrightarrow> set fs = set ds \<union> set es"
  using mset_eq_setD [of fs "ds @ es"] by simp

interpretation typing: step_relation logs_vectors
proof
  fix k show "logs_vectors k k" unfolding logs_vectors_def by (intro impI conjI exI [of _ "[]"]) simp_all
next
  fix k1 k2 k3 assume a: "logs_vectors k1 k2" "logs_vectors k2 k3"
  show "logs_vectors k1 k3"
    unfolding logs_vectors_def
  proof
    assume "store_ok (ke_store k1)"
    with a(1) obtain es where es: "store_ok (ke_store k2)"
      "mset (list_events (ke_store k2)) = mset (list_events (ke_store k1)) + mset es"
      "\<forall>e \<in> set es. \<not> is_region_create_event e \<and> well_typed (list_events (ke_store k2)) e"
      unfolding logs_vectors_def by blast
    from a(2) es(1) obtain fs where fs: "store_ok (ke_store k3)"
      "mset (list_events (ke_store k3)) = mset (list_events (ke_store k2)) + mset fs"
      "\<forall>e \<in> set fs. \<not> is_region_create_event e \<and> well_typed (list_events (ke_store k3)) e"
      unfolding logs_vectors_def by blast
    have "\<forall>e \<in> set es. well_typed (list_events (ke_store k3)) e"
      using es(3) mset_appended [OF fs(2)] well_typed_mono by blast
    then show "store_ok (ke_store k3) \<and>
        (\<exists>es. mset (list_events (ke_store k3)) = mset (list_events (ke_store k1)) + mset es \<and>
           (\<forall>e \<in> set es. \<not> is_region_create_event e \<and> well_typed (list_events (ke_store k3)) e))"
      using es fs by (intro conjI exI [of _ "es @ fs"]) auto
  qed
qed

lemma events_put: "list_events (put_state st s) = list_events s" "list_events (put_record r s) = list_events s"
  by (simp_all add: put_state_def put_record_def list_events_def)

lemma logs_put_state: "within logs_vectors (on_store (put_state st))"
  unfolding on_store_def
  by (rule typing.within_modify)
    (auto simp: logs_vectors_def vectors.ok_put events_put intro: exI [of _ "[]"])

lemma logs_keep_record: "within logs_vectors (keep_record r)"
  unfolding keep_record_def
  by (rule typing.within_modify)
    (auto simp: logs_vectors_def audit.ok_put events_put intro: exI [of _ "[]"])

lemma latest_parent_same:
  "p \<in> set (latest_parent_hash_for_entity k v) \<Longrightarrow>
     length (latest_parent_hash_for_entity k v) = 1 \<and>
     (\<exists>f \<in> set (list_events (ke_store k)). ev_event_hash f = p \<and> ev_entity_id f = v)"
proof (cases "find (\<lambda>event. ev_entity_id event = v)
    (rev (sort_key canonical_event_sort_key (load_events_for_replay (ke_store k))))")
  case (Some f)
  moreover assume "p \<in> set (latest_parent_hash_for_entity k v)"
  ultimately show ?thesis
    using find_SomeD [OF Some] mset_eq_setD [OF load_events_mset, of "ke_store k"]
    by (auto simp: latest_parent_hash_for_entity_def)
qed (simp add: latest_parent_hash_for_entity_def)

lemma logs_log:
  assumes "plain_transition op' after"
    and "op' = Op_OriginCreate \<Longrightarrow> b = None \<and> parents = (\<lambda>k. [])"
    and "op' \<noteq> Op_OriginCreate \<Longrightarrow> parents = (\<lambda>k. latest_parent_hash_for_entity k (v1_vector_id after))"
  shows "within logs_vectors (log_transition X b after op' lc ts parents)"
  unfolding within_def
proof
  fix k
  obtain k' r where l: "log_transition X b after op' lc ts parents k = (k', r)" by fastforce
  show "logs_vectors k (fst (log_transition X b after op' lc ts parents k))"
  proof (cases "r = Ok ()")
    case False
    from log_transition_fails [OF l False] l show ?thesis by (simp add: typing.rel_refl)
  next
    case True
    define e where "e = transition_event (cr_hash X) b after op' lc ts (parents k) (of_nat (sequence_of k after))"
    from l True obtain s where s: "append_event e (ke_store k) = Ok s" "k' = k\<lparr> ke_store := s \<rparr>"
      by (auto simp: log_transition_Ok append_canonical_event_Ok e_def)
    have "well_typed (list_events s) e" if "store_ok (ke_store k)"
    proof -
      have log: "set (list_events s) = insert e (set (list_events (ke_store k)))"
        using mset_eq_setD [of "list_events s" "e # list_events (ke_store k)"] store_ok_append(2) [OF that s(1)] by simp
      have "length (parents k) \<le> 1 \<and> list_all (same_entity (list_events s) e) (parents k)" if "op' \<noteq> Op_OriginCreate"
        using latest_parent_same [of _ k "v1_vector_id after"] assms(3) [OF that] log
        by (cases "parents k") (auto simp: list_all_iff same_entity_def list_ex_iff e_def)
      with assms(1,2) show ?thesis
        by (auto simp: well_typed_def plain_transition_def e_def event_before_def vs_zero_def list_all_iff)
    qed
    moreover have "\<not> is_region_create_event e" unfolding e_def by (rule transition_not_region [OF assms(1)])
    ultimately show ?thesis
      using store_ok_append [OF _ s(1)] l s(2) by (auto simp: logs_vectors_def intro!: exI [of _ "[e]"])
  qed
qed

lemmas logs_intros = typing.within_bind typing.within_intros typing.within_prod typing.within_if
  typing.within_let logs_put_state logs_keep_record logs_log

lemma operations_log_vectors:
  "within logs_vectors (certify X clk v)"
  "within logs_vectors (transfer X clk v w amount)"
  "within logs_vectors (drain X clk v bps)"
  "within logs_vectors (project X clk v cs escrow)"
  "within logs_vectors (reconstruct X clk v out)"
  unfolding certify_def transfer_def drain_def project_def reconstruct_def fetch_state_def Let_def
  by (intro logs_intros; simp add: plain_transition_def)+

lemma origin_logs_vectors: "within logs_vectors (origin_create X clk v ow sp cs seed nonce difficulty)"
  unfolding origin_create_def Let_def
  by (rule typing.within_try_bind)
    (intro logs_intros; simp add: plain_transition_def create_origin_vector_Ok)


section \<open>What \<open>create_region\<close> logs\<close>

lemma create_region_Ok:
  assumes "create_region X clk request pk k = (k', Ok rg)"
  obtains e s where
    "build_region_genesis_event (cr_hash X) (cr_map_json X) request pk (next_logical_clock k) (clk 0) 1 = Ok e"
    "append_event e (ke_store k) = Ok s" "k' = k\<lparr> ke_store := s \<rparr>" "region_state_from_event e = Ok rg"
  using assms
  by (auto simp: create_region_def act_bind_Ok act_try_def act_get_def append_canonical_event_Ok Let_def
      split: if_splits)

text \<open>Whatever it returns, it left the kernel as it was, or logged the genesis event of a name not in use.\<close>

lemma create_region_cases:
  assumes "create_region X clk request pk k = (k', r)"
  obtains "k' = k" "\<nexists>rg. r = Ok rg"
  | e s where
    "query_region_by_name k (rq_region_name request) (rq_region_prefix request) = Ok None"
    "build_region_genesis_event (cr_hash X) (cr_map_json X) request pk (next_logical_clock k) (clk 0) 1 = Ok e"
    "append_event e (ke_store k) = Ok s" "k' = k\<lparr> ke_store := s \<rparr>" "r = region_state_from_event e"
proof -
  have "(k' = k \<and> (\<nexists>rg. r = Ok rg)) \<or>
    (\<exists>e s. query_region_by_name k (rq_region_name request) (rq_region_prefix request) = Ok None \<and>
      build_region_genesis_event (cr_hash X) (cr_map_json X) request pk (next_logical_clock k) (clk 0) 1 = Ok e \<and>
      append_event e (ke_store k) = Ok s \<and> k' = k\<lparr> ke_store := s \<rparr> \<and> r = region_state_from_event e)"
  proof (cases "\<exists>e k1. build_region_genesis_event (cr_hash X) (cr_map_json X) request pk (next_logical_clock k) (clk 0) 1 = Ok e \<and>
      query_region_by_name k (rq_region_name request) (rq_region_prefix request) = Ok None \<and>
      append_canonical_event X e k = (k1, Ok ()) \<and> k' = k1 \<and> r = region_state_from_event e")
    case True
    then show ?thesis by (auto simp: append_canonical_event_Ok)
  next
    case False
    with assms show ?thesis
      by (auto simp: create_region_def act_bind_def act_try_def act_get_def Let_def
          split: if_splits result.splits prod.splits dest: append_canonical_event_fails)
  qed
  then show thesis using that by blast
qed

lemma region_state_id: "region_state_from_event e = Ok rg \<Longrightarrow> rs_region_id rg = ev_entity_id e"
  by (auto simp: region_state_from_event_def Let_def split: if_splits)

lemma genesis_is_region: "build_region_genesis_event H J rq pk lc ts n = Ok e \<Longrightarrow> is_region_create_event e"
  by (simp add: genesis_event_fields(5) is_region_create_event_def)

lemma genesis_well_typed:
  assumes "build_region_genesis_event H J rq pk lc ts n = Ok e"
  shows "well_typed es e"
proof -
  have "trim (rq_request_signature rq) \<noteq> []"
    using genesis_event_fields(1) [OF assms] by (auto simp: validate_region_create_request_def split: if_splits)
  moreover have "vs_components (ev_vector_after e) = []"
    using assms by (auto simp: build_region_genesis_event_def Let_def ev_new_def vs_new_def)
  ultimately show ?thesis using genesis_event_fields [OF assms] by (simp add: well_typed_def)
qed

text \<open>The metadata of a request goes under its own prefix, so it hides none of the fixed entries.\<close>

lemma get_inserted_other:
  "strip_prefix p q = None \<Longrightarrow> bt_get (fold (\<lambda>(k, v). bt_insert (p @ k) v) m acc) q = bt_get acc q"
  by (induction m arbitrary: acc) (auto simp: strip_prefix_def)

lemma genesis_region_state:
  assumes "build_region_genesis_event H J rq pk lc ts n = Ok e" "trim (ev_event_hash e) \<noteq> []"
  obtains rg where "region_state_from_event e = Ok rg" "rs_auth_ratio_bps rg = DEFAULT_REGION_AUTH_RATIO_BPS"
    "rs_region_name rg = rq_region_name rq" "rs_normalized_name rg = normalized_name rq"
    "rs_region_prefix rg = normalized_prefix rq"
proof -
  have g: "bt_get (genesis_metadata H rq pk) ''region_name'' = Some (rq_region_name rq)"
    "bt_get (genesis_metadata H rq pk) ''normalized_name'' = Some (normalized_name rq)"
    "bt_get (genesis_metadata H rq pk) ''region_prefix'' = Some (or_default (normalized_prefix rq))"
    "bt_get (genesis_metadata H rq pk) ''section'' = Some (show_word (rq_section rq))"
    "bt_get (genesis_metadata H rq pk) ''visibility'' = Some (visibility_as_str (rq_visibility rq))"
    "bt_get (genesis_metadata H rq pk) ''creator_public_key'' = Some pk"
    "bt_get (genesis_metadata H rq pk) ''trigger_event_hash'' = Some (rq_trigger_event_hash rq)"
    "bt_get (genesis_metadata H rq pk) ''creation_proof_hash'' = Some (hash_hex H (rq_creation_proof rq))"
    "bt_get (genesis_metadata H rq pk) ''initial_auth_ratio_bps'' = Some (show_word DEFAULT_REGION_AUTH_RATIO_BPS)"
    unfolding genesis_metadata_def Let_def
    by (subst get_inserted_other, simp add: strip_prefix_def, simp)+
  have p: "parse_visibility (Some (visibility_as_str v)) = Ok v" for v
    by (cases v) (simp_all add: parse_visibility_def)
  have x: "nonblank_get (genesis_metadata H rq pk) ''region_prefix'' = normalized_prefix rq"
    by (simp add: nonblank_or_default [OF g(3)] normalized_prefix_def filter_prefix_key)
  have "\<exists>rg. region_state_from_event e = Ok rg \<and> rs_auth_ratio_bps rg = DEFAULT_REGION_AUTH_RATIO_BPS \<and>
      rs_region_name rg = rq_region_name rq \<and> rs_normalized_name rg = normalized_name rq \<and>
      rs_region_prefix rg = normalized_prefix rq"
    by (simp add: region_state_from_event_def genesis_is_region [OF assms(1)] assms(2) Let_def
        genesis_event_fields(6) [OF assms(1)] g p x DEFAULT_REGION_AUTH_RATIO_BPS_def)
  then show thesis using that by blast
qed

section \<open>One step of the kernel\<close>

inductive_cases kernel_stepE: "kernel_step X k k'"

lemma kernel_step_logs:
  assumes "kernel_step X k k'" "store_ok (ke_store k)"
  obtains (vectors) "logs_vectors k k'"
  | (region) request pk clk e s where
    "query_region_by_name k (rq_region_name request) (rq_region_prefix request) = Ok None"
    "build_region_genesis_event (cr_hash X) (cr_map_json X) request pk (next_logical_clock k) (clk 0) 1 = Ok e"
    "append_event e (ke_store k) = Ok s" "k' = k\<lparr> ke_store := s \<rparr>"
proof (rule kernel_stepE [OF assms(1)])
  fix clk request pk rr assume "create_region X clk request pk k = (k', rr)"
  then show thesis
  proof (rule create_region_cases)
    assume "k' = k"
    with vectors typing.rel_refl show thesis by simp
  qed (rule region)
qed (blast intro: vectors operations_log_vectors [THEN withinD] origin_logs_vectors [THEN withinD])+


section \<open>The regions of a reachable kernel\<close>

text \<open>The name under which a region is found.\<close>

definition region_key :: "region_state \<Rightarrow> string \<times> string option" where
  "region_key rg = (rs_normalized_name rg, prefix_key (rs_region_prefix rg))"

definition request_key :: "region_create_request \<Rightarrow> string \<times> string option" where
  "request_key rq = (normalized_name rq, prefix_key (rq_region_prefix rq))"

abbreviation region_events :: "vector_event list \<Rightarrow> vector_event list" where
  "region_events events \<equiv> filter is_region_create_event events"

text \<open>The regions \<open>rss\<close> of the genesis events of a log: each has a name of its own, and is what a request made.\<close>

definition named_regions :: "vector_event list \<Rightarrow> region_state list \<Rightarrow> bool" where
  "named_regions events rss \<longleftrightarrow>
     map region_state_from_event (region_events events) = map Ok rss \<and> distinct (map region_key rss) \<and>
     (\<forall>rg \<in> set rss. rs_normalized_name rg = to_ascii_lowercase (trim (rs_region_name rg)) \<and>
        rs_auth_ratio_bps rg = DEFAULT_REGION_AUTH_RATIO_BPS)"

lemma mapped_perm:
  assumes "map f xs = map Ok ys" "mset xs = mset xs'"
  obtains ys' where "map f xs' = map Ok ys'" "mset ys' = mset ys"
proof -
  define val where "val x = (case f x of Ok y \<Rightarrow> y)" for x
  have v: "f x = Ok (val x)" if "x \<in> set xs'" for x
  proof -
    have "f x \<in> set (map Ok ys)" using that mset_eq_setD [OF assms(2)] unfolding assms(1) [symmetric] by simp
    then show ?thesis by (auto simp: val_def)
  qed
  have "ys = map val xs" using arg_cong [OF assms(1), of "map (\<lambda>r. case r of Ok y \<Rightarrow> y)"] by (simp add: val_def [abs_def] comp_def)
  then have "mset (map val xs') = mset ys" using assms(2) by (metis mset_map)
  moreover have "map f xs' = map Ok (map val xs')" using v by simp
  ultimately show thesis using that by blast
qed

lemma named_regions_perm:
  assumes "named_regions es rss" "mset es = mset es'"
  obtains rss' where "named_regions es' rss'" "mset rss' = mset rss"
proof -
  obtain rss' where r: "map region_state_from_event (region_events es') = map Ok rss'" "mset rss' = mset rss"
    by (rule mapped_perm [of region_state_from_event "region_events es" rss "region_events es'"])
      (use assms in \<open>simp_all add: named_regions_def\<close>)
  have "distinct (map region_key rss')"
    using assms(1) r(2) unfolding named_regions_def by (metis mset_eq_imp_distinct_iff mset_map)
  with that [of rss'] r assms(1) mset_eq_setD [OF r(2)] show thesis by (simp add: named_regions_def)
qed

lemma query_events_log: "mset (query_events k) = mset (list_events (ke_store k))"
  by (simp add: query_events_def load_events_mset)

text \<open>With identifiers of their own, the kernel lists them all and finds each by its name.\<close>

lemma named_regions_listed:
  assumes "named_regions (query_events k) rss" "distinct (map rs_region_id rss)"
  shows "query_regions k = Ok (sort_key region_order (bt_values (regions_of rss)))"
    and "set (sort_key region_order (bt_values (regions_of rss))) = set rss"
    and "query_region_by_name k name prefix =
      Ok (find (\<lambda>rg. region_key rg = (to_ascii_lowercase (trim name), prefix_key prefix))
        (sort_key region_order (bt_values (regions_of rss))))"
proof -
  show l: "query_regions k = Ok (sort_key region_order (bt_values (regions_of rss)))"
    using assms(1)
    by (simp add: query_regions_def list_regions_from_events_def collect_regions_map named_regions_def regions_of_def)
  show "set (sort_key region_order (bt_values (regions_of rss))) = set rss"
    using regions_of_value_set [OF assms(2)] by simp
  show "query_region_by_name k name prefix =
      Ok (find (\<lambda>rg. region_key rg = (to_ascii_lowercase (trim name), prefix_key prefix))
        (sort_key region_order (bt_values (regions_of rss))))"
    using l by (simp add: query_region_by_name_def find_region_by_lookup_key_def query_regions_def region_key_def)
qed

lemma region_ids:
  "map region_state_from_event es = map Ok rss \<Longrightarrow> map rs_region_id rss = map ev_entity_id es"
  by (auto simp: list_eq_iff_nth_eq region_state_id dest: map_eq_imp_length_eq)

lemma names_distinct:
  assumes "distinct (map ev_entity_id (region_events es'))" "mset es' = mset es + mset ds"
  shows "distinct (map ev_entity_id (region_events es))"
proof -
  have "mset (map ev_entity_id (region_events es')) = mset (map ev_entity_id (region_events (es @ ds)))"
    by (simp add: assms(2))
  then have "distinct (map ev_entity_id (region_events (es @ ds)))" using assms(1) mset_eq_imp_distinct_iff by metis
  then show ?thesis by simp
qed

lemma named_regions_grow:
  assumes "named_regions (list_events (ke_store k)) rss" "store_ok (ke_store k)" "kernel_step X k k'"
    and "\<forall>b. trim (cr_hash X b) \<noteq> []" "distinct (map ev_entity_id (region_events (list_events (ke_store k'))))"
  shows "\<exists>rss'. named_regions (list_events (ke_store k')) rss'"
proof (rule kernel_step_logs [OF assms(3,2)])
  assume vectors: "logs_vectors k k'"
  from vectors obtain es where es: "mset (list_events (ke_store k')) = mset (list_events (ke_store k)) + mset es"
    "\<forall>e \<in> set es. \<not> is_region_create_event e"
    using assms(2) by (auto simp: logs_vectors_def)
  then have "region_events es = []" by (simp add: filter_empty_conv)
  then have "named_regions (list_events (ke_store k) @ es) rss" using assms(1) by (simp add: named_regions_def)
  then obtain rss' where "named_regions (list_events (ke_store k')) rss'"
    by (rule named_regions_perm [of _ _ "list_events (ke_store k')"]) (simp_all add: es(1))
  then show ?thesis ..
next
  fix request pk clk e s
  assume region: "query_region_by_name k (rq_region_name request) (rq_region_prefix request) = Ok None"
    "build_region_genesis_event (cr_hash X) (cr_map_json X) request pk (next_logical_clock k) (clk 0) 1 = Ok e"
    "append_event e (ke_store k) = Ok s" "k' = k\<lparr> ke_store := s \<rparr>"
  have m: "mset (list_events (ke_store k')) = mset (list_events (ke_store k)) + mset [e]"
    using store_ok_append(2) [OF assms(2) region(3)] by (simp add: region(4))
  have d: "distinct (map ev_entity_id (region_events (list_events (ke_store k))))"
    by (rule names_distinct [OF assms(5) m])
  have "trim (ev_event_hash e) \<noteq> []"
    using assms(4) genesis_event_fields(12) [OF region(2)] by (simp add: canonical_event_hash_def)
  from genesis_region_state [OF region(2) this] obtain rg where rg: "region_state_from_event e = Ok rg"
    "rs_auth_ratio_bps rg = DEFAULT_REGION_AUTH_RATIO_BPS" "rs_region_name rg = rq_region_name request"
    "rs_normalized_name rg = normalized_name request" "rs_region_prefix rg = normalized_prefix request" by blast
  have key: "region_key rg = (to_ascii_lowercase (trim (rq_region_name request)), prefix_key (rq_region_prefix request))"
    by (simp add: region_key_def rg normalized_name_def normalized_prefix_def prefix_key_idem)
  obtain qss where q: "named_regions (query_events k) qss" "mset qss = mset rss"
    by (rule named_regions_perm [OF assms(1) query_events_log [symmetric]])
  have "map rs_region_id rss = map ev_entity_id (region_events (list_events (ke_store k)))"
    using assms(1) by (intro region_ids) (simp add: named_regions_def)
  then have "distinct (map rs_region_id qss)"
    using d q(2) by (metis mset_eq_imp_distinct_iff mset_map)
  note l = named_regions_listed [OF q(1) this]
  have "region_key rg \<notin> region_key ` set rss"
  proof -
    have "\<forall>r \<in> set (sort_key region_order (bt_values (regions_of qss))). region_key r \<noteq> region_key rg"
      using region(1) unfolding l(3) key by (simp add: find_None_iff)
    then show ?thesis unfolding l(2) mset_eq_setD [OF q(2)] by (auto simp del: set_sort)
  qed
  then have "named_regions (list_events (ke_store k) @ [e]) (rss @ [rg])"
    using assms(1) rg genesis_is_region [OF region(2)] by (simp add: named_regions_def normalized_name_def)
  then obtain rss' where "named_regions (list_events (ke_store k')) rss'"
    by (rule named_regions_perm [of _ _ "list_events (ke_store k')"]) (simp_all add: m)
  then show ?thesis ..
qed

lemma kernel_regions:
  assumes "kernel_steps X k0 k" "k0 = kernel_new" "\<forall>b. trim (cr_hash X b) \<noteq> []"
    and "distinct (map ev_entity_id (region_events (list_events (ke_store k))))"
  shows "\<exists>rss. named_regions (list_events (ke_store k)) rss"
  using assms
proof (induction rule: kernel_steps.induct)
  case (steps_refl k0)
  have "list_events (ke_store k0) = []"
    unfolding steps_refl(1) by (simp add: kernel_new_def store_default_def list_events_def)
  then have "named_regions (list_events (ke_store k0)) []" by (simp add: named_regions_def)
  then show ?case ..
next
  case (steps_step k0 k1 k2)
  have ok: "store_ok (ke_store k1)"
    using kernel_steps_ok [OF steps_step(1) kernel_ok_new [folded steps_step(4)]] by (simp add: kernel_ok_def)
  have d: "distinct (map ev_entity_id (region_events (list_events (ke_store k1))))"
  proof (rule kernel_step_logs [OF steps_step(2) ok])
    assume "logs_vectors k1 k2"
    with ok names_distinct [OF steps_step(6)] show ?thesis by (auto simp: logs_vectors_def)
  next
    fix e s assume region: "append_event e (ke_store k1) = Ok s" "k2 = k1\<lparr> ke_store := s \<rparr>"
    have "mset (list_events (ke_store k2)) = mset (list_events (ke_store k1)) + mset [e]"
      using store_ok_append(2) [OF ok region(1)] by (simp add: region(2))
    then show ?thesis by (rule names_distinct [OF steps_step(6)])
  qed
  from steps_step(3) [OF steps_step(4,5) d] obtain rss where "named_regions (list_events (ke_store k1)) rss" ..
  from named_regions_grow [OF this ok steps_step(2,5,6)] show ?case .
qed


lemma kernel_regions_query:
  assumes "kernel_steps X kernel_new k" "\<forall>b. trim (cr_hash X b) \<noteq> []"
    and "distinct (map ev_entity_id (region_events (query_events k)))"
  obtains rss where "named_regions (query_events k) rss" "distinct (map rs_region_id rss)"
proof -
  have "distinct (map ev_entity_id (region_events (list_events (ke_store k))))"
    by (rule names_distinct [OF assms(3), of _ "[]"]) (simp add: query_events_log)
  with kernel_regions [OF assms(1) refl assms(2)] obtain qss where q: "named_regions (list_events (ke_store k)) qss" by blast
  obtain rss where r: "named_regions (query_events k) rss"
    by (rule named_regions_perm [OF q query_events_log [symmetric]])
  have "map rs_region_id rss = map ev_entity_id (region_events (query_events k))"
    using r by (intro region_ids) (simp add: named_regions_def)
  with assms(3) r that show thesis by simp
qed

lemma find_unique:
  assumes "x \<in> set xs" "P x" "\<And>y. y \<in> set xs \<Longrightarrow> P y \<Longrightarrow> y = x"
  shows "find P xs = Some x"
proof -
  obtain y where y: "find P xs = Some y" using find_SomeI [OF assms(1), of P] assms(2) by blast
  with find_SomeD [OF y] assms(3) show ?thesis by blast
qed

lemma named_regions_find:
  assumes "named_regions (query_events k) rss" "distinct (map rs_region_id rss)" "rg \<in> set rss"
  shows "find (\<lambda>r. region_key r = region_key rg) (sort_key region_order (bt_values (regions_of rss))) = Some rg"
proof -
  note s = named_regions_listed(2) [OF assms(1,2)]
  have "r = rg" if "r \<in> set rss" "region_key r = region_key rg" for r
    using that assms(1,3) by (auto simp: named_regions_def distinct_map inj_on_def)
  then show ?thesis by (intro find_unique) (use assms(3) in \<open>simp_all only: s\<close>)
qed

lemma created_region_named:
  assumes "kernel_steps X kernel_new k" "\<forall>b. trim (cr_hash X b) \<noteq> []"
    and "create_region X clk rq pk k = (k', Ok rg)" "kernel_steps X k' k''" "named_regions (query_events k'') rss"
  shows "rg \<in> set rss \<and> region_key rg = request_key rq"
proof -
  have ok: "store_ok (ke_store k)" using kernel_steps_ok [OF assms(1) kernel_ok_new] by (simp add: kernel_ok_def)
  obtain e s where e:
    "build_region_genesis_event (cr_hash X) (cr_map_json X) rq pk (next_logical_clock k) (clk 0) 1 = Ok e"
    "append_event e (ke_store k) = Ok s" "k' = k\<lparr> ke_store := s \<rparr>" "region_state_from_event e = Ok rg"
    by (rule create_region_Ok [OF assms(3)])
  have "set (list_events (ke_store k')) = set (e # list_events (ke_store k))"
    using store_ok_append(2) [OF ok e(2)] by (intro mset_eq_setD) (simp add: e(3))
  moreover have "store_ok (ke_store k')" using store_ok_append(1) [OF ok e(2)] by (simp add: e(3))
  ultimately have "e \<in> set (list_events (ke_store k''))" using kernel_steps_log [OF assms(4)] by auto
  then have "e \<in> set (region_events (query_events k''))"
    using genesis_is_region [OF e(1)] mset_eq_setD [OF query_events_log [of k'']] by simp
  then have "(Ok rg :: region_state outcome) \<in> set (map Ok rss)"
    using assms(5) e(4) unfolding named_regions_def by (metis image_eqI list.set_map)
  moreover have "trim (ev_event_hash e) \<noteq> []"
    using assms(2) genesis_event_fields(12) [OF e(1)] by (simp add: canonical_event_hash_def)
  then have "region_key rg = request_key rq"
    by (rule genesis_region_state [OF e(1)])
      (use e(4) in \<open>simp add: region_key_def request_key_def normalized_prefix_def prefix_key_idem\<close>)
  ultimately show ?thesis by auto
qed

text \<open>Whether or not the identifiers are distinct, every genesis event of the log reads back as a region.\<close>

definition reads_back :: "vector_event \<Rightarrow> bool" where
  "reads_back e \<longleftrightarrow> (\<exists>rg. region_state_from_event e = Ok rg \<and>
     rs_normalized_name rg = to_ascii_lowercase (trim (rs_region_name rg)))"

lemma genesis_reads_back:
  assumes "build_region_genesis_event (cr_hash X) J rq pk lc ts n = Ok e" "\<forall>b. trim (cr_hash X b) \<noteq> []"
  shows "reads_back e"
proof -
  have "trim (ev_event_hash e) \<noteq> []"
    using assms(2) genesis_event_fields(12) [OF assms(1)] by (simp add: canonical_event_hash_def)
  then show ?thesis by (rule genesis_region_state [OF assms(1)]) (simp add: reads_back_def normalized_name_def)
qed

lemma regions_read_back:
  assumes "kernel_steps X k0 k" "k0 = kernel_new" "\<forall>b. trim (cr_hash X b) \<noteq> []"
  shows "\<forall>e \<in> set (region_events (list_events (ke_store k))). reads_back e"
  using assms
proof (induction rule: kernel_steps.induct)
  case (steps_refl k0)
  then show ?case by (simp add: kernel_new_def store_default_def list_events_def)
next
  case (steps_step k0 k1 k2)
  have ok: "store_ok (ke_store k1)"
    using kernel_steps_ok [OF steps_step(1) kernel_ok_new [folded steps_step(4)]] by (simp add: kernel_ok_def)
  note IH = steps_step(3) [OF steps_step(4,5)]
  show ?case
  proof (rule kernel_step_logs [OF steps_step(2) ok])
    assume "logs_vectors k1 k2"
    then obtain es where "mset (list_events (ke_store k2)) = mset (list_events (ke_store k1)) + mset es"
      "\<forall>e \<in> set es. \<not> is_region_create_event e" using ok by (auto simp: logs_vectors_def)
    with IH mset_appended [OF this(1)] show ?thesis by auto
  next
    fix request pk clk e s
    assume e: "build_region_genesis_event (cr_hash X) (cr_map_json X) request pk (next_logical_clock k1) (clk 0) 1 = Ok e"
      "append_event e (ke_store k1) = Ok s" "k2 = k1\<lparr> ke_store := s \<rparr>"
    have "mset (list_events (ke_store k2)) = mset (list_events (ke_store k1)) + mset [e]"
      using store_ok_append(2) [OF ok e(2)] by (simp add: e(3))
    from mset_appended [OF this] IH genesis_reads_back [OF e(1) steps_step(5)] show ?thesis by auto
  qed
qed

lemma regions_of_keyed: "keyed rs_region_id (regions_of rss)"
  by (induction rss rule: rev_induct) (simp_all add: regions_of_snoc keyed_insert, simp add: regions_of_def)

lemma regions_of_subset: "set (bt_values (regions_of rss)) \<subseteq> set rss"
proof (induction rss rule: rev_induct)
  case (snoc r rss)
  have "set (bt_values (regions_of (rss @ [r]))) \<subseteq> insert r (set (bt_values (regions_of rss)))"
    unfolding regions_of_snoc by (rule set_values_insert)
  also have "\<dots> \<subseteq> set (rss @ [r])" using snoc by auto
  finally show ?case .
qed (simp add: regions_of_def)

lemma all_map_Ok:
  "\<forall>x \<in> set xs. \<exists>y. f x = Ok y \<and> P y \<Longrightarrow> \<exists>ys. map f xs = map Ok ys \<and> (\<forall>y \<in> set ys. P y)"
proof (induction xs)
  case (Cons x xs)
  then obtain y ys where "f x = Ok y" "P y" "map f xs = map Ok ys" "\<forall>y \<in> set ys. P y" by auto
  then show ?case by (intro exI [of _ "y # ys"]) simp
qed simp

text \<open>So every reachable kernel lists its regions, one for each of the identifiers.\<close>

lemma regions_listed:
  assumes "kernel_steps X kernel_new k" "\<forall>b. trim (cr_hash X b) \<noteq> []"
  obtains rgs where "query_regions k = Ok rgs" "distinct (map rs_region_id rgs)"
    "rs_region_id ` set rgs = ev_entity_id ` set (region_events (query_events k))"
    "\<forall>rg \<in> set rgs. rs_normalized_name rg = to_ascii_lowercase (trim (rs_region_name rg))"
proof -
  let ?es = "region_events (query_events k)"
  have "\<forall>e \<in> set ?es. reads_back e"
    using regions_read_back [OF assms(1) refl assms(2)] mset_eq_setD [OF query_events_log [of k]] by simp
  from all_map_Ok [OF this [unfolded reads_back_def]] obtain rss where
    rss: "map region_state_from_event ?es = map Ok rss"
      "\<forall>rg \<in> set rss. rs_normalized_name rg = to_ascii_lowercase (trim (rs_region_name rg))" by blast
  let ?m = "regions_of rss"
  note m = regions_of_keyed [of rss]
  have sub: "set (bt_values ?m) \<subseteq> set rss" by (rule regions_of_subset)
  have "rs_region_id ` set (bt_values ?m) = fst ` set ?m"
    using m by (force simp: keyed_def)
  also have "\<dots> = ev_entity_id ` set ?es"
    unfolding regions_of_keys using arg_cong [OF region_ids [OF rss(1)], of set] by simp
  finally have ids: "rs_region_id ` set (bt_values ?m) = ev_entity_id ` set ?es" .
  have "distinct (map rs_region_id (bt_values ?m))" using keyed_distinct [OF m] by (simp add: comp_def)
  then have d: "distinct (map rs_region_id (sort_key region_order (bt_values ?m)))"
    by (metis mset_eq_imp_distinct_iff mset_map mset_sort)
  have q: "query_regions k = Ok (sort_key region_order (bt_values ?m))" using rss(1)
    by (simp add: query_regions_def list_regions_from_events_def collect_regions_map regions_of_def)
  show thesis
  proof (rule that [OF q d])
    show "rs_region_id ` set (sort_key region_order (bt_values ?m)) = ev_entity_id ` set ?es"
      unfolding set_sort by (rule ids)
    show "\<forall>rg \<in> set (sort_key region_order (bt_values ?m)).
        rs_normalized_name rg = to_ascii_lowercase (trim (rs_region_name rg))"
      unfolding set_sort using rss(2) sub by blast
  qed
qed

section \<open>When a region is created\<close>

lemma create_region_succeeds:
  assumes k: "kernel_ok X k" and nc: "no_refusal X (create_region X clk request pk k)"
    and H: "\<forall>b. cr_hash X b \<noteq> []" and short: "short_ids k"
    and req: "verify_region_create_request_signature (cr_hash X) (cr_ed X) (cr_map_json X) (cr_hex_encode X) pk request = Ok ()"
      "trim pk \<noteq> []" "query_region_by_name k (rq_region_name request) (rq_region_prefix request) = Ok None"
    and e: "build_region_genesis_event (cr_hash X) (cr_map_json X) request pk (next_logical_clock k) (clk 0) 1 = Ok e"
    and new: "unused_id k (ev_event_id e)"
  obtains s where "append_event e (ke_store k) = Ok s"
    "create_region X clk request pk k = (k\<lparr> ke_store := s \<rparr>, region_state_from_event e)"
proof -
  note f = genesis_event_fields [OF e]
  have ok: "store_ok (ke_store k)" using k by (simp add: kernel_ok_def)
  have valid: "validate_event (cr_hash X) (cr_ed X) e = Ok ()"
    using genesis_event_validates [OF e req(2)] by blast
  have run: "create_region X clk request pk k =
      act_bind (append_canonical_event X e) (\<lambda>_. act_try (region_state_from_event e)) k"
    using req f(1) e valid genesis_is_region [OF e] by (simp add: create_region_def act_bind_try)
  have "\<forall>g \<in> set (list_events (ke_store k)). ev_event_hash g = canonical_event_hash (cr_hash X) g"
    using k by (auto simp: kernel_ok_def dest: validate_event_hashes)
  from append_canonical_fresh [OF ok this valid H f(12) _ short _ _ collision_step(1) [OF nc [unfolded run]]]
  obtain s where s: "append_event e (ke_store k) = Ok s" "append_canonical_event X e k = (k\<lparr> ke_store := s \<rparr>, Ok ())"
    using new f(4) by (auto simp: unused_id_def)
  show thesis by (rule that [OF s(1)]) (simp add: run act_bind_def s(2) act_try_def)
qed

section \<open>A sample region\<close>

definition region_request :: region_create_request where
  "region_request = sample_request\<lparr> rq_request_signature := hex_encode (replicate 32 171 @ as_bytes ''{}'') \<rparr>"

definition region_actor :: string where
  "region_actor = hex_encode (replicate 32 171)"

lemma zero_text: "show_word (0 :: u64) = ''0''"
  by code_simp

lemma sample_region:
  obtains k rg i where
    "create_region sample_crates (\<lambda>_. 1) region_request region_actor kernel_new = (k, Ok rg)"
    "kernel_ok sample_crates k" "get_state (ke_store k) = get_state (ke_store kernel_new)"
    "ledger k = {# (''MK::'' @ i, ''MK::'' @ i, ''MK::'' @ i @ ''::'' @ ''MK::'' @ i @ ''::OTHER::0::1'') #}"
    "length i \<le> 40" "rs_region_id rg = ''MK::'' @ i"
proof -
  let ?X = sample_crates
  have solid: "trim ''Market'' = ''Market''" "trim ''t'' = ''t''" "trim ''p'' = ''p''" "trim ''key'' = ''key''" "trim ''mk'' = ''mk''"
    by (rule trim_all_solid, simp add: solid_def)+
  have blank: "trim (hex_encode bs) \<noteq> []" if "bs \<noteq> []" for bs
  proof -
    have "hex_encode bs \<noteq> []" using that by (cases bs) simp_all
    then show ?thesis using trim_all_solid [OF hex_encode_solid] by simp
  qed
  have valid: "validate_region_create_request region_request = Ok ()"
    using blank [of "replicate 32 171 @ as_bytes ''{}''"]
    by (simp add: validate_region_create_request_def region_request_def sample_request_def solid del: hex_encode.simps)
  have up: "to_ascii_uppercase ''mk'' = ''MK''" by code_simp
  have prefix: "normalized_prefix region_request = Some ''MK''"
    by (simp add: normalized_prefix_def prefix_key_def region_request_def sample_request_def solid up option_filter_def)
  let ?d = "sample_hash (as_bytes ''{}'')"
  define i where "i = ''rgn_'' @ take (min 24 (length ?d)) ?d @ ''::1''"
  have id: "canonical_region_id (cr_hash ?X) (cr_map_json ?X) region_request region_actor 1 = Ok (''MK::'' @ i)"
    by (simp add: canonical_region_id_def canonical_region_seed_bytes_def Let_def sample_crates_def sample_json_def
        prefix i_def small_numbers)
  have clock: "next_logical_clock kernel_new = 0"
    by (simp add: next_logical_clock_def latest_event_def query_events_def kernel_new_def store_default_def
        load_events_for_replay_def)
  have empty: "list_events (ke_store kernel_new) = []" by (simp add: kernel_new_def store_default_def list_events_def)
  obtain e where e: "build_region_genesis_event (cr_hash ?X) (cr_map_json ?X) region_request region_actor
      (next_logical_clock kernel_new) ((\<lambda>_. 1) 0) 1 = Ok e"
    by (simp add: build_region_genesis_event_def valid id Let_def)
  note f = genesis_event_fields [OF e]
  have ids: "ev_entity_id e = ''MK::'' @ i" "ev_region_id e = ''MK::'' @ i" using f(2,3) id by simp_all
  have eid: "ev_event_id e = ''MK::'' @ i @ ''::'' @ ''MK::'' @ i @ ''::OTHER::0::1''"
    using e by (auto simp: build_region_genesis_event_def valid id Let_def ev_new_def canonical_event_id_def
        region_create_operation_def REGION_CREATE_OPERATION_NAME_def clock small_numbers zero_text)
  have len: "length i \<le> 40" by (simp add: i_def)
  have key: "verifying_key_from_hex (cr_ed ?X) region_actor = Inr (replicate 32 171)"
    by (simp add: verifying_key_from_hex_def sample_crates_def sample_ed25519_def region_actor_def)
  moreover have "canonical_region_request_signature_bytes (cr_map_json ?X) region_request = Ok (as_bytes ''{}'')"
    by (simp add: canonical_region_request_signature_bytes_def Let_def sample_crates_def sample_json_def)
  moreover have "verify_event_signature (cr_ed ?X) (replicate 32 171) (as_bytes ''{}'') (rq_request_signature region_request) = Inr True"
    by (simp add: verify_event_signature_def sample_crates_def sample_ed25519_def region_request_def)
  ultimately have sig: "verify_region_create_request_signature (cr_hash ?X) (cr_ed ?X) (cr_map_json ?X) (cr_hex_encode ?X)
      region_actor region_request = Ok ()"
    by (simp add: verify_region_create_request_signature_def debug_region_create_request_signature_def)
  have none: "query_region_by_name kernel_new (rq_region_name region_request) (rq_region_prefix region_request) = Ok None"
    by (simp add: query_region_by_name_def find_region_by_lookup_key_def list_regions_from_events_def query_events_def
        kernel_new_def store_default_def load_events_for_replay_def)
  have new: "unused_id kernel_new (ev_event_id e)" "short_ids kernel_new"
    using len by (simp_all add: unused_id_def short_ids_def empty eid ok_len_def)
  have actor: "trim region_actor \<noteq> []" using blank [of "replicate 32 171"] by (simp add: region_actor_def)
  obtain s where s: "append_event e (ke_store kernel_new) = Ok s"
    "create_region ?X (\<lambda>_. 1) region_request region_actor kernel_new = (kernel_new\<lparr> ke_store := s \<rparr>, region_state_from_event e)"
    by (rule create_region_succeeds [OF kernel_ok_new sample_crates_hash(1,2) new(2) sig actor none e new(1)])
  have "trim (ev_event_hash e) \<noteq> []" using f(12) sample_hash_solid by (simp add: canonical_event_hash_def sample_crates_def)
  then obtain rg where rg: "region_state_from_event e = Ok rg" by (rule genesis_region_state [OF e])
  have ok: "store_ok (ke_store kernel_new)" using kernel_ok_new by (simp add: kernel_ok_def)
  show thesis
  proof (rule that [of "kernel_new\<lparr> ke_store := s \<rparr>" rg i])
    show "create_region ?X (\<lambda>_. 1) region_request region_actor kernel_new = (kernel_new\<lparr> ke_store := s \<rparr>, Ok rg)"
      using s(2) rg by simp
    then show "kernel_ok ?X (kernel_new\<lparr> ke_store := s \<rparr>)"
      using keepsD [OF create_region_keeps kernel_ok_new] by blast
    show "ledger (kernel_new\<lparr> ke_store := s \<rparr>) =
        {# (''MK::'' @ i, ''MK::'' @ i, ''MK::'' @ i @ ''::'' @ ''MK::'' @ i @ ''::OTHER::0::1'') #}"
      using store_ok_append(2) [OF ok s(1)] by (simp add: ledger_def empty ids eid)
  qed (simp_all add: append_event_frame [OF s(1)] len region_state_id [OF rg] ids)
qed


lemma sample_region_facts:
  obtains k rg where "create_region sample_crates (\<lambda>_. 1) region_request region_actor kernel_new = (k, Ok rg)"
    "kernel_steps sample_crates kernel_new k" "length (query_events k) = 1" "\<forall>b. trim (cr_hash sample_crates b) \<noteq> []"
    "distinct (map ev_entity_id (region_events (query_events k)))"
proof -
  obtain k rg i where r: "create_region sample_crates (\<lambda>_. 1) region_request region_actor kernel_new = (k, Ok rg)"
    "ledger k = {# (''MK::'' @ i, ''MK::'' @ i, ''MK::'' @ i @ ''::'' @ ''MK::'' @ i @ ''::OTHER::0::1'') #}"
    by (rule sample_region) (rule that; assumption)
  have "kernel_steps sample_crates kernel_new k" using r(1) by (meson kernel_steps.intros step_create_region)
  moreover have n: "length (query_events k) = 1"
    using arg_cong [OF r(2), of size] mset_eq_length [OF query_events_log [of k]] by (simp add: ledger_def)
  moreover have "distinct (map ev_entity_id (region_events (query_events k)))"
    using n by (cases "query_events k") auto
  moreover have "\<forall>b. trim (cr_hash sample_crates b) \<noteq> []" using sample_hash_solid by (simp add: sample_crates_def)
  ultimately show thesis using that r(1) by blast
qed

lemma sample_region_logged:
  assumes "create_region sample_crates (\<lambda>_. 1) region_request region_actor kernel_new = (k, Ok rg)" "length (query_events k) = 1"
  shows "length (filter is_region_create_event (query_events k)) = 1"
proof -
  obtain e s where e: "build_region_genesis_event (cr_hash sample_crates) (cr_map_json sample_crates) region_request region_actor
      (next_logical_clock kernel_new) 1 1 = Ok e"
    "append_event e (ke_store kernel_new) = Ok s" "k = kernel_new\<lparr> ke_store := s \<rparr>"
    by (rule create_region_Ok [OF assms(1)])
  have "store_ok (ke_store kernel_new)" using kernel_ok_new by (simp add: kernel_ok_def)
  from store_ok_append(2) [OF this e(2)] have "mset (query_events k) = mset (e # list_events (ke_store kernel_new))"
    by (simp add: query_events_log e(3))
  from mset_eq_setD [OF this] have "e \<in> set (query_events k)" by simp
  with assms(2) genesis_is_region [OF e(1)] show ?thesis by (cases "query_events k") auto
qed

section \<open>Properties\<close>

text \<open>
  C4: The log is typed by its operations: in every reachable kernel, whatever was called and however it
  ended, an event of the log is unsigned and of a vector, or a signed region. An origin is a root and
  starts from zero; the event of any other operation on a vector has no parent or exactly one, an event of
  the same vector in the log; a region is a root, is its own region and has no components. No event
  of an operation the kernel does not perform is ever logged.
\<close>

theorem kernel_log_typed:
  assumes "kernel_steps X kernel_new k"
  shows "\<forall>e \<in> set (query_events k). well_typed (query_events k) e"
proof -
  have "\<forall>e \<in> set (list_events (ke_store k)). well_typed (list_events (ke_store k)) e" if "k0 = kernel_new" "kernel_steps X k0 k" for k0
    using that(2,1)
  proof (induction rule: kernel_steps.induct)
    case (steps_refl k0)
    then show ?case by (simp add: kernel_new_def store_default_def list_events_def)
  next
    case (steps_step k0 k1 k2)
    have ok: "store_ok (ke_store k1)"
      using kernel_steps_ok [OF steps_step(1) kernel_ok_new [folded steps_step(4)]] by (simp add: kernel_ok_def)
    note IH = steps_step(3) [OF steps_step(4)]
    show ?case
    proof (rule kernel_step_logs [OF steps_step(2) ok])
      assume "logs_vectors k1 k2"
      then obtain es where es: "mset (list_events (ke_store k2)) = mset (list_events (ke_store k1)) + mset es"
        "\<forall>e \<in> set es. well_typed (list_events (ke_store k2)) e" using ok by (auto simp: logs_vectors_def)
      with IH mset_appended [OF es(1)] show ?thesis
        using well_typed_mono [of "list_events (ke_store k1)" "list_events (ke_store k2)"] by auto
    next
      fix request pk clk e s
      assume e: "build_region_genesis_event (cr_hash X) (cr_map_json X) request pk (next_logical_clock k1) (clk 0) 1 = Ok e"
        "append_event e (ke_store k1) = Ok s" "k2 = k1\<lparr> ke_store := s \<rparr>"
      have "mset (list_events (ke_store k2)) = mset (list_events (ke_store k1)) + mset [e]"
        using store_ok_append(2) [OF ok e(2)] by (simp add: e(3))
      from mset_appended [OF this] IH genesis_well_typed [OF e(1)] show ?thesis
        using well_typed_mono [of "list_events (ke_store k1)" "list_events (ke_store k2)"] by auto
    qed
  qed
  with assms show ?thesis
    using mset_eq_setD [OF query_events_log [of k]] well_typed_mono [of "list_events (ke_store k)" "query_events k"] by auto
qed

theorem kernel_log_typed_witness:
  "\<exists>k. kernel_steps sample_crates kernel_new k \<and> length (query_events k) = 1 \<and>
     (\<forall>e \<in> set (query_events k). well_typed (query_events k) e)"
proof -
  obtain k where "kernel_steps sample_crates kernel_new k" "length (query_events k) = 1" by (rule sample_region_facts)
  with kernel_log_typed show ?thesis by blast
qed

text \<open>
  C9: The regions of every reachable kernel are listed and found: the listing never fails, it has one
  region for each of the region identifiers in the log, each once, and looking a listed region up by its
  name and prefix finds a region of that name. Where moreover the identifiers of the genesis events are
  distinct (an identifier keeps 24 characters of a hash, with the sequence number always 1; two requests that
  share one make the later event in the order of the log hide the earlier), the listing has one region for
  each genesis event, and the lookup returns the very region.
\<close>

theorem regions_found_by_name:
  assumes "kernel_steps X kernel_new k" "\<forall>b. trim (cr_hash X b) \<noteq> []"
  shows "\<exists>rgs. query_regions k = Ok rgs \<and> distinct (map rs_region_id rgs) \<and>
    rs_region_id ` set rgs = ev_entity_id ` set (filter is_region_create_event (query_events k)) \<and>
    (\<forall>rg \<in> set rgs. \<exists>found. query_region_by_name k (rs_region_name rg) (rs_region_prefix rg) = Ok (Some found) \<and>
      found \<in> set rgs \<and> region_key found = region_key rg) \<and>
    (distinct (map ev_entity_id (filter is_region_create_event (query_events k))) \<longrightarrow>
      length rgs = length (filter is_region_create_event (query_events k)) \<and>
      (\<forall>rg \<in> set rgs. query_region_by_name k (rs_region_name rg) (rs_region_prefix rg) = Ok (Some rg)))"
proof -
  obtain rgs where l: "query_regions k = Ok rgs" "distinct (map rs_region_id rgs)"
    "rs_region_id ` set rgs = ev_entity_id ` set (region_events (query_events k))"
    "\<forall>rg \<in> set rgs. rs_normalized_name rg = to_ascii_lowercase (trim (rs_region_name rg))"
    by (rule regions_listed [OF assms]) (rule that; assumption)
  have lookup: "query_region_by_name k (rs_region_name rg) (rs_region_prefix rg) =
      Ok (find (\<lambda>r. region_key r = region_key rg) rgs)" if "rg \<in> set rgs" for rg
    using l(1,4) that
    by (simp add: query_region_by_name_def find_region_by_lookup_key_def query_regions_def region_key_def)
  have found: "\<exists>y. find (\<lambda>r. region_key r = region_key rg) rgs = Some y \<and> y \<in> set rgs \<and> region_key y = region_key rg"
    if "rg \<in> set rgs" for rg
    using find_SomeI [OF that, of "\<lambda>r. region_key r = region_key rg"] by (auto dest: find_SomeD)
  have "length rgs = length (region_events (query_events k)) \<and>
      (\<forall>rg \<in> set rgs. query_region_by_name k (rs_region_name rg) (rs_region_prefix rg) = Ok (Some rg))"
    if d: "distinct (map ev_entity_id (region_events (query_events k)))"
  proof
    have "length (map rs_region_id rgs) = length (map ev_entity_id (region_events (query_events k)))"
      using distinct_card [OF l(2)] distinct_card [OF d] l(3) by simp
    then show "length rgs = length (region_events (query_events k))" by simp
    obtain rss where r: "named_regions (query_events k) rss" "distinct (map rs_region_id rss)"
      by (rule kernel_regions_query [OF assms d])
    from named_regions_listed(1,2) [OF r] l(1) have rgs: "rgs = sort_key region_order (bt_values (regions_of rss))"
      "set rgs = set rss" by simp_all
    show "\<forall>rg \<in> set rgs. query_region_by_name k (rs_region_name rg) (rs_region_prefix rg) = Ok (Some rg)"
      using lookup named_regions_find [OF r] rgs by metis
  qed
  with l(1-3) lookup found show ?thesis by (intro exI [of _ rgs]) auto
qed

theorem regions_found_by_name_witness:
  "\<exists>k rg. query_regions k = Ok [rg] \<and> query_region_by_name k (rs_region_name rg) (rs_region_prefix rg) = Ok (Some rg)"
proof -
  obtain k rg where k: "create_region sample_crates (\<lambda>_. 1) region_request region_actor kernel_new = (k, Ok rg)"
    "kernel_steps sample_crates kernel_new k" "length (query_events k) = 1" "\<forall>b. trim (cr_hash sample_crates b) \<noteq> []"
    "distinct (map ev_entity_id (region_events (query_events k)))" by (rule sample_region_facts)
  have "length (filter is_region_create_event (query_events k)) = 1" by (rule sample_region_logged [OF k(1,3)])
  with regions_found_by_name [OF k(2,4)] k(5) obtain rgs where
    "query_regions k = Ok rgs" "length rgs = 1"
    "\<forall>rg \<in> set rgs. query_region_by_name k (rs_region_name rg) (rs_region_prefix rg) = Ok (Some rg)" by metis
  then show ?thesis by (cases rgs) auto
qed

text \<open>
  C8: A region is created once: when \<open>create_region\<close> returned a region on a reachable kernel, then in every
  later kernel, whatever was called in between, in which no two logged regions share an identifier
  (it keeps 24 characters of a hash), that region is the one found under the name and prefix of its
  request, and a request for the name, in whatever case and spacing, signed by whoever, is refused
  and leaves the kernel as it is.
\<close>

theorem region_created_once:
  assumes "kernel_steps X kernel_new k" "\<forall>b. trim (cr_hash X b) \<noteq> []"
    and "create_region X clk rq pk k = (k', Ok rg)" "kernel_steps X k' k''"
    and "distinct (map ev_entity_id (filter is_region_create_event (query_events k'')))"
  shows "query_region_by_name k'' (rq_region_name rq) (rq_region_prefix rq) = Ok (Some rg) \<and>
    (normalized_name rq' = normalized_name rq \<and> normalized_prefix rq' = normalized_prefix rq \<longrightarrow>
       (\<exists>r. create_region X clk' rq' pk' k'' = (k'', r) \<and> (\<nexists>x. r = Ok x)))"
proof -
  have k': "kernel_steps X kernel_new k'" by (rule steps_step [OF assms(1) step_create_region [OF assms(3)]])
  have k'': "kernel_steps X kernel_new k''" by (rule kernel_steps_trans [OF assms(4) k'])
  obtain rss where r: "named_regions (query_events k'') rss" "distinct (map rs_region_id rss)"
    by (rule kernel_regions_query [OF k'' assms(2,5)])
  note l = named_regions_listed [OF r]
  have rg: "rg \<in> set rss" "region_key rg = request_key rq"
    using created_region_named [OF assms(1-4) r(1)] by auto
  have found: "query_region_by_name k'' (rq_region_name q) (rq_region_prefix q) = Ok (Some rg)"
    if "request_key q = request_key rq" for q
    using l(3) named_regions_find [OF r rg(1)] that by (simp add: rg(2) request_key_def normalized_name_def)
  have "\<exists>r. create_region X clk' rq' pk' k'' = (k'', r) \<and> (\<nexists>x. r = Ok x)" if "request_key rq' = request_key rq"
  proof -
    obtain k2 r where c: "create_region X clk' rq' pk' k'' = (k2, r)" by fastforce
    have "k2 = k'' \<and> (\<nexists>x. r = Ok x)"
      by (rule create_region_cases [OF c]) (use found [OF that] in simp_all)
    with c show ?thesis by blast
  qed
  with found [of rq] show ?thesis by (simp add: request_key_def normalized_prefix_def)
qed

theorem region_created_once_witness:
  "\<exists>k rg. create_region sample_crates (\<lambda>_. 1) region_request region_actor kernel_new = (k, Ok rg) \<and>
     query_region_by_name k ''Market'' (Some ''mk'') = Ok (Some rg) \<and>
     (\<exists>r. create_region sample_crates (\<lambda>_. 2) region_request region_actor k = (k, r) \<and> (\<nexists>x. r = Ok x))"
proof -
  obtain k rg where k: "create_region sample_crates (\<lambda>_. 1) region_request region_actor kernel_new = (k, Ok rg)"
    "\<forall>b. trim (cr_hash sample_crates b) \<noteq> []"
    "distinct (map ev_entity_id (region_events (query_events k)))" by (rule sample_region_facts)
  have n: "rq_region_name region_request = ''Market''" "rq_region_prefix region_request = Some ''mk''"
    by (simp_all add: region_request_def sample_request_def)
  from region_created_once [OF steps_refl k(2,1) steps_refl k(3), of region_request "\<lambda>_. 2" region_actor] k(1) show ?thesis
    unfolding n by blast
qed

end
