(* ===== verification/Engine_Replay.thy ===== *)
theory Engine_Replay
  imports Engine_Regions
begin

text \<open>
  The replay of the log against the store: where the operations return, no identifier is given twice and
  the clock has moved on before every transfer, the log is one chain of events for each vector and a
  single event for each region; its replay gives the state of every stored vector and the regions.
\<close>

section \<open>Chains\<close>

text \<open>
  The history of one entity as the operations write it: an origin, or the genesis event of a region,
  without parents, and then events each of which names the one before it as its only parent, starts from
  its result, and sorts after it.
\<close>

definition links :: "vector_event \<Rightarrow> vector_event \<Rightarrow> bool" where
  "links e f \<longleftrightarrow>
     ev_parent_hashes f = [ev_event_hash e] \<and> ev_vector_before f = ev_vector_after e \<and>
     ev_operation f \<noteq> Op_OriginCreate \<and> \<not> is_region_create_event f \<and> ev_region_id f = ev_region_id e \<and>
     (ev_logical_clock e, ev_timestamp e) < (ev_logical_clock f, ev_timestamp f)"

fun chain :: "vector_event list \<Rightarrow> bool" where
  "chain [] = True"
| "chain [e] = (ev_parent_hashes e = [] \<and> (ev_operation e = Op_OriginCreate \<or> is_region_create_event e))"
| "chain (f # e # es) = (links e f \<and> chain (e # es))"

text \<open>The chain is kept with its latest event first.\<close>

definition chained :: "vector_event list \<Rightarrow> bool" where
  "chained events \<longleftrightarrow>
     (\<forall>k. \<exists>es. mset es = mset (entity_events events k) \<and> chain es) \<and>
     (\<forall>e \<in> set events. ev_event_hash e \<noteq> []) \<and>
     distinct (hashes events)"

lemma chain_tail: "chain (f # es) \<Longrightarrow> chain es"
  by (cases es) auto

lemma chain_keys:
  "chain (f # es) \<Longrightarrow> \<forall>e \<in> set es. (ev_logical_clock e, ev_timestamp e) < (ev_logical_clock f, ev_timestamp f)"
proof (induction es arbitrary: f)
  case (Cons e es)
  then have f: "(ev_logical_clock e, ev_timestamp e) < (ev_logical_clock f, ev_timestamp f)" "chain (e # es)"
    by (simp_all add: links_def)
  from Cons.IH [OF f(2)] f(1) show ?case by (auto intro: order.strict_trans)
qed simp

lemma chain_parents:
  "chain es \<Longrightarrow> f \<in> set es \<Longrightarrow> p \<in> set (ev_parent_hashes f) \<Longrightarrow>
     \<exists>e \<in> set es. ev_event_hash e = p \<and> ev_region_id e = ev_region_id f \<and>
       (ev_logical_clock e, ev_timestamp e) < (ev_logical_clock f, ev_timestamp f)"
proof (induction es rule: chain.induct)
  case (3 g e es)
  show ?case
  proof (cases "f = g")
    case True
    with 3 show ?thesis by (auto simp: links_def)
  qed (use 3 in auto)
qed auto

lemma chain_distinct_parents: "chain es \<Longrightarrow> f \<in> set es \<Longrightarrow> distinct (ev_parent_hashes f)"
  by (induction es rule: chain.induct) (auto simp: links_def)

lemma chain_history:
  "chain es \<Longrightarrow> history None (rev es)"
proof (induction es rule: chain.induct)
  case (3 f e es)
  have app: "history c (xs @ [y]) \<longleftrightarrow> history c xs \<and> admits (last_state c xs) y" for c xs y
    by (induction xs arbitrary: c) (auto simp: last_state_def)
  have "last_state None (rev (e # es)) = Some (ev_vector_after e)" by (simp add: last_state_def)
  with 3 show ?case using app [of None "rev (e # es)" f] by (simp add: admits_def links_def)
qed (auto simp: admits_def)

section \<open>The order of a chain\<close>

lemma parents_before_drop:
  "parents_before par (insert h seen) hs \<Longrightarrow> \<forall>g \<in> set hs. h \<notin> set (par g) \<Longrightarrow> parents_before par seen hs"
  by (induction hs arbitrary: seen) (auto simp: insert_commute)

lemma parents_before_remove:
  "parents_before par seen (as @ h # bs) \<Longrightarrow> \<forall>g \<in> set bs. h \<notin> set (par g) \<Longrightarrow>
     parents_before par seen (as @ bs)"
  by (induction as arbitrary: seen) (auto dest: parents_before_drop)

lemma chain_order_unique:
  assumes "chain es" "distinct (hashes es)" "mset xs = mset es"
    and "\<And>f. f \<in> set es \<Longrightarrow> par (ev_event_hash f) = ev_parent_hashes f"
    and "parents_first par (hashes xs)"
  shows "xs = rev es"
  using assms
proof (induction es arbitrary: xs rule: chain.induct)
  case (3 f e es)
  have "f \<in> set xs" using mset_eq_setD [OF 3(4)] by simp
  then obtain ys zs where xs: "xs = ys @ f # zs" by (meson split_list)
  have m: "mset (ys @ zs) = mset (e # es)" using 3(4) xs by simp
  have sz: "set (ys @ zs) = set (e # es)" by (rule mset_eq_setD [OF m])
  have "ev_event_hash f \<notin> set (par (ev_event_hash g))" if g: "g \<in> set zs" for g
  proof
    assume a: "ev_event_hash f \<in> set (par (ev_event_hash g))"
    have ge: "g \<in> set (e # es)" using g sz by auto
    then have "par (ev_event_hash g) = ev_parent_hashes g" by (intro 3(5)) simp
    with a chain_parents [OF chain_tail [OF 3(2)] ge, of "ev_event_hash f"]
    obtain q where "q \<in> set (e # es)" "ev_event_hash q = ev_event_hash f" by auto
    with 3(3) show False by (auto simp: image_iff)
  qed
  then have "parents_first par (hashes (ys @ zs))"
    using parents_before_remove [of par "{}" "hashes ys" "ev_event_hash f" "hashes zs"] 3(6) by (simp add: xs)
  with 3(1) [of "ys @ zs"] 3(2-5) m have r: "ys @ zs = rev (e # es)" by simp
  have "set (par (ev_event_hash f)) \<subseteq> ev_event_hash ` set ys"
    using parents_first_before [of par "{}" "hashes ys" "ev_event_hash f" "hashes zs"] 3(6) by (simp add: xs)
  with 3(2) 3(5) [of f] have e: "ev_event_hash e \<in> ev_event_hash ` set ys" by (simp add: links_def)
  have "zs = []"
  proof (cases zs rule: rev_cases)
    case (snoc ws g)
    with r have "ys @ ws = rev es" "g = e" by simp_all
    then have "set ys \<subseteq> set es" by (metis set_append set_rev Un_upper1)
    with e 3(3) show ?thesis by auto
  qed
  with r show ?case by (simp add: xs)
qed simp_all

lemma chain_roots:
  assumes "chain es" "es \<noteq> []" "distinct (hashes es)"
  shows "{h \<in> set (hashes es). parents_of es h = []} = {ev_event_hash (last es)}"
proof -
  have "f \<in> set es \<Longrightarrow> ev_parent_hashes f = [] \<longleftrightarrow> f = last es" for f
    using assms
  proof (induction es rule: chain.induct)
    case (3 f' e es)
    then have "last (e # es) \<in> set (e # es)" "f' \<notin> set (e # es)" by auto
    then have "f' \<noteq> last (e # es)" by metis
    with 3 show ?case by (auto simp: links_def)
  qed auto
  moreover have "last es \<in> set es" using assms(2) by simp
  ultimately show ?thesis
    using parents_of_event [OF assms(3)] assms(3) by (auto simp: distinct_map inj_on_def)
qed

lemma chain_parents_first:
  assumes "chain es" "\<And>f. f \<in> set es \<Longrightarrow> par (ev_event_hash f) = ev_parent_hashes f"
  shows "parents_first par (hashes (rev es))"
  using assms
proof (induction es rule: chain.induct)
  case (3 f e es)
  then have "parents_first par (hashes (rev (e # es)))" "ev_parent_hashes f = [ev_event_hash e]"
    by (simp_all add: links_def)
  then show ?case
    using parents_before_snoc [of par "{}" "hashes (rev (e # es))" "ev_event_hash f"] 3(3) [of f] by simp
qed simp_all

text \<open>The ordering of the replay returns the events of a chain from the first to the last.\<close>

lemma chain_inner_parents:
  assumes "chain es" "distinct (hashes es)" "f \<in> set es"
  shows "inner_parents es (ev_event_hash f) = ev_parent_hashes f"
  using chain_parents [OF assms(1,3)] parents_of_event [OF assms(2,3)]
  by (force simp: inner_parents_def filter_id_conv)

lemma order_chain:
  assumes "chain es" "distinct (hashes es)"
  shows "order_entity_events es = Ok (rev es)"
proof (cases "es = []")
  case False
  have dp: "\<forall>e \<in> set es. distinct (ev_parent_hashes e)"
    using chain_distinct_parents [OF assms(1)] by blast
  define look where "look = bt_get (fold (\<lambda>e. bt_insert (ev_event_hash e) e) es [])"
  obtain g d where gd: "filled (inner_parents es) (hashes es) = (g, d)" by fastforce
  note f = filled_graph [OF assms(2) inner_parents_ok [OF assms(2) dp] gd]
  note l = event_look [OF assms(2) look_def]
  have ip: "inner_parents es h = parents_of es h" if "h \<in> set (hashes es)" for h
    using that chain_inner_parents [OF assms] parents_of_event [OF assms(2)] by auto
  have "set (roots d) = {h \<in> set (hashes es). inner_parents es h = []}"
    using f by (simp add: kahn_state_def available_def)
  also have "\<dots> = {h \<in> set (hashes es). parents_of es h = []}" using ip by auto
  finally have rs: "set (roots d) = {ev_event_hash (last es)}"
    using chain_roots [OF assms(1) False assms(2)] by simp
  have "distinct (roots d)" using f by (simp add: kahn_state_def)
  with rs have r1: "length (roots d) = 1" by (metis card.empty card_insert_disjoint distinct_card empty_iff finite.emptyI One_nat_def)
  then have srt: "sort_nodes replay_sort_key look (roots d) = Ok (roots d)"
    using l(3) f by (cases "roots d") (auto simp: sort_nodes_def kahn_state_def available_def)
  have "kahn_state (set (hashes es)) (inner_parents es) d (roots d) (map ev_event_hash [])" using f by simp
  from order_loop_Ok [OF _ l(3) this, of g replay_sort_key "''missing node in entity replay map: ''"] f
  obtain d' xs where xs: "kahn_state (set (hashes es)) (inner_parents es) d' [] (hashes xs)"
    "\<forall>e \<in> set xs. look (ev_event_hash e) = Some e"
    "order_loop replay_sort_key ''missing node in entity replay map: '' look g d (roots d) [] = Ok xs" by auto
  have "parents_first (inner_parents es) (hashes (rev es))"
    by (rule chain_parents_first [OF assms(1) chain_inner_parents [OF assms]])
  then have "acyclic (edges (set (hashes es)) (inner_parents es))"
    by (rule parents_first_acyclic) (use assms(2) in \<open>simp_all add: rev_map [symmetric] del: rev_map\<close>)
  with kahn_end [OF _ xs(1)] f have s: "set (hashes xs) = set (hashes es)" "distinct (hashes xs)"
    "parents_first (inner_parents es) (hashes xs)" by auto
  have "set xs = set es"
  proof
    show "set xs \<subseteq> set es" using xs(2) l(1) by blast
    show "set es \<subseteq> set xs"
    proof
      fix e assume e: "e \<in> set es"
      then obtain x where "x \<in> set xs" "ev_event_hash x = ev_event_hash e"
        using s(1) by (metis (no_types, lifting) image_iff list.set_map)
      with xs(2) l(1) e show "e \<in> set xs" by (metis option.inject)
    qed
  qed
  moreover have "distinct xs" "distinct es" using s(2) assms(2) by (simp_all add: distinct_map)
  ultimately have m: "mset xs = mset es" by (simp add: set_eq_iff_mset_eq_distinct)
  have "xs = rev es"
    by (rule chain_order_unique [OF assms m chain_inner_parents [OF assms] s(3)])
  then show ?thesis
    using srt xs(3) r1 mset_eq_length [OF m]
    by (simp add: order_entity_events_unfold [OF assms(2) dp False gd look_def])
qed (simp add: order_entity_events_def)


section \<open>The replay of chained events\<close>

lemma core_loop_split:
  "core_events_loop H J JR core (es @ fs) = Ok core2 \<Longrightarrow>
     \<exists>core1. core_events_loop H J JR core es = Ok core1 \<and> core_events_loop H J JR core1 fs = Ok core2"
  by (induction es arbitrary: core) (auto split: prod.splits)

lemma apply_ordered_succeeds:
  assumes "history (bt_get state k) es" "\<forall>e \<in> set es. ev_entity_id e = k"
    and "core_events_loop H J JR core es = Ok core'"
  shows "\<exists>s. apply_ordered H J JR es (state, core, applied, clk) = Ok s"
  using assms
proof (induction es arbitrary: state core applied clk)
  case (Cons e es)
  obtain core1 where c: "core_events_loop H J JR core [e] = Ok core1" "core_events_loop H J JR core1 es = Ok core'"
    using core_loop_split [of H J JR core "[e]" es core'] Cons.prems(3) by auto
  then have "apply_event H J JR state core e = Ok (bt_insert k (ev_vector_after e) state, core1)"
    using Cons.prems(1,2) by (simp add: apply_event_Ok del: core_events_loop.simps(2))
  moreover have "history (bt_get (bt_insert k (ev_vector_after e) state) k) es" using Cons.prems(1) by simp
  ultimately show ?case using Cons.IH [OF _ _ c(2)] Cons.prems(2) by simp
qed simp

text \<open>The groups are replayed where each is a history, and the core accepts the events in any order.\<close>

lemma replay_entities_succeeds:
  assumes "\<forall>(k, es) \<in> set gs. \<exists>xs. order_entity_events es = Ok xs \<and> history (bt_get state k) xs \<and>
      (\<forall>e \<in> set xs. ev_entity_id e = k)"
    and "distinct (map fst gs)"
    and "\<And>ys. mset ys = mset (concat (map snd gs)) \<Longrightarrow> \<exists>core'. core_events_loop H J JR core ys = Ok core'"
  shows "\<exists>s. replay_entities H J JR gs (state, core, applied, clk) = Ok s"
  using assms
proof (induction gs arbitrary: state core applied clk)
  case (Cons g gs)
  obtain k es where g: "g = (k, es)" by (cases g)
  with Cons.prems(1) obtain xs where xs: "order_entity_events es = Ok xs" "history (bt_get state k) xs"
    "\<forall>e \<in> set xs. ev_entity_id e = k" by auto
  have m: "mset xs = mset es" using order_entity_events_Ok [OF xs(1)] by blast
  have "\<exists>core1. core_events_loop H J JR core xs = Ok core1"
    using Cons.prems(3) [of "xs @ concat (map snd gs)"] core_loop_split [of H J JR core xs] m g by fastforce
  then obtain core1 where c: "core_events_loop H J JR core xs = Ok core1" ..
  obtain state' core' applied' clk' where
    a: "apply_ordered H J JR xs (state, core, applied, clk) = Ok (state', core', applied', clk')"
    using apply_ordered_succeeds [OF xs(2,3) c] by (metis prod.exhaust)
  note d = apply_ordered_Ok [OF a, of k]
  have other: "bt_get state' q = bt_get state q" if "q \<noteq> k" for q using d xs(3) that by simp
  have "core' = core1" using d xs(3) c by simp
  have "\<forall>(q, fs) \<in> set gs. \<exists>xs. order_entity_events fs = Ok xs \<and> history (bt_get state' q) xs \<and>
      (\<forall>e \<in> set xs. ev_entity_id e = q)"
  proof (rule ballI, rule case_prodI2)
    fix p q fs assume p: "p \<in> set gs" "p = (q, fs)"
    then have "q \<in> fst ` set gs" by force
    then have "q \<noteq> k" using Cons.prems(2) g by auto
    from other [OF this] bspec [OF Cons.prems(1), of p] p
    show "\<exists>xs. order_entity_events fs = Ok xs \<and> history (bt_get state' q) xs \<and>
      (\<forall>e \<in> set xs. ev_entity_id e = q)" by simp
  qed
  moreover have "\<exists>c'. core_events_loop H J JR core' ys = Ok c'" if "mset ys = mset (concat (map snd gs))" for ys
    using Cons.prems(3) [of "xs @ ys"] core_loop_split [of H J JR core xs ys] that m g c \<open>core' = core1\<close> by fastforce
  ultimately have "\<exists>s. replay_entities H J JR gs (state', core', applied', clk') = Ok s"
    using Cons.IH Cons.prems(2) by simp
  with xs(1) a g show ?case by auto
qed simp

lemma chained_chain:
  assumes "chained events"
  obtains es where "mset es = mset (entity_events events k)" "chain es" "distinct (hashes es)"
    "order_entity_events (entity_events events k) = Ok (rev es)" "history None (rev es)"
proof -
  obtain es where es: "mset es = mset (entity_events events k)" "chain es" using assms by (auto simp: chained_def)
  have "mset (hashes es) = mset (hashes (entity_events events k))" using es(1) by simp
  moreover have "distinct (hashes (entity_events events k))" using assms by (simp add: chained_def distinct_map_filter)
  ultimately have d: "distinct (hashes es)" using mset_eq_imp_distinct_iff by blast
  from that [OF es d order_entity_events_perm [OF order_chain [OF es(2) d] es(1)] chain_history [OF es(2)]]
  show thesis .
qed

lemma chained_well_formed:
  assumes "chained events"
  shows "well_formed_dag events"
proof -
  have parent: "\<exists>q \<in> set events. ev_event_hash q = p \<and> ev_region_id q = ev_region_id e \<and>
      (ev_logical_clock q, ev_timestamp q) < (ev_logical_clock e, ev_timestamp e)"
    if "e \<in> set events" "p \<in> set (ev_parent_hashes e)" for e p
  proof -
    obtain es where es: "mset es = mset (entity_events events (ev_entity_id e))" "chain es"
      by (rule chained_chain [OF assms])
    then have "set es \<subseteq> set events" "e \<in> set es" using mset_eq_setD [OF es(1)] that(1) by auto
    with chain_parents [OF es(2) _ that(2)] show ?thesis by blast
  qed
  have dp: "distinct (ev_parent_hashes e)" if "e \<in> set events" for e
  proof -
    obtain es where es: "mset es = mset (entity_events events (ev_entity_id e))" "chain es"
      by (rule chained_chain [OF assms])
    then have "e \<in> set es" using mset_eq_setD [OF es(1)] that by auto
    with chain_distinct_parents [OF es(2)] show ?thesis .
  qed
  have d: "distinct (hashes events)" "[] \<notin> ev_event_hash ` set events"
    using assms by (auto simp: chained_def)
  then have inj: "q = q'" if "q \<in> set events" "q' \<in> set events" "ev_event_hash q = ev_event_hash q'" for q q'
    using that by (auto simp: distinct_map inj_on_def)
  define key where "key h = (let q = hd (filter (\<lambda>q. ev_event_hash q = h) events)
    in (ev_logical_clock q, ev_timestamp q))" for h
  have key: "key (ev_event_hash q) = (ev_logical_clock q, ev_timestamp q)" if q: "q \<in> set events" for q
  proof -
    have "hd (filter (\<lambda>x. ev_event_hash x = ev_event_hash q) events) \<in>
        set (filter (\<lambda>x. ev_event_hash x = ev_event_hash q) events)"
      using q by (intro hd_in_set) (auto simp: filter_empty_conv)
    then have "hd (filter (\<lambda>x. ev_event_hash x = ev_event_hash q) events) = q" using q inj by simp
    then show ?thesis by (simp add: key_def Let_def)
  qed
  have "key a < key b" if "(a, b) \<in> parent_edges events" for a b
    using that parent key unfolding parent_edges_def by (auto simp del: less_prod_simp) metis
  then have "acyclic ((parent_edges events)\<inverse>)" by (intro acyclicI_order [where f = key]) blast
  then show ?thesis
    using d parent dp by (auto simp: well_formed_dag_def linked_events_def) blast
qed

lemma replay_chained:
  assumes "chained events" "core_state_from_events H J JR events = Ok core"
  obtains r where "replay_events H J JR events = Ok r"
    "\<And>k. \<exists>es. mset es = mset (entity_events events k) \<and> chain es \<and> bt_get (rr_final_state r) k = last_state None (rev es)"
proof -
  have "validate_dag events = Ok ()" using chained_well_formed [OF assms(1)] by (simp add: validate_dag_iff)
  moreover have "\<exists>s. replay_entities H J JR (group_by_entity events) ([], core_new H J JR, [], 0) = Ok s"
  proof (rule replay_entities_succeeds [OF _ group_by_entity_groups(1)], clarify)
    fix k es assume "(k, es) \<in> set (group_by_entity events)"
    then have e: "es = entity_events events k" by (simp add: group_by_entity_mem)
    obtain xs where xs: "mset xs = mset (entity_events events k)" "order_entity_events (entity_events events k) = Ok (rev xs)"
      "history None (rev xs)" by (rule chained_chain [OF assms(1)])
    have "\<forall>x \<in> set (rev xs). ev_entity_id x = k" using mset_eq_setD [OF xs(1)] by auto
    with xs e show "\<exists>xs. order_entity_events es = Ok xs \<and> history (bt_get [] k) xs \<and>
        (\<forall>e \<in> set xs. ev_entity_id e = k)" by auto
  next
    fix ys assume "mset ys = mset (concat (map snd (group_by_entity events)))"
    then have "mset events = mset ys" by (simp add: group_by_entity_mset)
    with core_events_loop_perm [of H J JR events core ys] assms(2)
    show "\<exists>core'. core_events_loop H J JR (core_new H J JR) ys = Ok core'"
      by (simp add: core_state_from_events_def)
  qed
  ultimately obtain r where r: "replay_events H J JR events = Ok r"
    by (auto simp: replay_events_def)
  show thesis
  proof (rule that [OF r])
    fix k
    obtain es where es: "mset es = mset (entity_events events k)" "chain es"
      "order_entity_events (entity_events events k) = Ok (rev es)" by (rule chained_chain [OF assms(1)])
    with replay_events_Ok(3) [OF r, of k]
    show "\<exists>es. mset es = mset (entity_events events k) \<and> chain es \<and> bt_get (rr_final_state r) k = last_state None (rev es)"
      by auto
  qed
qed


section \<open>The log of a kernel that keeps pace with its clock\<close>

text \<open>
  What the log holds of one vector: a chain that ends in its stored state, with no clock beyond the
  version of the vector and no time after \<open>t\<close>.
\<close>

definition tracked :: "vector_event list \<Rightarrow> u64 \<Rightarrow> string \<Rightarrow> vector_state_v1 option \<Rightarrow> bool" where
  "tracked events t v s \<longleftrightarrow> pred_option narrow s \<and>
     (\<exists>es. mset es = mset (entity_events events v) \<and> chain es \<and>
        last_state None (rev es) = map_option event_state s \<and>
        (\<forall>e \<in> set es. ev_timestamp e \<le> t \<and> \<not> is_region_create_event e \<and>
           (\<exists>st. s = Some st \<and> ev_logical_clock e \<le> v1_version st \<and> ev_region_id e = v1_space_id st)))"

text \<open>What it holds of a region: its genesis event, which describes a region with the default ratio.\<close>

definition genesis_ok :: "vector_event \<Rightarrow> bool" where
  "genesis_ok e \<longleftrightarrow> is_region_create_event e \<and> ev_parent_hashes e = [] \<and>
     (\<exists>rg. region_state_from_event e = Ok rg \<and> rs_auth_ratio_bps rg = DEFAULT_REGION_AUTH_RATIO_BPS)"

definition founded :: "vector_event list \<Rightarrow> string \<Rightarrow> bool" where
  "founded events v \<longleftrightarrow> (\<exists>e. mset (entity_events events v) = {# e #} \<and> genesis_ok e)"

definition entity_ok :: "vector_event list \<Rightarrow> u64 \<Rightarrow> string \<Rightarrow> vector_state_v1 option \<Rightarrow> bool" where
  "entity_ok events t v s \<longleftrightarrow> tracked events t v s \<or> (s = None \<and> founded events v)"

definition faithful :: "crates \<Rightarrow> u64 \<Rightarrow> kernel_engine \<Rightarrow> bool" where
  "faithful X t k \<longleftrightarrow> kernel_ok X k \<and>
     (\<forall>e \<in> set (list_events (ke_store k)). ev_event_hash e \<noteq> []) \<and>
     length (region_events (list_events (ke_store k))) < 2 ^ 54 \<and>
     (\<forall>v. entity_ok (list_events (ke_store k)) t v (get_state (ke_store k) v))"

lemma faithful_tracked:
  "faithful X t k \<Longrightarrow> get_state (ke_store k) v = Some st \<Longrightarrow> tracked (list_events (ke_store k)) t v (Some st)"
  unfolding faithful_def entity_ok_def by (metis option.distinct(1))

lemma faithful_unused:
  assumes "faithful X t k" "\<forall>e \<in> set (list_events (ke_store k)). ev_entity_id e \<noteq> v"
  shows "get_state (ke_store k) v = None"
proof (rule ccontr)
  assume "get_state (ke_store k) v \<noteq> None"
  then obtain st where "get_state (ke_store k) v = Some st" by blast
  from faithful_tracked [OF assms(1) this] assms(2) show False
    by (auto simp: tracked_def last_state_def filter_empty_conv split: if_splits)
qed

lemma tracked_later: "tracked events t v s \<Longrightarrow> t \<le> t' \<Longrightarrow> tracked events t' v s"
  unfolding tracked_def by (meson order_trans)

lemma tracked_other:
  assumes "tracked events t v s" "mset events' = add_mset e (mset events)" "ev_entity_id e \<noteq> v"
  shows "tracked events' t v s"
proof -
  have "mset (entity_events events' v) = mset (entity_events events v)"
    using assms(2,3) by simp
  with assms(1) show ?thesis by (simp add: tracked_def)
qed

lemma entity_ok_other:
  assumes "entity_ok events t v s" "t \<le> t'" "mset events' = add_mset e (mset events)" "ev_entity_id e \<noteq> v"
  shows "entity_ok events' t' v s"
  using assms(1) tracked_other [OF tracked_later [OF _ assms(2)] assms(3,4)] assms(3,4)
  by (auto simp: entity_ok_def founded_def)

lemma find_rev_last:
  "find P (rev xs) = (if filter P xs = [] then None else Some (last (filter P xs)))"
  by (induction xs rule: rev_induct) auto

lemma sorted_last: "sorted (map g ys) \<Longrightarrow> y \<in> set ys \<Longrightarrow> g y \<le> g (last ys)"
  by (induction ys) (auto split: if_splits)

text \<open>The latest event of a vector is the head of its chain, so the next event is built on it.\<close>

lemma latest_parent_is_head:
  assumes "mset (f # es) = mset (entity_events (list_events (ke_store k)) v)" "chain (f # es)"
  shows "latest_parent_hash_for_entity k v = [ev_event_hash f]"
proof -
  let ?xs = "load_events_for_replay (ke_store k)"
  let ?ys = "entity_events (sort_key canonical_event_sort_key ?xs) v"
  have "mset ?ys = mset (entity_events (list_events (ke_store k)) v)"
    by (simp add: load_events_mset)
  then have m: "set ?ys = set (f # es)" using assms(1) mset_eq_setD by metis
  then have ne: "?ys \<noteq> []" by (metis list.distinct(1) set_empty2)
  have srt: "sorted (map canonical_event_sort_key ?ys)" by (simp add: sorted_filter)
  have "last ?ys = f"
  proof (rule ccontr)
    assume d: "last ?ys \<noteq> f"
    have "last ?ys \<in> set ?ys" using ne by (rule last_in_set)
    with m d have "last ?ys \<in> set es" by (metis set_ConsD)
    with chain_keys [OF assms(2)]
    have less: "(ev_logical_clock (last ?ys), ev_timestamp (last ?ys)) < (ev_logical_clock f, ev_timestamp f)" by blast
    have "f \<in> set ?ys" using m by simp
    then have "canonical_event_sort_key f \<le> canonical_event_sort_key (last ?ys)"
      by (rule sorted_last [OF srt])
    with less show False by (auto simp: canonical_event_sort_key_def)
  qed
  then show ?thesis using ne by (simp add: latest_parent_hash_for_entity_def Let_def find_rev_last)
qed

text \<open>One more event of the vector.\<close>

lemma tracked_logged:
  assumes ok: "store_ok (ke_store k)"
    and tr: "tracked (list_events (ke_store k)) t v (Some st)"
    and log: "log_transition X (Some st) after op' (v1_version after) ts (\<lambda>k. latest_parent_hash_for_entity k v) k = (k', Ok u)"
    and after: "v1_vector_id after = v" "v1_space_id after = v1_space_id st" "op' \<noteq> Op_OriginCreate"
      "plain_transition op' after"
    and key: "v1_version st < v1_version after \<or> v1_version after = v1_version st \<and> t < ts"
    and t': "t \<le> t'" "ts \<le> t'"
  obtains e where "mset (list_events (ke_store k')) = add_mset e (mset (list_events (ke_store k)))"
    "store_ok (ke_store k')" "ev_entity_id e = v" "ev_event_hash e \<noteq> []"
    "tracked (list_events (ke_store k')) t' v (Some after)"
    "\<exists>ps n. e = transition_event (cr_hash X) (Some st) after op' (v1_version after) ts ps n"
proof -
  let ?ps = "latest_parent_hash_for_entity k v"
  define e where "e = transition_event (cr_hash X) (Some st) after op' (v1_version after) ts ?ps (of_nat (sequence_of k after))"
  obtain s where s: "append_event e (ke_store k) = Ok s" "k' = k\<lparr> ke_store := s \<rparr>" "narrow after"
    using log by (auto simp: log_transition_Ok append_canonical_event_Ok e_def)
  note a = store_ok_append [OF ok s(1)]
  obtain es where es: "mset es = mset (entity_events (list_events (ke_store k)) v)" "chain es"
    "last_state None (rev es) = Some (event_state st)"
    "\<forall>e \<in> set es. ev_timestamp e \<le> t \<and> \<not> is_region_create_event e \<and> ev_logical_clock e \<le> v1_version st \<and>
       ev_region_id e = v1_space_id st"
    using tr by (auto simp: tracked_def)
  obtain f fs where f: "es = f # fs" using es(3) by (cases es) (auto simp: last_state_def)
  have fe: "ev_vector_after f = event_state st" using es(3) by (simp add: f last_state_def)
  have plain: "\<not> is_region_create_event e" using transition_not_region [OF after(4)] by (simp add: e_def)
  have "(ev_logical_clock f, ev_timestamp f) < (v1_version after, ts)"
    using es(4) key by (auto simp: f)
  then have "chain (e # es)"
    using es(2,4) fe after(2,3) latest_parent_is_head [of f fs v k] es(1) plain
    by (simp add: f e_def links_def event_before_def)
  moreover have "mset (e # es) = mset (entity_events (list_events (ke_store k')) v)"
    using a(2) es(1) after(1) by (simp add: s(2) e_def)
  moreover have "\<forall>x \<in> set (e # es). ev_timestamp x \<le> t' \<and> \<not> is_region_create_event x \<and>
      ev_logical_clock x \<le> v1_version after \<and> ev_region_id x = v1_space_id after"
    using es(4) t' key after(2) plain by (auto simp: e_def)
  moreover have "last_state None (rev (e # es)) = Some (event_state after)" by (simp add: last_state_def e_def)
  ultimately have "tracked (list_events (ke_store k')) t' v (Some after)"
    unfolding tracked_def using s(3) by fastforce
  moreover have "ev_entity_id e = v" using after(1) by (simp add: e_def)
  moreover have "ev_event_hash e \<noteq> []" using log.append_iff [OF ok, of e] s(1) by blast
  ultimately show thesis using that [of e] a s(2) e_def by auto
qed


section \<open>Timely runs\<close>

text \<open>
  Runs in which every operation returns, no vector or region gets an identifier that the log names
  already, nothing is transferred to itself, and there are fewer than \<open>2 ^ 54\<close> regions (the core sums their
  ratios, 1000 each, in 64 bits). \<open>t\<close> bounds the readings of the clock so far; only a transfer needs the
  clock to have moved on, since it does not raise the version its events are ordered by.
\<close>

inductive timely_run :: "crates \<Rightarrow> u64 \<Rightarrow> kernel_engine \<Rightarrow> bool" for X :: crates where
  timely_new: "timely_run X t kernel_new"
| timely_origin: "timely_run X t k \<Longrightarrow> t \<le> t' \<Longrightarrow> \<forall>i. clk i \<le> t' \<Longrightarrow>
    \<forall>e \<in> set (list_events (ke_store k)). ev_entity_id e \<noteq> v \<Longrightarrow>
    origin_create X clk v ow sp cs seed nonce difficulty k = (k', Ok a) \<Longrightarrow> timely_run X t' k'"
| timely_transfer: "timely_run X t k \<Longrightarrow> t \<le> t' \<Longrightarrow> \<forall>i. clk i \<le> t' \<Longrightarrow> v \<noteq> w \<Longrightarrow> t < clk 6 \<Longrightarrow> t < clk 7 \<Longrightarrow>
    transfer X clk v w amount k = (k', Ok (a, b)) \<Longrightarrow> timely_run X t' k'"
| timely_certify: "timely_run X t k \<Longrightarrow> t \<le> t' \<Longrightarrow> \<forall>i. clk i \<le> t' \<Longrightarrow>
    get_state (ke_store k) v = Some st \<Longrightarrow> unat (v1_version st) + 1 < 2 ^ 64 \<Longrightarrow>
    certify X clk v k = (k', Ok a) \<Longrightarrow> timely_run X t' k'"
| timely_drain: "timely_run X t k \<Longrightarrow> t \<le> t' \<Longrightarrow> \<forall>i. clk i \<le> t' \<Longrightarrow>
    get_state (ke_store k) v = Some st \<Longrightarrow> unat (v1_version st) + 1 < 2 ^ 64 \<Longrightarrow>
    drain X clk v bps k = (k', Ok a) \<Longrightarrow> timely_run X t' k'"
| timely_project: "timely_run X t k \<Longrightarrow> t \<le> t' \<Longrightarrow> \<forall>i. clk i \<le> t' \<Longrightarrow>
    get_state (ke_store k) v = Some st \<Longrightarrow> unat (v1_version st) + 1 < 2 ^ 64 \<Longrightarrow>
    project X clk v part escrow k = (k', Ok a) \<Longrightarrow> timely_run X t' k'"
| timely_reconstruct: "timely_run X t k \<Longrightarrow> t \<le> t' \<Longrightarrow> \<forall>i. clk i \<le> t' \<Longrightarrow>
    get_state (ke_store k) v = Some st \<Longrightarrow> unat (v1_version st) + 1 < 2 ^ 64 \<Longrightarrow>
    reconstruct X clk v out k = (k', Ok a) \<Longrightarrow> timely_run X t' k'"
| timely_region: "timely_run X t k \<Longrightarrow> t \<le> t' \<Longrightarrow> \<forall>i. clk i \<le> t' \<Longrightarrow>
    create_region X clk request pk k = (k', Ok rg) \<Longrightarrow>
    \<forall>e \<in> set (list_events (ke_store k)). ev_entity_id e \<noteq> rs_region_id rg \<Longrightarrow>
    length (region_events (list_events (ke_store k'))) < 2 ^ 54 \<Longrightarrow> timely_run X t' k'"

lemma faithful_new: "faithful X t kernel_new"
  using kernel_ok_new [of X]
  by (simp add: faithful_def entity_ok_def tracked_def last_state_def kernel_new_def store_default_def
      list_events_def get_state_def)

text \<open>One more event, and the state of its entity.\<close>

lemma faithful_extend:
  assumes f: "faithful X t k" and k': "kernel_ok X k'" and t': "t \<le> t'"
    and e: "mset (list_events (ke_store k')) = add_mset e (mset (list_events (ke_store k)))" "ev_event_hash e \<noteq> []"
    and few: "length (region_events (list_events (ke_store k'))) < 2 ^ 54"
    and here: "entity_ok (list_events (ke_store k')) t' (ev_entity_id e) (get_state (ke_store k') (ev_entity_id e))"
    and other: "\<And>w. w \<noteq> ev_entity_id e \<Longrightarrow> get_state (ke_store k') w = get_state (ke_store k) w"
  shows "faithful X t' k'"
proof -
  have "entity_ok (list_events (ke_store k')) t' w (get_state (ke_store k') w)" for w
  proof (cases "w = ev_entity_id e")
    case False
    with f other entity_ok_other [OF _ t' e(1)] show ?thesis by (simp add: faithful_def)
  qed (use here in simp)
  moreover have "\<forall>x \<in> set (list_events (ke_store k')). ev_event_hash x \<noteq> []"
    using mset_eq_setD [of "list_events (ke_store k')" "e # list_events (ke_store k)"] e f by (auto simp: faithful_def)
  ultimately show ?thesis using k' few by (simp add: faithful_def)
qed

lemma region_events_other:
  assumes "mset es' = add_mset e (mset es)" "\<not> is_region_create_event e"
  shows "length (region_events es') = length (region_events es)"
proof -
  have "mset (region_events es') = mset (region_events es)" using assms by simp
  then show ?thesis by (rule mset_eq_length)
qed

lemma faithful_step:
  assumes f: "faithful X t k" and k': "kernel_ok X k'" and g: "get_state (ke_store k) v = Some st"
    and log: "log_transition X (Some st) after op' (v1_version after) ts
      (\<lambda>k. latest_parent_hash_for_entity k (v1_vector_id after)) (written [after] [r] k) = (k', Ok u)"
    and after: "v1_vector_id after = v" "v1_space_id after = v1_space_id st" "plain_transition op' after"
      "op' \<noteq> Op_OriginCreate" "v1_version after = v1_version st + 1" "unat (v1_version st) + 1 < 2 ^ 64"
    and t': "t \<le> t'" "ts \<le> t'"
  shows "faithful X t' k'"
proof -
  have ok: "store_ok (ke_store k)" using f by (simp add: faithful_def kernel_ok_def)
  have key: "v1_version st < v1_version after" using after(5,6) by (simp add: word_less_nat_alt unat_word_ariths)
  have tr: "tracked (list_events (ke_store (written [after] [r] k))) t v (Some st)"
    using faithful_tracked [OF f g] by simp
  obtain e where e: "mset (list_events (ke_store k')) = add_mset e (mset (list_events (ke_store k)))"
    "ev_entity_id e = v" "tracked (list_events (ke_store k')) t' v (Some after)" "ev_event_hash e \<noteq> []"
    "\<exists>ps n. e = transition_event (cr_hash X) (Some st) after op' (v1_version after) ts ps n"
    by (rule tracked_logged [OF written_ok [OF ok] tr log [unfolded after(1)] after(1,2,4,3) _ t'])
      (use key in auto)
  have st: "get_state (ke_store k') = (get_state (ke_store k))(v \<mapsto> after)"
    by (simp add: log_transition_frame(1) [OF log] fun_eq_iff vectors.get_put after(1))
  have "\<not> is_region_create_event e" using e(5) transition_not_region [OF after(3)] by auto
  from region_events_other [OF e(1) this] show ?thesis
    by (intro faithful_extend [OF f k' t'(1) e(1,4)]) (use f e(2,3) st in \<open>simp_all add: faithful_def entity_ok_def\<close>)
qed

lemma faithful_origin:
  assumes f: "faithful X t k" and g: "\<forall>e \<in> set (list_events (ke_store k)). ev_entity_id e \<noteq> v"
    and o: "origin_create X clk v ow sp cs seed nonce difficulty k = (k', Ok a)"
    and t': "t \<le> t'" "\<forall>i. clk i \<le> t'"
  shows "faithful X t' k'"
proof -
  have k: "kernel_ok X k" and ok: "store_ok (ke_store k)" using f by (simp_all add: faithful_def kernel_ok_def)
  have k': "kernel_ok X k'" using keepsD [OF origin_create_keeps k o] by blast
  obtain st c r where d: "create_origin_vector (cr_hash X) (clk 0) v ow sp cs seed nonce difficulty = Ok st"
    "a = st\<lparr> v1_certification := c \<rparr>"
    "log_transition X None a Op_OriginCreate (v1_version a) (v1_created_at_ms a) (\<lambda>k. []) (written [a] [r] k) = (k', Ok ())"
    by (rule origin_create_Ok [OF o]) (rule that; assumption)
  have a: "v1_vector_id a = v" "v1_type_metadata a = []" "v1_created_at_ms a = clk 0"
    using d(1,2) by (simp_all add: create_origin_vector_Ok)
  define e where "e = transition_event (cr_hash X) None a Op_OriginCreate (v1_version a) (clk 0) []
    (of_nat (sequence_of (written [a] [r] k) a))"
  obtain s where s: "append_event e (ke_store (written [a] [r] k)) = Ok s" "k' = (written [a] [r] k)\<lparr> ke_store := s \<rparr>"
    "narrow a"
    using d(3) by (auto simp: log_transition_Ok append_canonical_event_Ok e_def a(3) simp del: sequence_of_written)
  have m: "mset (list_events (ke_store k')) = add_mset e (mset (list_events (ke_store k)))"
    using store_ok_append(2) [OF written_ok [OF ok] s(1)] by (simp add: s(2))
  have ee: "ev_entity_id e = v" using a(1) by (simp add: e_def)
  have he: "ev_event_hash e \<noteq> []" using log.append_iff [OF written_ok [OF ok], of e "[a]" "[r]"] s(1) by blast
  have st: "get_state (ke_store k') = (get_state (ke_store k))(v \<mapsto> a)"
    by (simp add: log_transition_frame(1) [OF d(3)] fun_eq_iff vectors.get_put a(1))
  have plain: "\<not> is_region_create_event e"
    using transition_not_region [of Op_OriginCreate a] a(2) by (simp add: plain_transition_def e_def)
  have "entity_events (list_events (ke_store k)) v = []" using g by (simp add: filter_empty_conv)
  then have "mset [e] = mset (entity_events (list_events (ke_store k')) v)"
    using m ee by (simp add: filter_empty_conv)
  moreover have "ev_timestamp e \<le> t'" using t'(2) by (simp add: e_def)
  ultimately have "tracked (list_events (ke_store k')) t' v (Some a)"
    unfolding tracked_def using plain
    by (intro conjI exI [of _ "[e]"]) (simp_all add: e_def last_state_def s(3))
  with region_events_other [OF m plain] show ?thesis
    by (intro faithful_extend [OF f k' t'(1) m he]) (use f ee st in \<open>simp_all add: faithful_def entity_ok_def\<close>)
qed

lemma faithful_transfer:
  assumes f: "faithful X t k" and vw: "v \<noteq> w" and late: "t < clk 6" "t < clk 7"
    and o: "transfer X clk v w amount k = (k', Ok (a, b))"
    and t': "t \<le> t'" "\<forall>i. clk i \<le> t'"
  shows "faithful X t' k'"
proof -
  have k: "kernel_ok X k" and ok: "store_ok (ke_store k)" using f by (simp_all add: faithful_def kernel_ok_def)
  have k': "kernel_ok X k'" using keepsD [OF transfer_keeps k o] by blast
  obtain u u' mid mid' c c' q q' k1 where d:
    "get_state (ke_store k) v = Some u" "get_state (ke_store k) w = Some u'"
    "transfer_components u u' amount = Ok (mid, mid')" "a = mid\<lparr> v1_certification := c \<rparr>" "b = mid'\<lparr> v1_certification := c' \<rparr>"
    "log_transition X (Some u) a Op_Transfer (v1_version a) (clk 6)
       (\<lambda>k. latest_parent_hash_for_entity k (v1_vector_id a)) (written [a, b] [q, q'] k) = (k1, Ok ())"
    "log_transition X (Some u') b Op_Transfer (v1_version b) (clk 7)
       (\<lambda>k. latest_parent_hash_for_entity k (v1_vector_id b)) k1 = (k', Ok ())"
    by (rule transfer_Ok [OF o]) (rule that; assumption)
  note m = d(3) [unfolded transfer_components_Ok]
  have i: "v1_vector_id u = v" "v1_vector_id u' = w"
    by (rule vectors.get_key [OF ok d(1)], rule vectors.get_key [OF ok d(2)])
  have a: "v1_vector_id a = v" "v1_space_id a = v1_space_id u" "v1_version a = v1_version u"
    and b: "v1_vector_id b = w" "v1_space_id b = v1_space_id u'" "v1_version b = v1_version u'"
    using m d(4,5) i by simp_all
  have tr: "tracked (list_events (ke_store (written [a, b] [q, q'] k))) t v (Some u)"
    using faithful_tracked [OF f d(1)] by simp
  obtain e where e: "mset (list_events (ke_store k1)) = add_mset e (mset (list_events (ke_store k)))"
    "store_ok (ke_store k1)" "ev_entity_id e = v" "tracked (list_events (ke_store k1)) t' v (Some a)"
    "ev_event_hash e \<noteq> []"
    "\<exists>ps n. e = transition_event (cr_hash X) (Some u) a Op_Transfer (v1_version a) (clk 6) ps n"
    by (rule tracked_logged [OF written_ok [OF ok] tr d(6) [unfolded a(1)] a(1,2) _ _ _ t'(1)])
      (use a(3) late t'(2) in \<open>auto simp: plain_transition_def\<close>)
  have "tracked (list_events (ke_store k)) t w (Some u')" by (rule faithful_tracked [OF f d(2)])
  then have tr1: "tracked (list_events (ke_store k1)) t w (Some u')" using tracked_other e(1,3) vw by metis
  obtain e' where e': "mset (list_events (ke_store k')) = add_mset e' (mset (list_events (ke_store k1)))"
    "ev_entity_id e' = w" "tracked (list_events (ke_store k')) t' w (Some b)" "ev_event_hash e' \<noteq> []"
    "\<exists>ps n. e' = transition_event (cr_hash X) (Some u') b Op_Transfer (v1_version b) (clk 7) ps n"
    by (rule tracked_logged [OF e(2) tr1 d(7) [unfolded b(1)] b(1,2) _ _ _ t'(1)])
      (use b(3) late t'(2) in \<open>auto simp: plain_transition_def\<close>)
  have st: "get_state (ke_store k') = (get_state (ke_store k))(v \<mapsto> a, w \<mapsto> b)"
    by (simp add: log_transition_frame(1) [OF d(7)] log_transition_frame(1) [OF d(6)] fun_eq_iff vectors.get_put a(1) b(1))
  have tv: "tracked (list_events (ke_store k')) t' v (Some a)"
    using tracked_other [OF e(4) e'(1)] e'(2) vw by simp
  have "entity_ok (list_events (ke_store k')) t' x (get_state (ke_store k') x)" for x
  proof (cases "x = v \<or> x = w")
    case False
    have "entity_ok (list_events (ke_store k)) t x (get_state (ke_store k) x)" using f by (simp add: faithful_def)
    then have "entity_ok (list_events (ke_store k1)) t' x (get_state (ke_store k) x)"
      using entity_ok_other [OF _ t'(1) e(1)] e(3) False by blast
    then have "entity_ok (list_events (ke_store k')) t' x (get_state (ke_store k) x)"
      using entity_ok_other [OF _ _ e'(1)] e'(2) False by blast
    then show ?thesis using False st by simp
  qed (use tv e'(3) st vw in \<open>auto simp: entity_ok_def\<close>)
  moreover have plain: "\<not> is_region_create_event e" "\<not> is_region_create_event e'"
    using e(6) e'(5) transition_not_region [of Op_Transfer] by (auto simp: plain_transition_def)
  moreover have "\<forall>x \<in> set (list_events (ke_store k')). ev_event_hash x \<noteq> []"
    using mset_eq_setD [of "list_events (ke_store k')" "e' # e # list_events (ke_store k)"] e(1,5) e'(1,4) f
    by (auto simp: faithful_def)
  ultimately show ?thesis
    using k' f region_events_other [OF e(1)] region_events_other [OF e'(1)] by (simp add: faithful_def)
qed

text \<open>A region that is created: its genesis event is all the log holds of it.\<close>

lemma genesis_ratio:
  assumes "build_region_genesis_event H J rq pk lc ts n = Ok e" "region_state_from_event e = Ok rg"
  shows "rs_auth_ratio_bps rg = DEFAULT_REGION_AUTH_RATIO_BPS"
proof -
  have "trim (ev_event_hash e) \<noteq> []" using assms(2) by (auto simp: region_state_from_event_def split: if_splits)
  then show ?thesis by (rule genesis_region_state [OF assms(1)]) (use assms(2) in simp)
qed

lemma faithful_region:
  assumes f: "faithful X t k" and t': "t \<le> t'"
    and o: "create_region X clk request pk k = (k', Ok rg)"
    and fresh: "\<forall>e \<in> set (list_events (ke_store k)). ev_entity_id e \<noteq> rs_region_id rg"
    and few: "length (region_events (list_events (ke_store k'))) < 2 ^ 54"
  shows "faithful X t' k'"
proof -
  have k: "kernel_ok X k" and ok: "store_ok (ke_store k)" using f by (simp_all add: faithful_def kernel_ok_def)
  have k': "kernel_ok X k'" using keepsD [OF create_region_keeps k o] by blast
  obtain e s where e:
    "build_region_genesis_event (cr_hash X) (cr_map_json X) request pk (next_logical_clock k) (clk 0) 1 = Ok e"
    "append_event e (ke_store k) = Ok s" "k' = k\<lparr> ke_store := s \<rparr>" "region_state_from_event e = Ok rg"
    by (rule create_region_Ok [OF o])
  have m: "mset (list_events (ke_store k')) = add_mset e (mset (list_events (ke_store k)))"
    using store_ok_append(2) [OF ok e(2)] by (simp add: e(3))
  have he: "ev_event_hash e \<noteq> []" using log.append_iff [OF ok, of e] e(2) by blast
  have st: "get_state (ke_store k') = get_state (ke_store k)"
    by (simp add: e(3) append_event_frame [OF e(2)])
  have id: "rs_region_id rg = ev_entity_id e" by (rule region_state_id [OF e(4)])
  have "entity_events (list_events (ke_store k)) (ev_entity_id e) = []"
    using fresh by (simp add: filter_empty_conv id)
  then have "mset (entity_events (list_events (ke_store k')) (ev_entity_id e)) = {# e #}"
    using m by (simp add: filter_empty_conv)
  moreover have "genesis_ok e"
    using genesis_event_fields(4,5) [OF e(1)] e(4) genesis_ratio [OF e(1,4)]
    by (simp add: genesis_ok_def is_region_create_event_def)
  ultimately have "founded (list_events (ke_store k')) (ev_entity_id e)" by (auto simp: founded_def)
  moreover have "get_state (ke_store k) (ev_entity_id e) = None"
    using faithful_unused [OF f fresh] by (simp add: id)
  ultimately show ?thesis
    by (intro faithful_extend [OF f k' t' m he few]) (simp_all add: st entity_ok_def)
qed

lemma timely_run_faithful: "timely_run X t k \<Longrightarrow> faithful X t k"
proof (induction rule: timely_run.induct)
  case (timely_new t)
  show ?case by (rule faithful_new)
next
  case (timely_origin t k t' clk v ow sp cs seed nonce difficulty k' a)
  then show ?case using faithful_origin by blast
next
  case (timely_transfer t k t' clk v w amount k' a b)
  then show ?case using faithful_transfer by blast
next
  case (timely_certify t k t' clk v st k' a)
  then have k: "kernel_ok X k" and ok: "store_ok (ke_store k)" by (simp_all add: faithful_def kernel_ok_def)
  show ?case
  proof (rule certify_Ok [OF timely_certify(6)])
    fix u c r
    assume d: "get_state (ke_store k) v = Some u"
      "a = u\<lparr> v1_certification := c, v1_updated_at_ms := clk 1, v1_version := v1_version u + 1 \<rparr>"
      "log_transition X (Some u) a Op_Certify (v1_version a) (clk 1)
         (\<lambda>k. latest_parent_hash_for_entity k (v1_vector_id a)) (written [a] [r] k) = (k', Ok ())"
    show "faithful X t' k'"
      by (rule faithful_step [OF timely_certify(7) _ d(1,3)])
        (use timely_certify(2-5) d(1,2) vectors.get_key [OF ok d(1)] keepsD [OF certify_keeps k timely_certify(6)]
          in \<open>simp_all add: plain_transition_def\<close>)
  qed
next
  case (timely_drain t k t' clk v st bps k' a)
  then have k: "kernel_ok X k" and ok: "store_ok (ke_store k)" by (simp_all add: faithful_def kernel_ok_def)
  show ?case
  proof (rule drain_Ok [OF timely_drain(6)])
    fix u dr rem c r
    assume d: "get_state (ke_store k) v = Some u"
      "a = u\<lparr> v1_components := rem, v1_certification := c, v1_updated_at_ms := clk 1, v1_version := v1_version u + 1 \<rparr>"
      "log_transition X (Some u) a Op_Drain (v1_version a) (clk 1)
         (\<lambda>k. latest_parent_hash_for_entity k (v1_vector_id a)) (written [a] [r] k) = (k', Ok ())"
    show "faithful X t' k'"
      by (rule faithful_step [OF timely_drain(7) _ d(1,3)])
        (use timely_drain(2-5) d(1,2) vectors.get_key [OF ok d(1)] keepsD [OF drain_keeps k timely_drain(6)]
          in \<open>simp_all add: plain_transition_def\<close>)
  qed
next
  case (timely_project t k t' clk v st part escrow k' a)
  then have k: "kernel_ok X k" and ok: "store_ok (ke_store k)" by (simp_all add: faithful_def kernel_ok_def)
  show ?case
  proof (rule project_Ok [OF timely_project(6)])
    fix u mid c r
    assume d: "get_state (ke_store k) v = Some u"
      "project_vector (cr_checks X) (clk 0) u part escrow = Ok mid" "a = mid\<lparr> v1_certification := c \<rparr>"
      "log_transition X (Some u) a Op_Project (v1_version a) (v1_updated_at_ms a)
         (\<lambda>k. latest_parent_hash_for_entity k (v1_vector_id a)) (written [a] [r] k) = (k', Ok ())"
    show "faithful X t' k'"
      by (rule faithful_step [OF timely_project(7) _ d(1,4)])
        (use timely_project(2-5) d(1,3) project_vector_Ok [OF d(2)] vectors.get_key [OF ok d(1)]
          keepsD [OF project_keeps k timely_project(6)] in \<open>simp_all add: plain_transition_def\<close>)
  qed
next
  case (timely_reconstruct t k t' clk v st out k' a)
  then have k: "kernel_ok X k" and ok: "store_ok (ke_store k)" by (simp_all add: faithful_def kernel_ok_def)
  show ?case
  proof (rule reconstruct_Ok [OF timely_reconstruct(6)])
    fix u mid c r
    assume d: "get_state (ke_store k) v = Some u"
      "reconstruct_vector (cr_checks X) (clk 0) u out = Ok mid" "a = mid\<lparr> v1_certification := c \<rparr>"
      "log_transition X (Some u) a Op_Reconstruct (v1_version a) (v1_updated_at_ms a)
         (\<lambda>k. latest_parent_hash_for_entity k (v1_vector_id a)) (written [a] [r] k) = (k', Ok ())"
    have "v1_vector_id mid = v1_vector_id u" "v1_space_id mid = v1_space_id u" "v1_version mid = v1_version u + 1"
      "v1_updated_at_ms mid = clk 0"
      by (rule reconstruct_vector_Ok [OF d(2)], simp)+
    then show "faithful X t' k'"
      by (intro faithful_step [OF timely_reconstruct(7) _ d(1,4)])
        (use timely_reconstruct(2-5) d(1,3) vectors.get_key [OF ok d(1)]
          keepsD [OF reconstruct_keeps k timely_reconstruct(6)] in \<open>simp_all add: plain_transition_def\<close>)
  qed
next
  case (timely_region t k t' clk request pk k' rg)
  then show ?case using faithful_region by blast
qed

lemma entity_ok_chain:
  assumes "entity_ok events t v s"
  obtains es where "mset es = mset (entity_events events v)" "chain es"
  using assms
proof (cases "tracked events t v s")
  case True
  then show thesis using that by (auto simp: tracked_def)
next
  case False
  then obtain e where "mset (entity_events events v) = {# e #}" "genesis_ok e"
    using assms by (auto simp: entity_ok_def founded_def)
  then show thesis using that [of "[e]"] by (simp add: genesis_ok_def)
qed

lemma faithful_log:
  assumes "faithful X t k"
  shows "mset (load_events_for_replay (ke_store k)) = mset (list_events (ke_store k))"
    and "distinct (hashes (list_events (ke_store k)))"
proof -
  have ok: "store_ok (ke_store k)" using assms by (simp add: faithful_def kernel_ok_def)
  then show "distinct (hashes (list_events (ke_store k)))"
    using keyed_distinct [of ev_event_hash "ms_events (ke_store k)"]
    by (simp add: store_ok_def list_events_def comp_def)
qed (rule load_events_mset)

lemma faithful_chained:
  assumes "faithful X t k"
  shows "chained (load_events_for_replay (ke_store k))"
proof -
  note m = faithful_log(1) [OF assms]
  have "mset (hashes (load_events_for_replay (ke_store k))) = mset (hashes (list_events (ke_store k)))"
    by (simp add: m)
  then have "distinct (hashes (load_events_for_replay (ke_store k)))"
    using faithful_log(2) [OF assms] mset_eq_imp_distinct_iff by metis
  moreover have "\<exists>es. mset es = mset (entity_events (load_events_for_replay (ke_store k)) v) \<and> chain es" for v
  proof -
    have "entity_ok (list_events (ke_store k)) t v (get_state (ke_store k) v)" using assms by (simp add: faithful_def)
    then show ?thesis by (rule entity_ok_chain) (auto simp: m)
  qed
  ultimately show ?thesis using assms mset_eq_setD [OF m] by (simp add: chained_def faithful_def)
qed

text \<open>The core accepts the log: a region for each genesis event, under identifiers of their own.\<close>

lemma faithful_genesis:
  assumes "faithful X t k" "e \<in> set (list_events (ke_store k))" "is_region_create_event e"
  shows "genesis_ok e" "mset (entity_events (list_events (ke_store k)) (ev_entity_id e)) = {# e #}"
    "get_state (ke_store k) (ev_entity_id e) = None"
proof -
  let ?v = "ev_entity_id e" let ?es = "list_events (ke_store k)"
  have ok: "entity_ok ?es t ?v (get_state (ke_store k) ?v)" using assms(1) by (simp add: faithful_def)
  have "\<not> tracked ?es t ?v (get_state (ke_store k) ?v)"
  proof
    assume "tracked ?es t ?v (get_state (ke_store k) ?v)"
    then obtain es where es: "mset es = mset (entity_events ?es ?v)" "\<forall>x \<in> set es. \<not> is_region_create_event x"
      by (auto simp: tracked_def)
    with mset_eq_setD [OF es(1)] assms(2,3) show False by auto
  qed
  with ok obtain g where g: "get_state (ke_store k) ?v = None" "mset (entity_events ?es ?v) = {# g #}" "genesis_ok g"
    by (auto simp: entity_ok_def founded_def)
  have "set (entity_events ?es ?v) = {g}" by (metis g(2) set_mset_add_mset_insert set_mset_empty set_mset_mset)
  then have "e = g" using assms(2) by auto
  with g show "genesis_ok e" "mset (entity_events ?es ?v) = {# e #}" "get_state (ke_store k) ?v = None" by auto
qed

lemma faithful_entity_region:
  assumes "faithful X t k" "get_state (ke_store k) v = None" "e \<in> set (list_events (ke_store k))" "ev_entity_id e = v"
  shows "is_region_create_event e"
proof -
  let ?es = "list_events (ke_store k)"
  have "entity_ok ?es t v None" using assms(1,2) by (simp add: faithful_def) metis
  moreover have "\<not> tracked ?es t v None"
    using assms(3,4) by (auto simp: tracked_def last_state_def filter_empty_conv split: if_splits)
  ultimately obtain g where g: "mset (entity_events ?es v) = {# g #}" "genesis_ok g"
    by (auto simp: entity_ok_def founded_def)
  have "set (entity_events ?es v) = {g}" by (metis g(1) set_mset_add_mset_insert set_mset_empty set_mset_mset)
  with assms(3,4) g(2) show ?thesis by (auto simp: genesis_ok_def)
qed

lemma founded_distinct:
  assumes "\<And>e. e \<in> set (region_events es) \<Longrightarrow> mset (entity_events es (ev_entity_id e)) = {# e #}"
  shows "distinct (map ev_entity_id (region_events es))"
proof -
  have c: "count (mset (map ev_entity_id (region_events es))) v \<le> 1" for v
  proof (cases "v \<in> ev_entity_id ` set (region_events es)")
    case True
    then obtain e where e: "e \<in> set (region_events es)" "v = ev_entity_id e" by blast
    have "count (mset (map ev_entity_id (region_events es))) v = length (filter (\<lambda>x. ev_entity_id x = v) (region_events es))"
      by (induction es) auto
    also have "\<dots> \<le> length (entity_events es v)" by (induction es) auto
    also have "\<dots> = 1" using assms [OF e(1)] e(2) by (metis size_mset size_single)
    finally show ?thesis .
  next
    case False
    then have "count (mset (map ev_entity_id (region_events es))) v = 0"
      by (metis count_mset_0_iff list.set_map)
    then show ?thesis by simp
  qed
  then show ?thesis unfolding distinct_count_atmost_1 by (metis c count_mset_0_iff le_antisym less_one not_le)
qed

lemma faithful_core:
  assumes "faithful X t k" "mset es = mset (list_events (ke_store k))"
  obtains core where "core_state_from_events H J JR es = Ok core"
proof -
  let ?log = "list_events (ke_store k)"
  define val where "val e = (case region_state_from_event e of Ok rg \<Rightarrow> rg)" for e
  define rgs where "rgs = map val (region_events ?log)"
  have g: "region_state_from_event e = Ok (val e) \<and> rs_auth_ratio_bps (val e) = 1000 \<and>
      rs_region_id (val e) = ev_entity_id e" if "e \<in> set (region_events ?log)" for e
    using that faithful_genesis(1) [OF assms(1), of e]
    by (auto simp: val_def genesis_ok_def DEFAULT_REGION_AUTH_RATIO_BPS_def region_state_id)
  have 1: "map region_state_from_event (region_events ?log) = map Ok rgs"
    unfolding rgs_def map_map by (intro map_cong refl) (simp add: g)
  have "map rs_region_id rgs = map ev_entity_id (region_events ?log)"
    unfolding rgs_def map_map by (intro map_cong refl) (simp add: g)
  then have 2: "distinct (map rs_region_id rgs)"
    using founded_distinct [of ?log] faithful_genesis(2) [OF assms(1)] by auto
  have "map rs_auth_ratio_bps rgs = map (\<lambda>_. 1000) (region_events ?log)"
    unfolding rgs_def map_map by (intro map_cong refl) (simp add: g)
  then have "nat_sum (map rs_auth_ratio_bps rgs) = 1000 * length (region_events ?log)"
    by (simp add: nat_sum_def comp_def sum_list_triv)
  moreover have few: "length (region_events ?log) < 2 ^ 54" using assms(1) by (simp add: faithful_def)
  moreover have len: "length rgs = length (region_events ?log)" by (simp add: rgs_def)
  ultimately have "\<exists>core. core_events_loop H J JR (core_new H J JR) ?log = Ok core"
    by (intro core_events_loop_succeeds [OF core_holds_new 1]) (use 2 in \<open>simp_all add: len\<close>)
  then obtain core where "core_events_loop H J JR (core_new H J JR) ?log = Ok core" ..
  from core_events_loop_perm [OF this assms(2) [symmetric]] show thesis
    using that by (simp add: core_state_from_events_def)
qed

lemma chain_last: "chain es \<Longrightarrow> chain fs \<Longrightarrow> mset es = mset fs \<Longrightarrow> distinct (hashes es) \<Longrightarrow> es = fs"
proof -
  assume a: "chain es" "chain fs" "mset es = mset fs" "distinct (hashes es)"
  have "mset (hashes es) = mset (hashes fs)" using a(3) by simp
  then have d: "distinct (hashes fs)" using a(4) mset_eq_imp_distinct_iff by metis
  have "order_entity_events fs = Ok (rev es)"
    by (rule order_entity_events_perm [OF order_chain [OF a(1,4)] a(3)])
  then show ?thesis using order_chain [OF a(2) d] by simp
qed

lemma faithful_replays:
  assumes "faithful X t k"
  obtains r where "replay_canonical_history X k = Ok r"
    "\<And>v st. get_state (ke_store k) v = Some st \<Longrightarrow> narrow st \<and> bt_get (rr_final_state r) v = Some (event_state st)"
    "\<And>v. bt_get (rr_final_state r) v = None \<longleftrightarrow> (\<forall>e \<in> set (list_events (ke_store k)). ev_entity_id e \<noteq> v)"
    "mset (rr_applied_event_hashes r) = mset (hashes (list_events (ke_store k)))"
    "core_state_from_events (cr_hash X) (cr_map_json X) (cr_region_json X) (query_events k) = Ok (rr_core_state r)"
proof -
  let ?log = "load_events_for_replay (ke_store k)"
  note c = faithful_chained [OF assms]
  note m = faithful_log(1) [OF assms]
  obtain core where core: "core_state_from_events (cr_hash X) (cr_map_json X) (cr_region_json X) ?log = Ok core"
    by (rule faithful_core [OF assms m])
  obtain r where r: "replay_events (cr_hash X) (cr_map_json X) (cr_region_json X) ?log = Ok r"
    "\<And>v. \<exists>es. mset es = mset (entity_events ?log v) \<and> chain es \<and> bt_get (rr_final_state r) v = last_state None (rev es)"
    by (rule replay_chained [OF c core]) (rule that)
  have "bt_get (rr_final_state r) v = Some (event_state st) \<and> narrow st" if g: "get_state (ke_store k) v = Some st" for v st
  proof -
    obtain es where es: "mset es = mset (entity_events ?log v)" "chain es" "bt_get (rr_final_state r) v = last_state None (rev es)"
      using r(2) by blast
    obtain fs where fs: "mset fs = mset (entity_events (list_events (ke_store k)) v)" "chain fs"
      "last_state None (rev fs) = Some (event_state st)" "narrow st"
      using faithful_tracked [OF assms g] by (auto simp: tracked_def)
    have ef: "mset es = mset fs" using es(1) fs(1) by (simp add: m)
    have "mset (hashes es) = mset (hashes (entity_events ?log v))" using es(1) by simp
    moreover have "distinct (hashes (entity_events ?log v))" using c by (simp add: chained_def distinct_map_filter)
    ultimately have "distinct (hashes es)" using mset_eq_imp_distinct_iff by metis
    from chain_last [OF es(2) fs(2) ef this] es(3) fs(3,4) show ?thesis by simp
  qed
  moreover have "bt_get (rr_final_state r) v = None \<longleftrightarrow> (\<forall>e \<in> set (list_events (ke_store k)). ev_entity_id e \<noteq> v)" for v
  proof -
    obtain es where es: "mset es = mset (entity_events ?log v)" "bt_get (rr_final_state r) v = last_state None (rev es)"
      using r(2) by blast
    from es(1) have "set es = set (entity_events (list_events (ke_store k)) v)"
      using mset_eq_setD [of es "entity_events (list_events (ke_store k)) v"] by (simp add: m)
    then have "es = [] \<longleftrightarrow> (\<forall>e \<in> set (list_events (ke_store k)). ev_entity_id e \<noteq> v)"
      by (auto simp: set_empty [symmetric] simp del: set_empty)
    with es(2) show ?thesis by (simp add: last_state_def)
  qed
  moreover have "mset (rr_applied_event_hashes r) = mset (hashes (list_events (ke_store k)))"
    using replay_events_Ok(5) [OF r(1)] by (simp add: m)
  moreover have "core_state_from_events (cr_hash X) (cr_map_json X) (cr_region_json X) (query_events k) = Ok (rr_core_state r)"
    using core_events_loop_perm [of "cr_hash X" "cr_map_json X" "cr_region_json X" ?log "rr_core_state r" "query_events k"]
      replay_events_Ok(4) [OF r(1)] by (simp add: core_state_from_events_def query_events_def)
  ultimately show thesis using that [of r] r(1) by (simp add: replay_canonical_history_def)
qed

text \<open>The kernel lists the regions of its core, one for each genesis event.\<close>

lemma core_lists:
  assumes "core_state_from_events H J JR es = Ok core"
  shows "list_regions_from_events es = Ok (sort_key region_order (bt_values (core_regions core)))"
    and "rs_region_id ` set (bt_values (core_regions core)) = ev_entity_id ` set (region_events es)"
proof -
  obtain rss where rss: "map region_state_from_event (region_events es) = map Ok rss" "core_holds H J JR core rss"
    using core_state_from_events_Ok [OF assms] by blast
  then show "list_regions_from_events es = Ok (sort_key region_order (bt_values (core_regions core)))"
    by (simp add: list_regions_from_events_def collect_regions_map core_holds_def regions_of_def)
  have "map rs_region_id rss = map ev_entity_id (region_events es)" by (rule region_ids [OF rss(1)])
  then have "rs_region_id ` set rss = ev_entity_id ` set (region_events es)" by (metis list.set_map)
  then show "rs_region_id ` set (bt_values (core_regions core)) = ev_entity_id ` set (region_events es)"
    using rss(2) regions_of_value_set [of rss] by (simp add: core_holds_def)
qed

lemma core_finds:
  assumes "core_state_from_events H J JR (query_events k) = Ok core"
  shows "(\<exists>rg. query_region k v = Ok (Some rg)) \<longleftrightarrow>
    (\<exists>e \<in> set (list_events (ke_store k)). is_region_create_event e \<and> ev_entity_id e = v)"
proof -
  note l = core_lists [OF assms]
  have s: "set (query_events k) = set (list_events (ke_store k))"
    using mset_eq_setD [OF load_events_mset] by (simp add: query_events_def)
  have "(\<exists>rg. query_region k v = Ok (Some rg)) \<longleftrightarrow> v \<in> rs_region_id ` set (bt_values (core_regions core))"
  proof -
    have "find p xs \<noteq> None \<longleftrightarrow> (\<exists>x \<in> set xs. p x)" for p and xs :: "region_state list"
      by (induction xs) auto
    note this [of "\<lambda>rg. rs_region_id rg = v" "sort_key region_order (bt_values (core_regions core))"]
    then show ?thesis by (auto simp: query_region_def query_regions_def l(1))
  qed
  then show ?thesis unfolding l(2) using s by auto
qed

lemma ledger_unused:
  assumes "\<forall>(w, _, _) \<in># ledger k. w \<noteq> v"
  shows "\<forall>e \<in> set (list_events (ke_store k)). ev_entity_id e \<noteq> v"
  using assms by (auto simp: ledger_def)

section \<open>A sample run\<close>

lemma sample_timely:
  obtains k t where "timely_run sample_crates t k" "query_vector k ''v-a'' \<noteq> None"
proof -
  let ?X = sample_crates
  have names: "trim ''v-a'' \<noteq> []" "trim ''v-b'' \<noteq> []" "trim ''sp'' \<noteq> []" "trim ''pk'' \<noteq> []"
    by (simp_all add: sample_names)
  have ids: "canonical_event_id ''v-a'' ''sp'' Op_OriginCreate 1 1 = ''v-a::sp::ORIGIN_CREATE::1::1''"
    "canonical_event_id ''v-b'' ''sp'' Op_OriginCreate 1 1 = ''v-b::sp::ORIGIN_CREATE::1::1''"
    "canonical_event_id ''v-a'' ''sp'' Op_Transfer 1 2 = ''v-a::sp::TRANSFER::1::2''"
    "canonical_event_id ''v-b'' ''sp'' Op_Transfer 1 2 = ''v-b::sp::TRANSFER::1::2''"
    by (simp_all add: canonical_event_id_def small_numbers)
  obtain k0 rg i where 0: "create_region ?X (\<lambda>_. 1) region_request region_actor kernel_new = (k0, Ok rg)" "kernel_ok ?X k0"
    "get_state (ke_store k0) = get_state (ke_store kernel_new)"
    "ledger k0 = {# (''MK::'' @ i, ''MK::'' @ i, ''MK::'' @ i @ ''::'' @ ''MK::'' @ i @ ''::OTHER::0::1'') #}"
    "length i \<le> 40" "rs_region_id rg = ''MK::'' @ i" by (rule sample_region) (rule that; assumption)
  obtain k1 a where 1: "origin_create ?X (\<lambda>_. 5) ''v-a'' ''pk'' ''sp'' [1000, 2000] ''s'' 0 0 k0 = (k1, Ok a)"
    "steps_to ?X k0 ''v-a'' Op_OriginCreate a k1" "v1_components a = [1000, 2000]" "v1_version a = 1" "v1_space_id a = ''sp''"
    by (rule origin_flows [OF sample_crates_ready 0(2) _ sample_crates_hash(1,3) names(1,4,3), where cs = "[1000, 2000]" and clk = "\<lambda>_. 5" and seed = "''s''" and nonce = 0])
      (use 0(4,5) in \<open>simp_all add: place_def room_for_def short_ledger_def ids ok_len_def\<close>)
  have L1: "ledger k1 = add_mset (''v-a'', ''sp'', ''v-a::sp::ORIGIN_CREATE::1::1'') (ledger k0)" "kernel_ok ?X k1" "party k1 ''v-a'' a"
    using 1(2,4,5) by (simp_all add: steps_to_def place_def ids 0(4))
  obtain k2 b where 2: "origin_create ?X (\<lambda>_. 5) ''v-b'' ''pk'' ''sp'' [50, 75] ''s'' 0 0 k1 = (k2, Ok b)"
    "steps_to ?X k1 ''v-b'' Op_OriginCreate b k2" "v1_components b = [50, 75]" "v1_version b = 1" "v1_space_id b = ''sp''"
    by (rule origin_flows [OF sample_crates_ready L1(2) _ sample_crates_hash(1,3) names(2,4,3), where cs = "[50, 75]" and clk = "\<lambda>_. 5" and seed = "''s''" and nonce = 0])
      (use 0(4,5) in \<open>simp_all add: L1 place_def room_for_def short_ledger_def ids ok_len_def\<close>)
  have L2: "ledger k2 = add_mset (''v-b'', ''sp'', ''v-b::sp::ORIGIN_CREATE::1::1'') (ledger k1)"
    "kernel_ok ?X k2" "party k2 ''v-b'' b" "party k2 ''v-a'' a"
    using 2(2,4,5) party_elsewhere [OF 2(2) L1(3)] by (simp_all add: steps_to_def place_def ids L1 0(4))
  obtain k3 a' b' where 3: "transfer ?X (\<lambda>_. 9) ''v-a'' ''v-b'' [250, 250] k2 = (k3, Ok (a', b'))" "party k3 ''v-a'' a'"
    by (rule transfer_flows [OF sample_crates_ready L2(2) _ sample_crates_hash(1) L2(4,3), where amount = "[250, 250]" and n = 2 and n' = 2 and clk = "\<lambda>_. 9"])
      (use 0(4,5) in \<open>simp_all add: 1 2 L1(1) L2(1) place_def room_for_def short_ledger_def ids ok_len_def less_Suc_eq\<close>)
  have "list_events (ke_store kernel_new) = []" by (simp add: kernel_new_def store_default_def list_events_def)
  moreover have "length (list_events (ke_store k0)) = 1" using arg_cong [OF 0(4), of size] by (simp add: ledger_def)
  then have "length (region_events (list_events (ke_store k0))) < 2 ^ 54"
    using length_filter_le [of is_region_create_event "list_events (ke_store k0)"] by simp
  ultimately have "timely_run ?X 5 k0"
    by (intro timely_region [OF timely_new [of _ 5] _ _ 0(1)]) simp_all
  moreover have "\<forall>e \<in> set (list_events (ke_store k0)). ev_entity_id e \<noteq> ''v-a''"
    by (rule ledger_unused) (simp add: 0(4))
  ultimately have "timely_run ?X 5 k1" by (intro timely_origin [OF _ _ _ _ 1(1), of 5]) simp_all
  moreover have "\<forall>e \<in> set (list_events (ke_store k1)). ev_entity_id e \<noteq> ''v-b''"
    by (rule ledger_unused) (simp add: L1 0(4))
  ultimately have "timely_run ?X 5 k2" by (intro timely_origin [OF _ _ _ _ 2(1), of 5]) simp_all
  then have "timely_run ?X 9 k3" by (intro timely_transfer [OF _ _ _ _ _ _ 3(1), of 5]) simp_all
  then show thesis by (rule that) (use 3(2) in \<open>simp add: query_vector_def query_get_vector_def party_def\<close>)
qed

section \<open>Properties\<close>

text \<open>
  C1: The log is the truth: where every operation of a run returned, no identifier was given twice, no
  vector was sent to itself and the clock had moved on before every transfer, the history of the kernel
  replays, every event once; for every vector the state the replay ends with is the state in the store,
  in the form events hold it; the only other entities it knows are the regions the kernel finds; and the
  core it rebuilds holds the regions the kernel lists.
\<close>

theorem history_replays_to_store:
  assumes "timely_run X t k"
  shows "\<exists>r. replay_canonical_history X k = Ok r \<and>
    mset (rr_applied_event_hashes r) = mset (map ev_event_hash (list_events (ke_store k))) \<and>
    (\<forall>v. case query_vector k v of
        None \<Rightarrow> bt_get (rr_final_state r) v = None \<longleftrightarrow> query_region k v = Ok None
      | Some st \<Rightarrow> map_ok Some (vector_v1_to_event_state st) = Ok (bt_get (rr_final_state r) v)) \<and>
    query_regions k = Ok (sort_key region_order (bt_values (core_regions (rr_core_state r))))"
proof -
  have f: "faithful X t k" by (rule timely_run_faithful [OF assms])
  obtain r where r: "replay_canonical_history X k = Ok r"
    "\<And>v st. get_state (ke_store k) v = Some st \<Longrightarrow> narrow st \<and> bt_get (rr_final_state r) v = Some (event_state st)"
    "\<And>v. bt_get (rr_final_state r) v = None \<longleftrightarrow> (\<forall>e \<in> set (list_events (ke_store k)). ev_entity_id e \<noteq> v)"
    "mset (rr_applied_event_hashes r) = mset (hashes (list_events (ke_store k)))"
    "core_state_from_events (cr_hash X) (cr_map_json X) (cr_region_json X) (query_events k) = Ok (rr_core_state r)"
    by (rule faithful_replays [OF f]) (rule that; assumption)
  note l = core_lists(1) [OF r(5)] core_finds [OF r(5)]
  have region: "is_region_create_event e"
    if "get_state (ke_store k) v = None" "e \<in> set (list_events (ke_store k))" "ev_entity_id e = v" for e v
    using f that by (rule faithful_entity_region)
  have "query_region k v = Ok None \<longleftrightarrow> \<not> (\<exists>rg. query_region k v = Ok (Some rg))" for v
    by (auto simp: query_region_def query_regions_def l(1) split: option.split)
  then have "bt_get (rr_final_state r) v = None \<longleftrightarrow> query_region k v = Ok None" if "get_state (ke_store k) v = None" for v
    using region [OF that] r(3) [of v] l(2) [of v] by blast
  then show ?thesis
    using r(1,2,4) l(1)
    by (intro exI [of _ r])
      (auto simp: query_vector_def query_get_vector_def vector_v1_to_event_state_iff query_regions_def split: option.split)
qed

theorem history_replays_to_store_witness:
  "\<exists>k r st. query_vector k ''v-a'' = Some st \<and> replay_canonical_history sample_crates k = Ok r \<and>
     map_ok Some (vector_v1_to_event_state st) = Ok (bt_get (rr_final_state r) ''v-a'') \<and>
     query_regions k = Ok (sort_key region_order (bt_values (core_regions (rr_core_state r))))"
proof -
  obtain k t where k: "timely_run sample_crates t k" "query_vector k ''v-a'' \<noteq> None" by (rule sample_timely)
  then obtain st where st: "query_vector k ''v-a'' = Some st" by blast
  from history_replays_to_store [OF k(1)] obtain r where r: "replay_canonical_history sample_crates k = Ok r"
    "\<forall>v. case query_vector k v of
        None \<Rightarrow> bt_get (rr_final_state r) v = None \<longleftrightarrow> query_region k v = Ok None
      | Some st \<Rightarrow> map_ok Some (vector_v1_to_event_state st) = Ok (bt_get (rr_final_state r) v)"
    "query_regions k = Ok (sort_key region_order (bt_values (core_regions (rr_core_state r))))" by blast
  from r(2) [rule_format, of "''v-a''"] st r(1,3) show ?thesis by (intro exI [of _ k] exI [of _ r] exI [of _ st]) simp
qed

text \<open>
  An operation builds its event on the event of the vector with the greatest clock, time and hash,
  which need not be the last one logged: within one millisecond, where a transfer raises no version, the
  hash decides, and the next event may name an older one as its parent.
\<close>

theorem latest_parent_is_greatest:
  assumes "e \<in> set (list_events (ke_store k))"
    and "\<forall>f \<in> set (list_events (ke_store k)).
      ev_entity_id f = ev_entity_id e \<longrightarrow> canonical_event_sort_key f \<le> canonical_event_sort_key e"
  shows "latest_parent_hash_for_entity k (ev_entity_id e) = [ev_event_hash e]"
proof -
  let ?ys = "entity_events (sort_key canonical_event_sort_key (load_events_for_replay (ke_store k))) (ev_entity_id e)"
  have s: "set ?ys = set (entity_events (list_events (ke_store k)) (ev_entity_id e))"
    using mset_eq_setD [OF load_events_mset] by simp
  then have e: "e \<in> set ?ys" using assms(1) by simp
  then have ne: "?ys \<noteq> []" by (metis empty_iff empty_set)
  have srt: "sorted (map canonical_event_sort_key ?ys)" by (simp add: sorted_filter)
  have "canonical_event_sort_key e \<le> canonical_event_sort_key (last ?ys)" by (rule sorted_last [OF srt e])
  moreover have "last ?ys \<in> set (entity_events (list_events (ke_store k)) (ev_entity_id e))"
    using last_in_set [OF ne] unfolding s .
  then have "canonical_event_sort_key (last ?ys) \<le> canonical_event_sort_key e"
    using assms(2) unfolding set_filter by blast
  ultimately have "canonical_event_sort_key e = canonical_event_sort_key (last ?ys)" by (rule order_antisym)
  then have "ev_event_hash (last ?ys) = ev_event_hash e" by (simp add: canonical_event_sort_key_def)
  then show ?thesis using ne by (simp add: latest_parent_hash_for_entity_def Let_def find_rev_last)
qed

theorem latest_parent_is_greatest_witness:
  "\<exists>s1 s2. append_event (sample_event\<lparr> ev_event_hash := ''h2'' \<rparr>) store_default = Ok s1 \<and>
     append_event (sample_event\<lparr> ev_event_hash := ''h1'', ev_event_id := ''later'', ev_operation := Op_Transfer \<rparr>) s1 = Ok s2 \<and>
     latest_parent_hash_for_entity (with_store s2) ''v-a'' = [''h2'']"
proof -
  let ?f = "sample_event\<lparr> ev_event_hash := ''h2'' \<rparr>"
  let ?e = "sample_event\<lparr> ev_event_hash := ''h1'', ev_event_id := ''later'', ev_operation := Op_Transfer \<rparr>"
  have n: "ev_event_id sample_event \<noteq> []" "ev_event_id sample_event \<noteq> ''later''" "ev_entity_id sample_event = ''v-a''"
    by (simp_all add: sample_event_def ev_new_def)
  have "list_events store_default = []" by (simp add: store_default_def list_events_def)
  then obtain s1 where s1: "append_event ?f store_default = Ok s1"
    using log.append_iff [OF store_ok_default, of ?f] n by auto
  have ok1: "store_ok s1" and m1: "mset (list_events s1) = {# ?f #}"
    using store_ok_append [OF store_ok_default s1] by (simp_all add: store_default_def list_events_def)
  then have "list_events s1 = [?f]" by simp
  then obtain s2 where s2: "append_event ?e s1 = Ok s2"
    using log.append_iff [OF ok1, of ?e] n by auto
  have m2: "mset (list_events s2) = mset [?e, ?f]"
    using store_ok_append [OF ok1 s2] m1 by simp
  have l: "set (list_events s2) = {?e, ?f}" using mset_eq_setD [OF m2] by simp
  have "''h1'' < ''h2''" by code_simp
  then have "canonical_event_sort_key ?e \<le> canonical_event_sort_key ?f" by (simp add: canonical_event_sort_key_def)
  then show ?thesis
    using latest_parent_is_greatest [of ?f "with_store s2"] s1 s2 n(3) by (simp add: with_store_def l)
qed

end
