(* ===== verification/Wallet.thy ===== *)
theory Wallet
  imports Signature BTree
begin

text \<open>
  \<^verbatim>\<open>src/src/wallet.rs\<close>: a wallet holds a key pair of the crate \<open>ed25519_dalek\<close>, the argument \<open>E\<close>. The
  signing key is drawn from the operating system: it is the argument \<open>signing_key\<close> of \<open>generate\<close>. The
  crate \<open>hex\<close> is the arguments \<open>hexe\<close> and \<open>hexd\<close>.
\<close>

section \<open>Wallets\<close>

record wallet_identity =
  wi_public_key_hex :: string
  wi_metadata :: "(string, string) btree"

record wallet_context =
  wc_signing_key :: bytes
  wc_public_key_hex :: string
  wc_metadata :: "(string, string) btree"

definition generate :: "(bytes \<Rightarrow> string) \<Rightarrow> ed25519 \<Rightarrow> bytes \<Rightarrow> wallet_context" where
  "generate hexe E signing_key =
     (let public_key_hex = hexe (ed_public E signing_key)
      in \<lparr> wc_signing_key = signing_key, wc_public_key_hex = public_key_hex, wc_metadata = [] \<rparr>)"

definition public_key_hex :: "wallet_context \<Rightarrow> string" where
  "public_key_hex w = wc_public_key_hex w"

definition identity :: "wallet_context \<Rightarrow> wallet_identity" where
  "identity w = \<lparr> wi_public_key_hex = public_key_hex w, wi_metadata = wc_metadata w \<rparr>"

definition wallet_sign :: "(bytes \<Rightarrow> string) \<Rightarrow> ed25519 \<Rightarrow> wallet_context \<Rightarrow> bytes \<Rightarrow> string" where
  "wallet_sign hexe E w message =
     (let signature = ed_sign E (wc_signing_key w) message in hexe signature)"

text \<open>
  What a wallet signs verifies under the key of its identity, in \<open>verify_signature\<close> of the wallet and,
  where the crate \<open>hex\<close> writes lower case as \<^verbatim>\<open>signature.rs\<close> does, in the checks of the events too.
\<close>

theorem wallet_signature_verifies:
  assumes "ed25519_signs E sk" "\<forall>b. hexd (hexe b) = Some b" "\<forall>b. hexe b = hex_encode b"
    and "w = generate hexe E sk"
  shows "verify_signature hexd E (wi_public_key_hex (identity w)) message (wallet_sign hexe E w message) = Ok () \<and>
    (\<exists>vk. verifying_key_from_hex E (wi_public_key_hex (identity w)) = Inr vk \<and>
       verify_event_signature E vk message (wallet_sign hexe E w message) = Inr True)"
proof -
  have pk: "wi_public_key_hex (identity w) = hexe (ed_public E sk)" "wallet_sign hexe E w message = hexe (ed_sign E sk message)"
    using assms(4) by (simp_all add: identity_def public_key_hex_def generate_def wallet_sign_def)
  have e: "length (ed_public E sk) = 32" "ed_key_error E (ed_public E sk) = None"
    "ed_signature_error E (ed_sign E sk message) = None" "ed_verify E (ed_public E sk) message (ed_sign E sk message)"
    using assms(1) by (simp_all add: ed25519_signs_def)
  have "verify_signature hexd E (hexe (ed_public E sk)) message (hexe (ed_sign E sk message)) = Ok ()"
    using assms(2) e by (simp add: verify_signature_def wallet_verifying_key_from_hex_def guard_def)
  moreover have "verifying_key_from_hex E (hexe (ed_public E sk)) = Inr (ed_public E sk)"
    "verify_event_signature E (ed_public E sk) message (hexe (ed_sign E sk message)) = Inr True"
    using assms(3) e by (simp_all add: verifying_key_from_hex_def verify_event_signature_def)
  ultimately show ?thesis by (simp add: pk)
qed

theorem wallet_signature_verifies_witness:
  "verify_signature (\<lambda>s. case hex_decode s of Inr b \<Rightarrow> Some b | Inl _ \<Rightarrow> None) sample_ed25519
     (wi_public_key_hex (identity (generate hex_encode sample_ed25519 (replicate 32 171)))) [1]
     (wallet_sign hex_encode sample_ed25519 (generate hex_encode sample_ed25519 (replicate 32 171)) [1]) = Ok ()"
proof -
  have "ed25519_signs sample_ed25519 (replicate 32 171)" by (simp add: ed25519_signs_def sample_ed25519_def)
  from wallet_signature_verifies [OF this _ _ refl, of "\<lambda>s. case hex_decode s of Inr b \<Rightarrow> Some b | Inl _ \<Rightarrow> None" hex_encode "[1]"]
  show ?thesis by simp
qed

end
