(* ===== verification/Sdk.thy ===== *)
theory Sdk
  imports Engine_Replay Wallet
begin

text \<open>
  \<^verbatim>\<open>src/src/sdk.rs\<close>: the kernel behind a type of its own. The locale \<open>front_end\<close> is the contract of a
  type that holds an engine and passes calls on to it; the developer's harness and the Python class
  keep it too. The calls that clients make are a type of their own, with what the kernel does on each:
  the locale \<open>simulation\<close> carries the agreement of one call over to sequences of calls.
\<close>

section \<open>Types that hold an engine\<close>

definition on_engine ::
  "('c \<Rightarrow> kernel_engine) \<Rightarrow> (kernel_engine \<Rightarrow> 'c \<Rightarrow> 'c) \<Rightarrow> 'a kernel_action \<Rightarrow> ('c, 'a) action" where
  "on_engine get put m c = (let (k, r) = m (get c) in (put k c, r))"

locale front_end =
  fixes get :: "'c \<Rightarrow> kernel_engine" and put :: "kernel_engine \<Rightarrow> 'c \<Rightarrow> 'c"
  assumes get_put: "get (put k c) = k"
    and put_get: "put (get c) c = c"
    and put_put: "put k (put k' c) = put k c"
begin

text \<open>A call does to the engine what the operation does, and returns what it returns.\<close>

lemma run_parts:
  "get (fst (on_engine get put m c)) = fst (m (get c))"
  "snd (on_engine get put m c) = snd (m (get c))"
  by (simp_all add: on_engine_def get_put split_beta)

lemma run_bind: "on_engine get put (act_bind m f) = act_bind (on_engine get put m) (\<lambda>x. on_engine get put (f x))"
  by (rule ext) (auto simp: on_engine_def act_bind_def get_put put_put split: prod.split result.split)

lemma run_read: "on_engine get put (act_get f) = act_get (\<lambda>c. f (get c))"
  by (rule ext) (simp add: on_engine_def act_defs put_get)

end

section \<open>VectorKernel\<close>

record vector_kernel =
  vk_engine :: kernel_engine

definition vector_kernel_new :: vector_kernel where
  "vector_kernel_new = \<lparr> vk_engine = kernel_new \<rparr>"

abbreviation on_kernel :: "'a kernel_action \<Rightarrow> (vector_kernel, 'a) action" where
  "on_kernel \<equiv> on_engine vk_engine (\<lambda>k c. c\<lparr> vk_engine := k \<rparr>)"

definition sdk_wallet :: "(bytes \<Rightarrow> string) \<Rightarrow> ed25519 \<Rightarrow> bytes \<Rightarrow> vector_kernel \<Rightarrow> wallet_context" where
  "sdk_wallet hexe E signing_key c = generate hexe E signing_key"

definition sdk_origin_create ::
  "crates \<Rightarrow> (nat \<Rightarrow> u64) \<Rightarrow> string \<Rightarrow> string \<Rightarrow> string \<Rightarrow> u128 list \<Rightarrow> string \<Rightarrow> u64 \<Rightarrow> u32 \<Rightarrow>
     (vector_kernel, vector_state_v1) action" where
  "sdk_origin_create X clk vector_id owner_pubkey space_id components seed nonce difficulty =
     on_kernel (origin_create X clk vector_id owner_pubkey space_id components seed nonce difficulty)"

definition sdk_transfer ::
  "crates \<Rightarrow> (nat \<Rightarrow> u64) \<Rightarrow> string \<Rightarrow> string \<Rightarrow> u128 list \<Rightarrow>
     (vector_kernel, vector_state_v1 \<times> vector_state_v1) action" where
  "sdk_transfer X clk from_id to_id amount = on_kernel (transfer X clk from_id to_id amount)"

definition sdk_drain :: "crates \<Rightarrow> (nat \<Rightarrow> u64) \<Rightarrow> string \<Rightarrow> u16 \<Rightarrow> (vector_kernel, vector_state_v1) action" where
  "sdk_drain X clk vector_id basis_points = on_kernel (drain X clk vector_id basis_points)"

definition sdk_project ::
  "crates \<Rightarrow> (nat \<Rightarrow> u64) \<Rightarrow> string \<Rightarrow> u128 list \<Rightarrow> string \<Rightarrow> (vector_kernel, vector_state_v1) action" where
  "sdk_project X clk vector_id projected_components escrow_id =
     on_kernel (project X clk vector_id projected_components escrow_id)"

definition sdk_reconstruct ::
  "crates \<Rightarrow> (nat \<Rightarrow> u64) \<Rightarrow> string \<Rightarrow> settlement_outcome \<Rightarrow> (vector_kernel, vector_state_v1) action" where
  "sdk_reconstruct X clk vector_id out = on_kernel (reconstruct X clk vector_id out)"

definition sdk_certify :: "crates \<Rightarrow> (nat \<Rightarrow> u64) \<Rightarrow> string \<Rightarrow> (vector_kernel, vector_state_v1) action" where
  "sdk_certify X clk vector_id = on_kernel (certify X clk vector_id)"

definition sdk_query :: "vector_kernel \<Rightarrow> string \<Rightarrow> vector_state_v1 option outcome" where
  "sdk_query c vector_id = Ok (query_vector (vk_engine c) vector_id)"

definition sdk_query_vectors :: "vector_kernel \<Rightarrow> vector_state_v1 list outcome" where
  "sdk_query_vectors c = Ok (query_vectors (vk_engine c))"

definition sdk_query_records :: "vector_kernel \<Rightarrow> vector_record_v1 list outcome" where
  "sdk_query_records c = Ok (query_records (vk_engine c))"

definition sdk_replay_canonical_history :: "crates \<Rightarrow> vector_kernel \<Rightarrow> replay_result outcome" where
  "sdk_replay_canonical_history X c = replay_canonical_history X (vk_engine c)"

definition sdk_current_state_root :: "crates \<Rightarrow> vector_kernel \<Rightarrow> state_root outcome" where
  "sdk_current_state_root X c = Ok (current_state_root X (vk_engine c))"

interpretation sdk: front_end vk_engine "\<lambda>k c. c\<lparr> vk_engine := k \<rparr>"
  by unfold_locales simp_all

section \<open>Calls\<close>

text \<open>What a client can ask of a kernel, with the arguments, and what it answers.\<close>

datatype engine_call =
    Call_Origin string string string "u128 list" string u64 u32
  | Call_Certify string
  | Call_Transfer string string "u128 list"
  | Call_Drain string u16
  | Call_Project string "u128 list" string
  | Call_Reconstruct string string "u128 list" "u128 list"
  | Call_Vector string
  | Call_Vectors
  | Call_Records
  | Call_Replay
  | Call_Root
  | Call_Event string
  | Call_Region string
  | Call_Region_By_Name string "string option"
  | Call_Regions
  | Call_Resolve string "string option"
  | Call_Exists string "string option"
  | Call_Authorize string "string option"
  | Call_Metrics

datatype engine_answer =
    Ans_State vector_state_v1
  | Ans_Pair "vector_state_v1 \<times> vector_state_v1"
  | Ans_Vector "vector_state_v1 option"
  | Ans_Vectors "vector_state_v1 list"
  | Ans_Records "vector_record_v1 list"
  | Ans_Replay replay_result
  | Ans_Root state_root
  | Ans_Event "vector_event option"
  | Ans_Region "region_state option"
  | Ans_Regions "region_state list"
  | Ans_Text "string option"
  | Ans_Bool bool
  | Ans_Json json

type_synonym timed_call = "(nat \<Rightarrow> u64) \<times> engine_call"

definition answer :: "('a \<Rightarrow> engine_answer) \<Rightarrow> ('s, 'a) action \<Rightarrow> ('s, engine_answer) action" where
  "answer f m s = (let (s', r) = m s in (s', map_ok f r))"

fun kernel_call :: "crates \<Rightarrow> (nat \<Rightarrow> u64) \<Rightarrow> engine_call \<Rightarrow> engine_answer kernel_action" where
  "kernel_call X clk (Call_Origin v ow sp cs seed nonce difficulty) =
     answer Ans_State (origin_create X clk v ow sp cs seed nonce difficulty)"
| "kernel_call X clk (Call_Certify v) = answer Ans_State (certify X clk v)"
| "kernel_call X clk (Call_Transfer from_id to_id amount) = answer Ans_Pair (transfer X clk from_id to_id amount)"
| "kernel_call X clk (Call_Drain v bps) = answer Ans_State (drain X clk v bps)"
| "kernel_call X clk (Call_Project v part escrow) = answer Ans_State (project X clk v part escrow)"
| "kernel_call X clk (Call_Reconstruct v tag gains losses) =
     answer Ans_State (reconstruct X clk v \<lparr> so_outcome_tag = tag, so_gains = gains, so_losses = losses \<rparr>)"
| "kernel_call X clk (Call_Vector v) = answer Ans_Vector (act_get (\<lambda>k. Ok (query_vector k v)))"
| "kernel_call X clk Call_Vectors = answer Ans_Vectors (act_get (\<lambda>k. Ok (query_vectors k)))"
| "kernel_call X clk Call_Records = answer Ans_Records (act_get (\<lambda>k. Ok (query_records k)))"
| "kernel_call X clk Call_Replay = answer Ans_Replay (act_get (replay_canonical_history X))"
| "kernel_call X clk Call_Root = answer Ans_Root (act_get (\<lambda>k. Ok (current_state_root X k)))"
| "kernel_call X clk (Call_Event h) = answer Ans_Event (act_get (\<lambda>k. Ok (query_event_by_hash k h)))"
| "kernel_call X clk (Call_Region i) = answer Ans_Region (act_get (\<lambda>k. query_region k i))"
| "kernel_call X clk (Call_Region_By_Name name prefix) =
     answer Ans_Region (act_get (\<lambda>k. query_region_by_name k name prefix))"
| "kernel_call X clk Call_Regions = answer Ans_Regions (act_get query_regions)"
| "kernel_call X clk (Call_Resolve name prefix) = answer Ans_Text (act_get (\<lambda>k. resolve_region_id k name prefix))"
| "kernel_call X clk (Call_Exists name prefix) = answer Ans_Bool (act_get (\<lambda>k. region_exists k name prefix))"
| "kernel_call X clk (Call_Authorize i key) = answer Ans_Bool (act_get (\<lambda>k. authorize_region X k i key))"
| "kernel_call X clk Call_Metrics = answer Ans_Json (act_get (metrics X))"

text \<open>The same calls made through the SDK, which has the first eleven of them.\<close>

fun sdk_has :: "engine_call \<Rightarrow> bool" where
  "sdk_has (Call_Event _) = False"
| "sdk_has (Call_Region _) = False"
| "sdk_has (Call_Region_By_Name _ _) = False"
| "sdk_has Call_Regions = False"
| "sdk_has (Call_Resolve _ _) = False"
| "sdk_has (Call_Exists _ _) = False"
| "sdk_has (Call_Authorize _ _) = False"
| "sdk_has Call_Metrics = False"
| "sdk_has _ = True"

fun sdk_call :: "crates \<Rightarrow> (nat \<Rightarrow> u64) \<Rightarrow> engine_call \<Rightarrow> (vector_kernel, engine_answer) action" where
  "sdk_call X clk (Call_Origin v ow sp cs seed nonce difficulty) =
     answer Ans_State (sdk_origin_create X clk v ow sp cs seed nonce difficulty)"
| "sdk_call X clk (Call_Certify v) = answer Ans_State (sdk_certify X clk v)"
| "sdk_call X clk (Call_Transfer from_id to_id amount) = answer Ans_Pair (sdk_transfer X clk from_id to_id amount)"
| "sdk_call X clk (Call_Drain v bps) = answer Ans_State (sdk_drain X clk v bps)"
| "sdk_call X clk (Call_Project v part escrow) = answer Ans_State (sdk_project X clk v part escrow)"
| "sdk_call X clk (Call_Reconstruct v tag gains losses) =
     answer Ans_State (sdk_reconstruct X clk v \<lparr> so_outcome_tag = tag, so_gains = gains, so_losses = losses \<rparr>)"
| "sdk_call X clk (Call_Vector v) = answer Ans_Vector (act_get (\<lambda>c. sdk_query c v))"
| "sdk_call X clk Call_Vectors = answer Ans_Vectors (act_get sdk_query_vectors)"
| "sdk_call X clk Call_Records = answer Ans_Records (act_get sdk_query_records)"
| "sdk_call X clk Call_Replay = answer Ans_Replay (act_get (sdk_replay_canonical_history X))"
| "sdk_call X clk Call_Root = answer Ans_Root (act_get (sdk_current_state_root X))"
| "sdk_call X clk _ = act_try (Err (InvalidState ''not a method of the SDK''))"

section \<open>Sequences of calls\<close>

text \<open>Calls in a row, whatever each returns, and the results in order.\<close>

fun perform :: "('c \<Rightarrow> 's \<Rightarrow> 's \<times> 'r) \<Rightarrow> 'c list \<Rightarrow> 's \<Rightarrow> 's \<times> 'r list" where
  "perform f [] s = (s, [])"
| "perform f (c # cs) s =
     (let (s', r) = f c s; (s'', rs) = perform f cs s' in (s'', r # rs))"

text \<open>
  A system that simulates another: on the calls that it has, it does to what it represents what the other
  does, and its result is the other's, as \<open>out\<close> presents it.
\<close>

locale simulation =
  fixes abs :: "'t \<Rightarrow> 's" and conc :: "'c \<Rightarrow> 't \<Rightarrow> 't \<times> 'q" and spec :: "'c \<Rightarrow> 's \<Rightarrow> 's \<times> 'r"
    and out :: "'r \<Rightarrow> 'q" and has :: "'c \<Rightarrow> bool"
  assumes sim_state: "has c \<Longrightarrow> abs (fst (conc c t)) = fst (spec c (abs t))"
    and sim_result: "has c \<Longrightarrow> snd (conc c t) = out (snd (spec c (abs t)))"
begin

lemma sim_perform:
  "list_all has cs \<Longrightarrow>
     abs (fst (perform conc cs t)) = fst (perform spec cs (abs t)) \<and>
     snd (perform conc cs t) = map out (snd (perform spec cs (abs t)))"
proof (induction cs arbitrary: t)
  case (Cons c cs)
  then show ?case using sim_state [of c t] sim_result [of c t] by (simp add: split_beta Let_def)
qed simp

end

lemma answer_parts [simp]: "fst (answer f m s) = fst (m s)" "snd (answer f m s) = map_ok f (snd (m s))"
  by (simp_all add: answer_def split_beta)

lemma answer_within: "within R m \<Longrightarrow> within R (answer f m)"
  by (simp add: within_def)

lemma get_parts [simp]: "fst (act_get f s) = s" "snd (act_get f s) = f s"
  by (simp_all add: act_get_def)

interpretation sdk_calls: simulation vk_engine "\<lambda>(clk, c). sdk_call X clk c" "\<lambda>(clk, c). kernel_call X clk c" "\<lambda>r. r"
  "\<lambda>(clk, c). sdk_has c" for X
proof
  fix c :: timed_call and t assume "case c of (clk, c) \<Rightarrow> sdk_has c"
  then obtain clk d where c: "c = (clk, d)" "sdk_has d" by (cases c) simp
  show "vk_engine (fst ((case c of (clk, c) \<Rightarrow> sdk_call X clk c) t)) = fst ((case c of (clk, c) \<Rightarrow> kernel_call X clk c) (vk_engine t))"
    "snd ((case c of (clk, c) \<Rightarrow> sdk_call X clk c) t) = snd ((case c of (clk, c) \<Rightarrow> kernel_call X clk c) (vk_engine t))"
    using c(2) unfolding c(1)
    by (cases d; simp add: sdk.run_parts sdk_origin_create_def sdk_certify_def sdk_transfer_def sdk_drain_def sdk_project_def
        sdk_reconstruct_def sdk_query_def sdk_query_vectors_def sdk_query_records_def
        sdk_replay_canonical_history_def sdk_current_state_root_def)+
qed

end
