(* ===== verification/Developer.thy ===== *)
theory Developer
  imports Sdk
begin

text \<open>
  \<^verbatim>\<open>src/src/developer.rs\<close>: the simulation harness and its run through all the operations. The key pairs
  of the two wallets are random: their public keys are the arguments \<open>wallet_a\<close> and \<open>wallet_b\<close>. The
  operation number \<open>n\<close> of the run reads the clock \<open>clk n\<close>.
\<close>

section \<open>The harness\<close>

record simulation_report =
  sm_vectors :: "vector_state_v1 list"
  sm_records :: nat

record simulation_harness =
  sh_engine :: kernel_engine

definition harness_new :: simulation_harness where
  "harness_new = \<lparr> sh_engine = kernel_new \<rparr>"

abbreviation on_harness :: "'a kernel_action \<Rightarrow> (simulation_harness, 'a) action" where
  "on_harness \<equiv> on_engine sh_engine (\<lambda>k c. c\<lparr> sh_engine := k \<rparr>)"

interpretation harness: front_end sh_engine "\<lambda>k c. c\<lparr> sh_engine := k \<rparr>"
  by unfold_locales simp_all

definition harness_wallet :: "(bytes \<Rightarrow> string) \<Rightarrow> ed25519 \<Rightarrow> bytes \<Rightarrow> simulation_harness \<Rightarrow> wallet_context" where
  "harness_wallet hexe E signing_key c = generate hexe E signing_key"

definition basic_flow ::
  "crates \<Rightarrow> (nat \<Rightarrow> nat \<Rightarrow> u64) \<Rightarrow> string \<Rightarrow> string \<Rightarrow> (simulation_harness, simulation_report) action" where
  "basic_flow X clk wallet_a wallet_b =
     (let seed_a = ''seed-a'';
          seed_b = ''seed-b''
      in act_bind (act_try (ok_or OriginRejected (find_valid_nonce (cr_hash X) seed_a 1 1000000))) (\<lambda>nonce_a.
         act_bind (act_try (ok_or OriginRejected (find_valid_nonce (cr_hash X) seed_b 1 1000000))) (\<lambda>nonce_b.
         act_bind (on_harness (origin_create X (clk 0) ''v-a'' wallet_a ''space-1'' [1000, 2000] seed_a nonce_a 1)) (\<lambda>_.
         act_bind (on_harness (origin_create X (clk 1) ''v-b'' wallet_b ''space-1'' [50, 75] seed_b nonce_b 1)) (\<lambda>_.
         act_bind (on_harness (transfer X (clk 2) ''v-a'' ''v-b'' [250, 250])) (\<lambda>_.
         act_bind (on_harness (drain X (clk 3) ''v-a'' 100)) (\<lambda>_.
         act_bind (on_harness (project X (clk 4) ''v-b'' [10, 10] ''escrow-1'')) (\<lambda>_.
         act_bind (on_harness (reconstruct X (clk 5) ''v-b''
           \<lparr> so_outcome_tag = ''settled'', so_gains = [2, 1], so_losses = [0, 0] \<rparr>)) (\<lambda>_.
         act_bind (act_get (\<lambda>c. Ok (query_vectors (sh_engine c)))) (\<lambda>vectors.
         act_bind (act_get (\<lambda>c. Ok (length (query_records (sh_engine c))))) (\<lambda>records.
         act_return \<lparr> sm_vectors = vectors, sm_records = records \<rparr>)))))))))))"

section \<open>The flow on the kernel\<close>

lemma flow_numbers:
  "show_word (1 :: u64) = ''1''" "show_word (2 :: u64) = ''2''" "show_word (3 :: u64) = ''3''" "show_word (4 :: u64) = ''4''"
  by code_simp+

lemma flow_ids:
  "canonical_event_id v sp op' 1 1 = v @ ''::'' @ sp @ ''::'' @ canonical_name op' @ ''::1::1''"
  "canonical_event_id v sp op' 1 2 = v @ ''::'' @ sp @ ''::'' @ canonical_name op' @ ''::1::2''"
  "canonical_event_id v sp op' 2 3 = v @ ''::'' @ sp @ ''::'' @ canonical_name op' @ ''::2::3''"
  "canonical_event_id v sp op' 3 4 = v @ ''::'' @ sp @ ''::'' @ canonical_name op' @ ''::3::4''"
  by (simp_all add: canonical_event_id_def flow_numbers)

lemma flow_names: "trim ''v-a'' \<noteq> []" "trim ''v-b'' \<noteq> []" "trim ''space-1'' \<noteq> []"
  using trim_all_solid [of "''v-a''"] trim_all_solid [of "''v-b''"] trim_all_solid [of "''space-1''"]
  by (simp_all add: solid_def)

lemmas flow_simps = place_def room_for_def short_ledger_def flow_ids ok_len_def

text \<open>Two vectors make the list of the store.\<close>

lemma two_vectors:
  assumes "store_ok s" "get_state s = [''v-a'' \<mapsto> a, ''v-b'' \<mapsto> b]"
  shows "list_states s = [a, b]"
proof -
  have "''v-a'' < ''v-b''" by code_simp
  then have "bt_ordered [(''v-a'', a), (''v-b'', b)]" by (simp add: bt_ordered_def)
  moreover have "bt_get (ms_states s) = bt_get [(''v-a'', a), (''v-b'', b)]"
    using assms(2) by (auto simp: get_state_def fun_eq_iff)
  ultimately have "ms_states s = [(''v-a'', a), (''v-b'', b)]"
    using assms(1) by (intro bt_ordered_ext) (simp_all add: store_ok_def keyed_def)
  then show ?thesis by (simp add: list_states_def)
qed


text \<open>The calls of the run, once the nonces are found.\<close>

definition flow_calls ::
  "crates \<Rightarrow> (nat \<Rightarrow> nat \<Rightarrow> u64) \<Rightarrow> string \<Rightarrow> string \<Rightarrow> u64 \<Rightarrow> u64 \<Rightarrow> (simulation_harness, simulation_report) action" where
  "flow_calls X clk wa wb na nb =
     act_bind (on_harness (origin_create X (clk 0) ''v-a'' wa ''space-1'' [1000, 2000] ''seed-a'' na 1)) (\<lambda>_.
     act_bind (on_harness (origin_create X (clk 1) ''v-b'' wb ''space-1'' [50, 75] ''seed-b'' nb 1)) (\<lambda>_.
     act_bind (on_harness (transfer X (clk 2) ''v-a'' ''v-b'' [250, 250])) (\<lambda>_.
     act_bind (on_harness (drain X (clk 3) ''v-a'' 100)) (\<lambda>_.
     act_bind (on_harness (project X (clk 4) ''v-b'' [10, 10] ''escrow-1'')) (\<lambda>_.
     act_bind (on_harness (reconstruct X (clk 5) ''v-b''
       \<lparr> so_outcome_tag = ''settled'', so_gains = [2, 1], so_losses = [0, 0] \<rparr>)) (\<lambda>_.
     act_bind (act_get (\<lambda>c. Ok (query_vectors (sh_engine c)))) (\<lambda>vectors.
     act_bind (act_get (\<lambda>c. Ok (length (query_records (sh_engine c))))) (\<lambda>records.
     act_return \<lparr> sm_vectors = vectors, sm_records = records \<rparr>))))))))"

lemma basic_flow_calls:
  assumes "find_valid_nonce (cr_hash X) ''seed-a'' 1 1000000 = Some na"
    and "find_valid_nonce (cr_hash X) ''seed-b'' 1 1000000 = Some nb"
  shows "basic_flow X clk wa wb h = flow_calls X clk wa wb na nb h"
  unfolding basic_flow_def flow_calls_def by (simp add: assms)

text \<open>No call of it is refused for a collision of the hash, where the whole is not.\<close>

lemma harness_step:
  assumes "\<not> hash_collision X (sh_engine (fst (act_bind (on_harness m) f \<lparr> sh_engine = k \<rparr>)))
    (snd (act_bind (on_harness m) f \<lparr> sh_engine = k \<rparr>))"
  shows "no_refusal X (m k)"
    and "m k = (k', Ok x) \<Longrightarrow>
      \<not> hash_collision X (sh_engine (fst (f x \<lparr> sh_engine = k' \<rparr>))) (snd (f x \<lparr> sh_engine = k' \<rparr>))"
  using collision_bind(1) [where g = sh_engine, OF assms]
    collision_bind(2) [where g = sh_engine, OF assms, of "\<lparr> sh_engine = k' \<rparr>" x]
  by (simp_all add: harness.run_parts) (simp add: on_engine_def)

lemma flow_runs:
  fixes clk :: "nat \<Rightarrow> nat \<Rightarrow> u64"
  assumes X: "ready_crates X" and o: "verify_origin (cr_hash X) ''seed-a'' na 1" "verify_origin (cr_hash X) ''seed-b'' nb 1"
    and w: "trim wa \<noteq> []" "trim wb \<noteq> []"
    and nc: "\<not> hash_collision X (sh_engine (fst (flow_calls X clk wa wb na nb harness_new)))
      (snd (flow_calls X clk wa wb na nb harness_new))"
  obtains k1 k2 k3 k4 k5 k6 a a1 a2 b b1 b2 b3 pr where
    "origin_create X (clk 0) ''v-a'' wa ''space-1'' [1000, 2000] ''seed-a'' na 1 kernel_new = (k1, Ok a)"
    "origin_create X (clk 1) ''v-b'' wb ''space-1'' [50, 75] ''seed-b'' nb 1 k1 = (k2, Ok b)"
    "transfer X (clk 2) ''v-a'' ''v-b'' [250, 250] k2 = (k3, Ok (a1, b1))"
    "drain X (clk 3) ''v-a'' 100 k3 = (k4, Ok a2)"
    "project X (clk 4) ''v-b'' [10, 10] ''escrow-1'' k4 = (k5, Ok b2)"
    "reconstruct X (clk 5) ''v-b'' \<lparr> so_outcome_tag = ''settled'', so_gains = [2, 1], so_losses = [0, 0] \<rparr> k5 = (k6, Ok b3)"
    "kernel_ok X k6" "get_state (ke_store k6) = [''v-a'' \<mapsto> a2, ''v-b'' \<mapsto> b3]"
    "v1_components a2 = [747, 1742]" "v1_components b3 = [302, 326]" "size (ledger k6) = 7"
    "\<forall>e \<in> set (list_events (ke_store k1)). ev_entity_id e \<noteq> ''v-b''" "get_state (ke_store k3) ''v-a'' = Some a1" "v1_version a1 = 1"
    "get_state (ke_store k4) ''v-b'' = Some b1" "v1_version b1 = 1"
    "get_state (ke_store k5) ''v-b'' = Some b2" "v1_version b2 = 2"
proof -
  note n = flow_names
  note nc0 = nc [unfolded flow_calls_def harness_new_def]
  have g0: "get_state (ke_store kernel_new) u = None" for u
    by (simp add: kernel_new_def store_default_def get_state_def)
  obtain k1 a where 1: "origin_create X (clk 0) ''v-a'' wa ''space-1'' [1000, 2000] ''seed-a'' na 1 kernel_new = (k1, Ok a)"
    "steps_to X kernel_new ''v-a'' Op_OriginCreate a k1" "v1_components a = [1000, 2000]" "v1_version a = 1"
    "v1_space_id a = ''space-1''"
    by (rule origin_flows [OF X kernel_ok_new _ harness_step(1) [OF nc0] o(1) n(1) w(1) n(3)]) (simp_all add: flow_simps)
  have L1: "ledger k1 = {# (''v-a'', ''space-1'', ''v-a::space-1::ORIGIN_CREATE::1::1'') #}" "kernel_ok X k1" "party k1 ''v-a'' a"
    "get_state (ke_store k1) u = (if u = ''v-a'' then Some a else None)" for u
    using 1(2,4,5) g0 by (simp_all add: steps_to_def flow_simps party_def)
  note nc1 = harness_step(2) [OF nc0 1(1)]
  obtain k2 b where 2: "origin_create X (clk 1) ''v-b'' wb ''space-1'' [50, 75] ''seed-b'' nb 1 k1 = (k2, Ok b)"
    "steps_to X k1 ''v-b'' Op_OriginCreate b k2" "v1_components b = [50, 75]" "v1_version b = 1"
    "v1_space_id b = ''space-1''"
    by (rule origin_flows [OF X L1(2) _ harness_step(1) [OF nc1] o(2) n(2) w(2) n(3)]) (simp_all add: L1(1) flow_simps)
  have L2: "ledger k2 = {# (''v-a'', ''space-1'', ''v-a::space-1::ORIGIN_CREATE::1::1''),
      (''v-b'', ''space-1'', ''v-b::space-1::ORIGIN_CREATE::1::1'') #}" "kernel_ok X k2"
    "party k2 ''v-a'' a" "party k2 ''v-b'' b" "get_state (ke_store k2) = [''v-a'' \<mapsto> a, ''v-b'' \<mapsto> b]"
    using 2(2,4,5) L1 by (auto simp: steps_to_def flow_simps party_def fun_eq_iff)
  note nc2 = harness_step(2) [OF nc1 2(1)]
  obtain k3 a1 b1 where 3: "transfer X (clk 2) ''v-a'' ''v-b'' [250, 250] k2 = (k3, Ok (a1, b1))" "kernel_ok X k3"
    "party k3 ''v-a'' a1" "party k3 ''v-b'' b1" "v1_components a1 = [750, 1750]" "v1_components b1 = [300, 325]"
    "v1_version a1 = 1" "v1_version b1 = 1" "v1_space_id a1 = ''space-1''" "v1_space_id b1 = ''space-1''"
    "\<And>u. u \<noteq> ''v-a'' \<Longrightarrow> u \<noteq> ''v-b'' \<Longrightarrow> get_state (ke_store k3) u = get_state (ke_store k2) u"
    "ledger k3 = {# (''v-a'', ''space-1'', ''v-a::space-1::TRANSFER::1::2''), (''v-b'', ''space-1'', ''v-b::space-1::TRANSFER::1::2''),
       (''v-a'', ''space-1'', ''v-a::space-1::ORIGIN_CREATE::1::1''), (''v-b'', ''space-1'', ''v-b::space-1::ORIGIN_CREATE::1::1'') #}"
    by (rule transfer_flows [OF X L2(2) _ harness_step(1) [OF nc2] L2(3,4), where n = 2 and n' = 2])
      (simp_all add: 1 2 L2(1) flow_simps less_Suc_eq saturating_sub_def saturating_add_def)
  note nc3 = harness_step(2) [OF nc2 3(1)]
  obtain k4 a2 where 4: "drain X (clk 3) ''v-a'' 100 k3 = (k4, Ok a2)" "steps_to X k3 ''v-a'' Op_Drain a2 k4"
    "v1_components a2 = [747, 1742]" "v1_version a2 = 2" "v1_space_id a2 = ''space-1''"
    by (rule drain_flows [OF X 3(2) _ harness_step(1) [OF nc3] 3(3), where n = 3])
      (simp_all add: 3 flow_simps saturating_sub_def drain_fee_def saturating_mul_def)
  have L4: "ledger k4 = add_mset (''v-a'', ''space-1'', ''v-a::space-1::DRAIN::2::3'') (ledger k3)" "kernel_ok X k4"
    "party k4 ''v-b'' b1"
    using 4(2,4,5) party_elsewhere [OF 4(2) 3(4)] by (simp_all add: steps_to_def 3 flow_simps)
  note nc4 = harness_step(2) [OF nc3 4(1)]
  obtain k5 b2 pr where 5: "project X (clk 4) ''v-b'' [10, 10] ''escrow-1'' k4 = (k5, Ok b2)" "steps_to X k4 ''v-b'' Op_Project b2 k5"
    "v1_components b2 = [290, 315]" "v1_version b2 = 2" "v1_space_id b2 = ''space-1''"
    "v1_projection b2 = Some pr" "ps_projected_components pr = [10, 10]"
    by (rule project_flows [OF X L4(2) _ harness_step(1) [OF nc4] L4(3), where n = 3])
      (simp_all add: L4(1) 3 flow_simps less_Suc_eq saturating_sub_def)
  have L5: "ledger k5 = add_mset (''v-b'', ''space-1'', ''v-b::space-1::PROJECT::2::3'') (ledger k4)" "kernel_ok X k5"
    "party k5 ''v-b'' b2"
    using 5(2,4,5) by (simp_all add: steps_to_def L4(1) 3 flow_simps)
  note nc5 = harness_step(2) [OF nc4 5(1)]
  obtain k6 b3 where 6: "reconstruct X (clk 5) ''v-b'' \<lparr> so_outcome_tag = ''settled'', so_gains = [2, 1], so_losses = [0, 0] \<rparr> k5 =
      (k6, Ok b3)" "steps_to X k5 ''v-b'' Op_Reconstruct b3 k6" "v1_components b3 = [302, 326]"
    by (rule reconstruct_flows [OF X L5(2) _ harness_step(1) [OF nc5] L5(3) 5(6),
          where zs = "[((10, 2), 0), ((10, 1), 0)]" and cs = "[302, 326]" and n = 4])
      (simp_all add: 5 L5(1) L4(1) 3 flow_simps settle_fits_def settle_net_def saturating_add_def)
  show thesis
  proof (rule that [OF 1(1) 2(1) 3(1) 4(1) 5(1) 6(1)])
    show "kernel_ok X k6" using 6(2) by (simp add: steps_to_def)
    show "get_state (ke_store k6) = [''v-a'' \<mapsto> a2, ''v-b'' \<mapsto> b3]"
      using 4(2) 5(2) 6(2) L2(5) 3(11) by (auto simp: steps_to_def party_def fun_eq_iff)
    show "size (ledger k6) = 7" using 6(2) by (simp add: steps_to_def L5(1) L4(1) 3(12))
    show "\<forall>e \<in> set (list_events (ke_store k1)). ev_entity_id e \<noteq> ''v-b''"
      by (rule ledger_unused) (simp add: L1(1))
  qed (use L1(4) 3 4 5 6 L4(3) in \<open>simp_all add: party_def steps_to_def\<close>)
qed


lemma found_nonce: "find_valid_nonce H seed d m = Some n \<Longrightarrow> d \<noteq> 0 \<Longrightarrow> verify_origin H seed n d"
  using find_nonce_from_Some [of "\<lambda>n. verify_origin H seed n d" "unat m" 0 n] unat_bound [of m]
  by (simp add: find_valid_nonce_def)

section \<open>A sample flow\<close>

text \<open>Hashes that begin with the zero the harness asks for.\<close>

definition flow_crates :: crates where
  "flow_crates = sample_crates\<lparr> cr_hash := \<lambda>b. CHR ''0'' # sample_hash b \<rparr>"

lemma flow_crates_ready: "ready_crates flow_crates"
  using sample_json by (simp add: ready_crates_def flow_crates_def)

lemma flow_crates_collision: "\<not> hash_collision flow_crates k r"
  by (rule no_collision) (use sample_hash_inj in \<open>simp add: inj_def flow_crates_def\<close>)

lemma flow_crates_nonce: "find_valid_nonce (cr_hash flow_crates) seed 1 1000000 = Some 0"
proof -
  have "verify_origin (cr_hash flow_crates) seed 0 1"
    by (simp add: verify_origin_def flow_crates_def origin_proof_hash_def Let_def sample_hash_def)
  moreover have "unat (1000000 :: u64) = Suc 999999" by simp
  ultimately show ?thesis by (simp only: find_valid_nonce_def find_nonce_from.simps) simp
qed

section \<open>Properties\<close>

text \<open>
  C6: The harness runs to its end: where the two nonces are found, the hash is never empty, the serializer
  has a JSON value for numbers of 64 bits and the public keys are not blank, all six operations return, the
  report has the two vectors, with the balances the transfer, the drain at half the rate and the settled
  projection leave, and the log has the seven events. Where moreover the clock had moved on after the
  two origins when the transfer began, the log replays to the two vectors; nothing is said of the replay
  otherwise. Nothing is assumed of collisions of the hash: the only other outcome is the refusal of the log,
  whose error names a hash that an event of the run already logged shares with an event of other
  canonical bytes.
\<close>

theorem basic_flow_succeeds:
  fixes clk :: "nat \<Rightarrow> nat \<Rightarrow> u64"
  assumes "ready_crates X"
    and "find_valid_nonce (cr_hash X) ''seed-a'' 1 1000000 \<noteq> None" "find_valid_nonce (cr_hash X) ''seed-b'' 1 1000000 \<noteq> None"
    and "trim wallet_a \<noteq> []" "trim wallet_b \<noteq> []"
  shows "(\<exists>h report a b. basic_flow X clk wallet_a wallet_b harness_new = (h, Ok report) \<and>
      sm_vectors report = [a, b] \<and> v1_components a = [747, 1742] \<and> v1_components b = [302, 326] \<and>
      length (list_events (ke_store (sh_engine h))) = 7 \<and>
      ((\<forall>i. clk 0 i \<le> t \<and> clk 1 i \<le> t \<and> t < clk 2 i) \<longrightarrow>
        (\<exists>r. replay_canonical_history X (sh_engine h) = Ok r \<and>
          vector_v1_to_event_state a = Ok (the (bt_get (rr_final_state r) ''v-a'')) \<and>
          vector_v1_to_event_state b = Ok (the (bt_get (rr_final_state r) ''v-b''))))) \<or>
    (\<exists>h r. basic_flow X clk wallet_a wallet_b harness_new = (h, r) \<and> hash_collision X (sh_engine h) r)"
  (is "?ok \<or> ?collision")
proof (rule disjCI)
  assume nc: "\<not> ?collision"
  obtain na nb where n: "find_valid_nonce (cr_hash X) ''seed-a'' 1 1000000 = Some na"
    "find_valid_nonce (cr_hash X) ''seed-b'' 1 1000000 = Some nb" using assms(2,3) by blast
  have o: "verify_origin (cr_hash X) ''seed-a'' na 1" "verify_origin (cr_hash X) ''seed-b'' nb 1"
    by (rule found_nonce [OF n(1)], simp, rule found_nonce [OF n(2)], simp)
  have flow: "\<not> hash_collision X (sh_engine (fst (flow_calls X clk wallet_a wallet_b na nb harness_new)))
      (snd (flow_calls X clk wallet_a wallet_b na nb harness_new))"
    using nc by (simp add: basic_flow_calls [OF n])
  obtain k1 k2 k3 k4 k5 k6 a a1 a2 b b1 b2 b3 pr where f:
    "origin_create X (clk 0) ''v-a'' wallet_a ''space-1'' [1000, 2000] ''seed-a'' na 1 kernel_new = (k1, Ok a)"
    "origin_create X (clk 1) ''v-b'' wallet_b ''space-1'' [50, 75] ''seed-b'' nb 1 k1 = (k2, Ok b)"
    "transfer X (clk 2) ''v-a'' ''v-b'' [250, 250] k2 = (k3, Ok (a1, b1))"
    "drain X (clk 3) ''v-a'' 100 k3 = (k4, Ok a2)"
    "project X (clk 4) ''v-b'' [10, 10] ''escrow-1'' k4 = (k5, Ok b2)"
    "reconstruct X (clk 5) ''v-b'' \<lparr> so_outcome_tag = ''settled'', so_gains = [2, 1], so_losses = [0, 0] \<rparr> k5 = (k6, Ok b3)"
    "kernel_ok X k6" "get_state (ke_store k6) = [''v-a'' \<mapsto> a2, ''v-b'' \<mapsto> b3]"
    "v1_components a2 = [747, 1742]" "v1_components b3 = [302, 326]" "size (ledger k6) = 7"
    "\<forall>e \<in> set (list_events (ke_store k1)). ev_entity_id e \<noteq> ''v-b''" "get_state (ke_store k3) ''v-a'' = Some a1" "v1_version a1 = 1"
    "get_state (ke_store k4) ''v-b'' = Some b1" "v1_version b1 = 1"
    "get_state (ke_store k5) ''v-b'' = Some b2" "v1_version b2 = 2"
    by (rule flow_runs [OF assms(1) o assms(4,5) flow])
  have run: "basic_flow X clk wallet_a wallet_b harness_new =
      (\<lparr> sh_engine = k6 \<rparr>, Ok \<lparr> sm_vectors = [a2, b3], sm_records = length (query_records k6) \<rparr>)"
    using f(1-6) two_vectors [OF _ f(8)] f(7)
    by (simp add: basic_flow_calls [OF n] flow_calls_def act_bind_def act_defs on_engine_def harness_new_def kernel_ok_def
        query_vectors_def query_list_vectors_def)
  have "length (list_events (ke_store k6)) = 7" using f(11) by (simp add: ledger_def)
  moreover have "\<exists>r. replay_canonical_history X k6 = Ok r \<and>
      vector_v1_to_event_state a2 = Ok (the (bt_get (rr_final_state r) ''v-a'')) \<and>
      vector_v1_to_event_state b3 = Ok (the (bt_get (rr_final_state r) ''v-b''))"
    if late: "\<forall>i. clk 0 i \<le> t \<and> clk 1 i \<le> t \<and> t < clk 2 i"
  proof -
    have "list_events (ke_store kernel_new) = []"
      by (simp add: kernel_new_def store_default_def list_events_def)
    then have "timely_run X t k1" using late by (intro timely_origin [OF timely_new [of _ t] _ _ _ f(1)]) simp_all
    then have "timely_run X t k2" using late f(12) by (intro timely_origin [OF _ _ _ _ f(2), of t]) simp_all
    then have "timely_run X (- 1) k3" using late by (intro timely_transfer [OF _ _ _ _ _ _ f(3), of t]) simp_all
    then have "timely_run X (- 1) k4" using f(14) by (intro timely_drain [OF _ _ _ f(13) _ f(4), of "- 1"]) simp_all
    then have "timely_run X (- 1) k5" using f(16) by (intro timely_project [OF _ _ _ f(15) _ f(5), of "- 1"]) simp_all
    then have "timely_run X (- 1) k6" using f(18) by (intro timely_reconstruct [OF _ _ _ f(17) _ f(6), of "- 1"]) simp_all
    then have k6: "faithful X (- 1) k6" by (rule timely_run_faithful)
    obtain r where r: "replay_canonical_history X k6 = Ok r"
      "\<And>v st. get_state (ke_store k6) v = Some st \<Longrightarrow> narrow st \<and> bt_get (rr_final_state r) v = Some (event_state st)"
      by (rule faithful_replays [OF k6]) (rule that; assumption)
    then show ?thesis
      using r(2) [of "''v-a''" a2] r(2) [of "''v-b''" b3]
      by (intro exI [of _ r]) (simp add: vector_v1_to_event_state_iff f(8))
  qed
  ultimately show ?ok using run f(9,10) by auto
qed

theorem basic_flow_succeeds_witness:
  "\<exists>h report. basic_flow flow_crates (\<lambda>n i. of_nat n) ''pk-a'' ''pk-b'' harness_new = (h, Ok report) \<and>
     map v1_components (sm_vectors report) = [[747, 1742], [302, 326]] \<and>
     (\<exists>r. replay_canonical_history flow_crates (sh_engine h) = Ok r)"
proof -
  have w: "trim ''pk-a'' \<noteq> []" "trim ''pk-b'' \<noteq> []"
    using trim_all_solid [of "''pk-a''"] trim_all_solid [of "''pk-b''"] by (simp_all add: solid_def)
  from basic_flow_succeeds [OF flow_crates_ready _ _ w, of "\<lambda>n i. of_nat n" 1]
  show ?thesis by (auto simp: flow_crates_nonce flow_crates_collision)
qed

end
