(* ===== verification/Interpreter.thy ===== *)
theory Interpreter
  imports Engine_Samples
begin

text \<open>
  \<^verbatim>\<open>src/src/interpreter.rs\<close>: scripts of operations, one per line, and their execution.

  The Unicode upper case of a string, the JSON parser and the JSON text of a queried state come from
  tables and crates outside the sources: they are the fields of the argument \<open>T\<close>. The accessors of a
  JSON value are those of \<open>serde_json::Value\<close>.
\<close>

section \<open>Scripts\<close>

datatype opcode =
    OC_OriginCreate | OC_Transfer | OC_Drain | OC_Project | OC_Reconstruct | OC_Certify | OC_Query

record instruction =
  in_opcode :: opcode
  in_params :: json

record script_text =
  st_upper :: "string \<Rightarrow> string"
  st_parse :: "string \<Rightarrow> string + json"
  st_state :: "vector_state_v1 option \<Rightarrow> string + string"

text \<open>\<open>str::lines\<close>: a line ends at a newline, which takes a carriage return before it along.\<close>

definition strip_cr :: "string \<Rightarrow> string" where
  "strip_cr l = (if l \<noteq> [] \<and> last l = CHR 0x0D then butlast l else l)"

function script_lines :: "string \<Rightarrow> string list" where
  "script_lines s =
     (if s = [] then []
      else case dropWhile (\<lambda>c. c \<noteq> CHR 0x0A) s of
          [] \<Rightarrow> [s]
        | _ # rest \<Rightarrow> strip_cr (takeWhile (\<lambda>c. c \<noteq> CHR 0x0A) s) # script_lines rest)"
  by pat_completeness auto
termination
proof (relation "measure length")
  fix s c and rest :: string
  assume "dropWhile (\<lambda>c. c \<noteq> CHR 0x0A) s = c # rest"
  then show "(rest, s) \<in> measure length"
    using length_dropWhile_le [of "\<lambda>c. c \<noteq> CHR 0x0A" s] by simp
qed simp

declare script_lines.simps [simp del]

definition split_at_space :: "string \<Rightarrow> string \<times> string option" where
  "split_at_space line =
     (takeWhile (\<lambda>c. c \<noteq> CHR '' '') line,
      case dropWhile (\<lambda>c. c \<noteq> CHR '' '') line of [] \<Rightarrow> None | _ # rest \<Rightarrow> Some rest)"

definition opcode_of :: "string \<Rightarrow> opcode outcome" where
  "opcode_of opcode_str =
     (if opcode_str = ''ORIGIN'' \<or> opcode_str = ''ORIGIN_CREATE'' then Ok OC_OriginCreate
      else if opcode_str = ''TRANSFER'' then Ok OC_Transfer
      else if opcode_str = ''DRAIN'' then Ok OC_Drain
      else if opcode_str = ''PROJECT'' then Ok OC_Project
      else if opcode_str = ''RECONSTRUCT'' then Ok OC_Reconstruct
      else if opcode_str = ''CERTIFY'' then Ok OC_Certify
      else if opcode_str = ''QUERY'' then Ok OC_Query
      else Err (Rejected (''unknown opcode: '' @ opcode_str)))"

text \<open>The body of the loop over the lines: a blank line and a comment make no instruction.\<close>

definition parse_line :: "script_text \<Rightarrow> string \<Rightarrow> instruction option outcome" where
  "parse_line T raw =
     (let line = trim raw
      in if line = [] \<or> hd line = CHR ''#'' then Ok None
         else
           let (head, tail) = split_at_space line;
               opcode_str = st_upper T head;
               params = (case tail of Some p \<Rightarrow> p | None \<Rightarrow> ''{}'')
           in and_then (opcode_of opcode_str) (\<lambda>opcode.
              and_then (map_err (\<lambda>e. Rejected (''invalid params json: '' @ e)) (st_parse T params)) (\<lambda>params.
              Ok (Some \<lparr> in_opcode = opcode, in_params = params \<rparr>))))"

fun parse_lines :: "script_text \<Rightarrow> string list \<Rightarrow> instruction list \<Rightarrow> instruction list outcome" where
  "parse_lines T [] out = Ok out"
| "parse_lines T (raw # rest) out =
     and_then (parse_line T raw) (\<lambda>parsed.
       case parsed of
         None \<Rightarrow> parse_lines T rest out
       | Some ins \<Rightarrow> parse_lines T rest (out @ [ins]))"

definition parse_script :: "script_text \<Rightarrow> string \<Rightarrow> instruction list outcome" where
  "parse_script T script = parse_lines T (script_lines script) []"

section \<open>Parameters\<close>

text \<open>The accessors \<open>get\<close>, \<open>as_str\<close>, \<open>as_u64\<close> and \<open>as_array\<close> of a JSON value.\<close>

fun json_get :: "json \<Rightarrow> string \<Rightarrow> json option" where
  "json_get (JObject m) key = bt_get m key"
| "json_get _ key = None"

fun as_str :: "json \<Rightarrow> string option" where
  "as_str (JString s) = Some s"
| "as_str _ = None"

fun as_u64 :: "json \<Rightarrow> u64 option" where
  "as_u64 (JNumber n) = (case parse_unsigned n of Inr w \<Rightarrow> Some w | Inl _ \<Rightarrow> None)"
| "as_u64 _ = None"

fun as_array :: "json \<Rightarrow> json list option" where
  "as_array (JArray xs) = Some xs"
| "as_array _ = None"

definition unwrap_or :: "'a \<Rightarrow> 'a option \<Rightarrow> 'a" where
  "unwrap_or d x = (case x of Some y \<Rightarrow> y | None \<Rightarrow> d)"

definition param_str :: "json \<Rightarrow> string \<Rightarrow> string \<Rightarrow> string" where
  "param_str params key d = unwrap_or d (Option.bind (json_get params key) as_str)"

definition param_u64 :: "json \<Rightarrow> string \<Rightarrow> u64 \<Rightarrow> u64" where
  "param_u64 params key d = unwrap_or d (Option.bind (json_get params key) as_u64)"

definition param_u16 :: "json \<Rightarrow> string \<Rightarrow> u16 \<Rightarrow> u16" where
  "param_u16 params key d =
     unwrap_or d (map_option ucast (Option.bind (json_get params key) as_u64))"

definition param_u128_vec :: "json \<Rightarrow> string \<Rightarrow> u128 list" where
  "param_u128_vec params key =
     map (\<lambda>v. ucast (unwrap_or 0 (as_u64 v))) (unwrap_or [] (Option.bind (json_get params key) as_array))"

section \<open>Execution\<close>

definition execute_instruction ::
  "crates \<Rightarrow> script_text \<Rightarrow> (nat \<Rightarrow> u64) \<Rightarrow> instruction \<Rightarrow> string kernel_action" where
  "execute_instruction X T clk ins =
     (let params = in_params ins
      in case in_opcode ins of
        OC_OriginCreate \<Rightarrow>
          let vector_id = param_str params ''vector_id'' ''vector'';
              owner_pubkey = param_str params ''owner_pubkey'' [];
              space_id = param_str params ''space_id'' ''default'';
              components = param_u128_vec params ''components'';
              seed = param_str params ''seed'' [];
              nonce = param_u64 params ''nonce'' 0;
              difficulty = ucast (param_u64 params ''difficulty'' 1)
          in act_bind (origin_create X clk vector_id owner_pubkey space_id components seed nonce difficulty)
               (\<lambda>state. act_return (''origin:'' @ v1_vector_id state))
      | OC_Transfer \<Rightarrow>
          let from_id = param_str params ''from'' [];
              to_id = param_str params ''to'' [];
              amount = param_u128_vec params ''amount''
          in act_bind (transfer X clk from_id to_id amount) (\<lambda>(a, b).
             act_bind (act_try (magnitude (cr_checks X) a)) (\<lambda>ma.
             act_bind (act_try (magnitude (cr_checks X) b)) (\<lambda>mb.
             act_return (''transfer:'' @ from_id @ ''->'' @ to_id @ '':'' @ show_word ma @ ''|'' @ show_word mb))))
      | OC_Drain \<Rightarrow>
          let vector_id = param_str params ''vector_id'' [];
              basis_points = param_u16 params ''basis_points'' 0
          in act_bind (drain X clk vector_id basis_points) (\<lambda>state.
             act_return (''drain:'' @ v1_vector_id state))
      | OC_Project \<Rightarrow>
          let vector_id = param_str params ''vector_id'' [];
              projected_components = param_u128_vec params ''projected_components'';
              escrow_id = param_str params ''escrow_id'' ''escrow''
          in act_bind (project X clk vector_id projected_components escrow_id) (\<lambda>state.
             act_return (''project:'' @ v1_vector_id state))
      | OC_Reconstruct \<Rightarrow>
          let vector_id = param_str params ''vector_id'' [];
              gains = param_u128_vec params ''gains'';
              losses = param_u128_vec params ''losses'';
              out = \<lparr> so_outcome_tag = param_str params ''outcome_tag'' ''settled'',
                so_gains = gains, so_losses = losses \<rparr>
          in act_bind (reconstruct X clk vector_id out) (\<lambda>state.
             act_return (''reconstruct:'' @ v1_vector_id state))
      | OC_Certify \<Rightarrow>
          let vector_id = param_str params ''vector_id'' []
          in act_bind (certify X clk vector_id) (\<lambda>state.
             act_return (''certify:'' @ v1_vector_id state @ '':'' @
               show_word (cs_auth_ratio (v1_certification state))))
      | OC_Query \<Rightarrow>
          let vector_id = param_str params ''vector_id'' []
          in act_bind (act_get (\<lambda>k. Ok (query_vector k vector_id))) (\<lambda>state.
             act_return (case st_state T state of Inr s \<Rightarrow> s | Inl _ \<Rightarrow> ''null'')))"

text \<open>The instruction number \<open>n\<close> reads the clock \<open>clk n\<close>.\<close>

fun run_instructions ::
  "crates \<Rightarrow> script_text \<Rightarrow> (nat \<Rightarrow> nat \<Rightarrow> u64) \<Rightarrow> nat \<Rightarrow> instruction list \<Rightarrow> string list \<Rightarrow>
     string list kernel_action" where
  "run_instructions X T clk n [] results = act_return results"
| "run_instructions X T clk n (ins # rest) results =
     act_bind (execute_instruction X T (clk n) ins) (\<lambda>r.
       run_instructions X T clk (n + 1) rest (results @ [r]))"

definition execute_script ::
  "crates \<Rightarrow> script_text \<Rightarrow> (nat \<Rightarrow> nat \<Rightarrow> u64) \<Rightarrow> string \<Rightarrow> string list kernel_action" where
  "execute_script X T clk script =
     act_bind (act_try (parse_script T script)) (\<lambda>instructions.
       run_instructions X T clk 0 instructions [])"

section \<open>Scripts are runs of the kernel\<close>

interpretation runs: step_relation "kernel_steps X" for X
  by unfold_locales (auto intro: kernel_steps.intros kernel_steps_trans)

lemma kernel_step_steps: "kernel_step X k k' \<Longrightarrow> kernel_steps X k k'"
  by (meson kernel_steps.intros)

lemma within_step: "(\<And>k k' r. m k = (k', r) \<Longrightarrow> kernel_step X k k') \<Longrightarrow> within (kernel_steps X) m"
  unfolding within_def by (metis prod.collapse kernel_step_steps)

lemma operations_are_steps:
  "within (kernel_steps X) (certify X clk v)"
  "within (kernel_steps X) (origin_create X clk v ow sp cs seed nonce difficulty)"
  "within (kernel_steps X) (transfer X clk v w amount)"
  "within (kernel_steps X) (drain X clk v bps)"
  "within (kernel_steps X) (project X clk v part escrow)"
  "within (kernel_steps X) (reconstruct X clk v out)"
  "within (kernel_steps X) (create_region X clk request pk)"
  by (rule within_step, erule kernel_step.intros)+

lemma instruction_is_run: "within (kernel_steps X) (execute_instruction X T clk ins)"
  unfolding execute_instruction_def Let_def
  by (cases "in_opcode ins")
    (simp_all, (intro runs.within_bind runs.within_prod runs.within_intros operations_are_steps)+)

lemma instructions_are_run: "within (kernel_steps X) (run_instructions X T clk n is results)"
  by (induction "is" arbitrary: n results) (auto intro: runs.within_bind runs.within_intros instruction_is_run)

lemma script_is_run: "within (kernel_steps X) (execute_script X T clk script)"
  unfolding execute_script_def by (intro runs.within_bind runs.within_intros instructions_are_run)

section \<open>Lines\<close>

lemma script_lines_Nil [simp]: "script_lines [] = []"
  by (simp add: script_lines.simps)

lemma script_lines_line:
  "CHR 0x0A \<notin> set l \<Longrightarrow> script_lines (l @ CHR 0x0A # s) = strip_cr l # script_lines s"
  by (subst script_lines.simps) (auto simp: dropWhile_append takeWhile_append dest: set_dropWhileD)

lemma script_lines_last: "s \<noteq> [] \<Longrightarrow> CHR 0x0A \<notin> set s \<Longrightarrow> script_lines s = [s]"
proof -
  assume "s \<noteq> []" "CHR 0x0A \<notin> set s"
  moreover from this have "dropWhile (\<lambda>c. c \<noteq> CHR 0x0A) s = []"
    by (auto simp only: dropWhile_eq_Nil_conv)
  ultimately show ?thesis by (simp only: script_lines.simps [of s] if_False list.case)
qed

lemma map_ok_map_ok: "map_ok f (map_ok g m) = map_ok (\<lambda>x. f (g x)) m"
  by (cases m) simp_all

lemma and_then_assoc: "and_then (and_then m f) g = and_then m (\<lambda>x. and_then (f x) g)"
  by (cases m) simp_all

lemma parse_line_blank [simp]: "parse_line T [] = Ok None"
  by (simp add: parse_line_def)

lemma parse_lines_append:
  "parse_lines T (ls @ ls') out = and_then (parse_lines T ls out) (parse_lines T ls')"
proof (induction ls arbitrary: out)
  case (Cons l ls)
  then show ?case by (cases "parse_line T l") (auto split: option.split)
qed simp

lemma parse_lines_out: "parse_lines T ls out = map_ok ((@) out) (parse_lines T ls [])"
proof (induction ls arbitrary: out)
  case (Cons l ls)
  show ?case
  proof (cases "parse_line T l")
    case (Ok p)
    show ?thesis
    proof (cases p)
      case None
      with Ok Cons [of out] show ?thesis by simp
    next
      case (Some ins)
      with Ok Cons [of "out @ [ins]"] Cons [of "[ins]"] show ?thesis by (simp add: map_ok_map_ok)
    qed
  qed simp_all
qed simp

text \<open>A break at the end of a script only adds a blank line.\<close>

lemma parse_lines_break:
  assumes "s = [] \<or> last s \<noteq> CHR 0x0D"
  shows "parse_lines T (script_lines (s @ CHR 0x0A # s')) out =
    and_then (parse_lines T (script_lines s) out) (parse_lines T (script_lines s'))"
  using assms
proof (induction s arbitrary: out rule: script_lines.induct)
  case (1 s)
  show ?case
  proof (cases "CHR 0x0A \<in> set s")
    case True
    then obtain l r where s: "s = l @ CHR 0x0A # r" "CHR 0x0A \<notin> set l" by (metis split_list_first)
    then have "dropWhile (\<lambda>c. c \<noteq> CHR 0x0A) s = CHR 0x0A # r" by (auto simp: dropWhile_append dest: set_dropWhileD)
    from 1(1) [OF _ this] 1(2) s(1) have IH: "parse_lines T (script_lines (r @ CHR 0x0A # s')) out =
      and_then (parse_lines T (script_lines r) out) (parse_lines T (script_lines s'))" for out
      by (auto split: if_splits)
    have "parse_lines T (strip_cr l # script_lines (r @ CHR 0x0A # s')) out =
      and_then (parse_lines T (strip_cr l # script_lines r) out) (parse_lines T (script_lines s'))"
      by (cases "parse_line T (strip_cr l)") (auto simp: IH split: option.split)
    then show ?thesis using script_lines_line [OF s(2)] s(1) by simp
  next
    case False
    have "script_lines (s @ CHR 0x0A # s') = s # script_lines s'"
      using 1(2) by (subst script_lines_line [OF False]) (auto simp: strip_cr_def)
    then show ?thesis
      using script_lines_last [OF _ False] by (cases "s = []"; cases "parse_line T s") (auto split: option.split)
  qed
qed

lemma parse_script_break:
  assumes "parse_script T s = Ok is" "s = [] \<or> last s \<noteq> CHR 0x0D"
  shows "parse_script T (s @ CHR 0x0A # s') = map_ok ((@) is) (parse_script T s')"
  using assms by (simp add: parse_script_def parse_lines_break parse_lines_out [of _ _ "is"])

lemma run_instructions_append:
  "run_instructions X T clk n (is @ js) results =
     act_bind (run_instructions X T clk n is results) (run_instructions X T clk (n + length is) js)"
proof (induction "is" arbitrary: n results)
  case Nil
  show ?case by (rule ext) (simp add: act_bind_def act_return_def)
next
  case (Cons i "is")
  show ?case by (rule ext) (auto simp: Cons act_bind_def split: prod.split result.split)
qed

lemma run_instructions_results:
  "run_instructions X T clk n is results k =
     (fst (run_instructions X T clk n is [] k), map_ok ((@) results) (snd (run_instructions X T clk n is [] k)))"
proof (induction "is" arbitrary: n results k)
  case Nil
  show ?case by (simp add: act_return_def)
next
  case (Cons i "is")
  show ?case
  proof (cases "execute_instruction X T (clk n) i k")
    case (Pair k' r)
    show ?thesis
      using Cons [of "n + 1" "results @ [x]" k' for x] Cons [of "n + 1" "[x]" k' for x]
      by (cases r) (auto simp: act_bind_def Pair map_ok_map_ok)
  qed
qed

lemma run_instructions_shift:
  "run_instructions X T (\<lambda>i. clk (i + m)) n is results = run_instructions X T clk (n + m) is results"
  by (induction "is" arbitrary: n results) simp_all

section \<open>Printed scripts\<close>

fun opcode_names :: "opcode \<Rightarrow> string list" where
  "opcode_names OC_OriginCreate = [''ORIGIN'', ''ORIGIN_CREATE'']"
| "opcode_names OC_Transfer = [''TRANSFER'']"
| "opcode_names OC_Drain = [''DRAIN'']"
| "opcode_names OC_Project = [''PROJECT'']"
| "opcode_names OC_Reconstruct = [''RECONSTRUCT'']"
| "opcode_names OC_Certify = [''CERTIFY'']"
| "opcode_names OC_Query = [''QUERY'']"

lemma opcode_of_names: "opcode_of s = Ok op' \<longleftrightarrow> s \<in> set (opcode_names op')"
  by (cases op') (auto simp: opcode_of_def)

text \<open>A line: a word that names the operation in any case, a space and the text of a JSON object.\<close>

definition line_of :: "script_text \<Rightarrow> string \<Rightarrow> string \<Rightarrow> instruction \<Rightarrow> bool" where
  "line_of T word body i \<longleftrightarrow>
     word \<noteq> [] \<and> solid (hd word) \<and> hd word \<noteq> CHR ''#'' \<and>
     list_all (\<lambda>c. c \<noteq> CHR '' '' \<and> c \<noteq> CHR 0x0A) word \<and> CHR 0x0A \<notin> set body \<and>
     st_upper T word \<in> set (opcode_names (in_opcode i)) \<and>
     st_parse T (''{'' @ body @ ''}'') = Inr (in_params i)"

definition print_line :: "string \<Rightarrow> string \<Rightarrow> string" where
  "print_line word body = word @ '' '' @ ''{'' @ body @ ''}'' @ [CHR 0x0A]"

lemma parse_printed_line:
  assumes "line_of T word body i"
  shows "parse_line T (strip_cr (word @ '' '' @ ''{'' @ body @ ''}'')) = Ok (Some i)"
proof -
  obtain c w where w: "word = c # w" using assms by (cases word) (auto simp: line_of_def)
  have "strip_cr (word @ '' '' @ ''{'' @ body @ ''}'') = word @ '' {'' @ body @ ''}''"
    by (simp add: strip_cr_def)
  moreover have "trim (word @ '' {'' @ body @ ''}'') = word @ '' {'' @ body @ ''}''"
    using trim_solid [of c "CHR ''}''" "w @ '' {'' @ body"] assms w by (simp add: line_of_def solid_def)
  moreover have "split_at_space (word @ '' {'' @ body @ ''}'') = (word, Some (''{'' @ body @ ''}''))"
    using assms by (auto simp: split_at_space_def line_of_def takeWhile_append dropWhile_append list_all_iff dest: set_dropWhileD)
  moreover have "opcode_of (st_upper T word) = Ok (in_opcode i)"
    using assms by (simp add: line_of_def opcode_of_names)
  ultimately show ?thesis
    using assms w by (simp add: parse_line_def Let_def line_of_def)
qed

lemma trim_solid_head:
  assumes "solid c"
  obtains t where "trim (c # s) = c # t"
proof -
  have "trim (c # s) = trim_end (c # s)"
    using assms by (simp add: trim_def trim_start_def trim_with_id leading_solid)
  moreover obtain u where "rev (c # s) = u @ trim_with (map rev white_space) (rev (c # s))"
    using trim_with_suffix by blast
  then have "c # s = trim_end (c # s) @ rev u"
    unfolding trim_end_def by (metis rev_append rev_rev_ident)
  moreover have "trim (c # s) \<noteq> []" by (rule trim_solid_nonempty [OF assms])
  ultimately show thesis using that by (metis append_eq_Cons_conv)
qed

lemma parse_comment: "parse_line T (strip_cr (CHR ''#'' # s)) = Ok None"
proof -
  have "\<exists>r. strip_cr (CHR ''#'' # s) = CHR ''#'' # r"
    by (cases s) (simp_all add: strip_cr_def)
  then obtain r where r: "strip_cr (CHR ''#'' # s) = CHR ''#'' # r" by blast
  obtain t where "trim (CHR ''#'' # r) = CHR ''#'' # t"
    by (rule trim_solid_head [of "CHR ''#''"]) (simp add: solid_def)
  then show ?thesis by (simp add: r parse_line_def)
qed

section \<open>A sample script\<close>

definition sample_params :: json where
  "sample_params = JObject
     [(''components'', JArray [JNumber ''1000'', JNumber ''2000'']), (''difficulty'', JNumber ''0''),
      (''nonce'', JNumber ''0''), (''owner_pubkey'', JString ''pk''), (''seed'', JString ''s''),
      (''space_id'', JString ''sp''), (''vector_id'', JString ''v-a'')]"

definition sample_text :: script_text where
  "sample_text = \<lparr> st_upper = to_ascii_uppercase,
     st_parse = \<lambda>p. if p = ''{v-a}'' then Inr sample_params else Inl ''expected value'',
     st_state = \<lambda>_. Inr ''state'' \<rparr>"

definition sample_origin :: instruction where
  "sample_origin = \<lparr> in_opcode = OC_OriginCreate, in_params = sample_params \<rparr>"

lemma sample_upper: "to_ascii_uppercase ''Origin'' = ''ORIGIN''" "to_ascii_uppercase ''origin'' = ''ORIGIN''"
  by code_simp+

lemma sample_line: "line_of sample_text ''Origin'' ''v-a'' sample_origin"
  by (simp add: line_of_def sample_text_def sample_origin_def solid_def sample_upper)

lemma sample_script: "parse_script sample_text ''origin {v-a}'' = Ok [sample_origin]"
proof -
  have "trim ''origin {v-a}'' = ''origin {v-a}''"
    using trim_solid [of "CHR ''o''" "CHR ''}''" "''rigin {v-a''"] by (simp add: solid_def)
  then have "parse_line sample_text ''origin {v-a}'' = Ok (Some sample_origin)"
    by (simp add: parse_line_def split_at_space_def sample_text_def sample_upper opcode_of_def sample_origin_def)
  then show ?thesis by (simp add: parse_script_def script_lines_last)
qed

lemma sample_script_run:
  obtains k and a :: vector_state_v1 where
    "execute_script sample_crates sample_text (\<lambda>_ _. 5) ''origin {v-a}'' kernel_new =
       (k, Ok [''origin:'' @ v1_vector_id a])"
proof -
  have n: "as_u64 (JNumber ''0'') = Some 0" "as_u64 (JNumber ''1000'') = Some 1000" "as_u64 (JNumber ''2000'') = Some 2000"
    by (simp_all add: parse_unsigned_def digit_value_def)
  have p: "param_str sample_params ''vector_id'' ''vector'' = ''v-a''" "param_str sample_params ''owner_pubkey'' [] = ''pk''"
    "param_str sample_params ''space_id'' ''default'' = ''sp''" "param_str sample_params ''seed'' [] = ''s''"
    "param_u64 sample_params ''nonce'' 0 = 0" "param_u64 sample_params ''difficulty'' 1 = 0"
    "param_u128_vec sample_params ''components'' = [1000, 2000]"
    by (simp_all add: sample_params_def param_str_def param_u64_def param_u128_vec_def unwrap_or_def n del: as_u64.simps)
  obtain k a where "origin_create sample_crates (\<lambda>_. 5) ''v-a'' ''pk'' ''sp'' [1000, 2000] ''s'' 0 0 kernel_new = (k, Ok a)"
    by (rule sample_two_origins)
  then have "execute_instruction sample_crates sample_text (\<lambda>_. 5) sample_origin kernel_new =
      (k, Ok (''origin:'' @ v1_vector_id a))"
    by (simp add: execute_instruction_def sample_origin_def p act_bind_def act_return_def)
  then show thesis
    by (intro that [of k a]) (simp add: execute_script_def sample_script act_bind_def act_defs)
qed

section \<open>Properties\<close>

text \<open>
  C27: A printed script is read back: where every line is the name of its operation, in any case that
  \<open>to_uppercase\<close> maps to it, and the JSON text of its parameters, the parser returns the instructions in
  their order, with comments and blank lines left out.
\<close>

theorem parse_printed_script:
  assumes "\<forall>(word, body, i) \<in> set ls. line_of T word body i"
    and "CHR 0x0A \<notin> set comment"
  shows "parse_script T (CHR ''#'' # comment @ CHR 0x0A # CHR 0x0A #
      concat (map (\<lambda>(word, body, i). print_line word body) ls)) = Ok (map (\<lambda>(word, body, i). i) ls)"
proof -
  have body: "parse_lines T (script_lines (concat (map (\<lambda>(word, body, i). print_line word body) ls))) [] =
      Ok (map (\<lambda>(word, body, i). i) ls)"
    using assms(1)
  proof (induction ls)
    case (Cons l ls)
    obtain word body i where l: "l = (word, body, i)" by (cases l)
    let ?s = "concat (map (\<lambda>(word, body, i). print_line word body) ls)"
    have line: "line_of T word body i" using Cons(2) l by simp
    then have "CHR 0x0A \<notin> set (word @ '' '' @ ''{'' @ body @ ''}'')"
      by (auto simp: line_of_def list_all_iff)
    from script_lines_line [OF this, of ?s]
    have "script_lines (print_line word body @ ?s) = strip_cr (word @ '' '' @ ''{'' @ body @ ''}'') # script_lines ?s"
      by (simp add: print_line_def)
    then show ?case
      using Cons parse_lines_out [of T "script_lines ?s" "[i]"] parse_printed_line [OF line]
      by (simp add: l)
  qed simp
  have "parse_line T (strip_cr (CHR ''#'' # comment)) = Ok None"
    by (rule parse_comment)
  then show ?thesis
    using body script_lines_line [of "CHR ''#'' # comment"] script_lines_line [of "[]"] assms(2)
    by (simp add: parse_script_def strip_cr_def)
qed

theorem parse_printed_script_witness:
  "parse_script sample_text (CHR ''#'' # '' one vector'' @ CHR 0x0A # CHR 0x0A #
     concat (map (\<lambda>(word, body, i). print_line word body) [(''Origin'', ''v-a'', sample_origin)])) = Ok [sample_origin]"
  using parse_printed_script [of "[(''Origin'', ''v-a'', sample_origin)]" sample_text "'' one vector''"] sample_line
  by simp

text \<open>
  C26: A script is a run of the kernel: whatever its text, and whether it returns its results, an error
  or panics, it leaves the kernel in a state that calls of the operations reach; so the invariant of the
  reachable kernels holds after it, and the log has only grown.
\<close>

theorem script_runs_the_kernel:
  assumes "execute_script X T clk script k = (k', r)" "kernel_steps X kernel_new k"
  shows "kernel_steps X k k' \<and> kernel_steps X kernel_new k' \<and> kernel_ok X k' \<and> extends k k' \<and>
    (\<forall>e. parse_script T script = Err e \<longrightarrow> k' = k \<and> r = Err e)"
proof -
  have s: "kernel_steps X k k'" using withinD [OF script_is_run assms(1)] .
  moreover have "kernel_steps X kernel_new k'" by (rule kernel_steps_trans [OF s assms(2)])
  moreover from this have "kernel_ok X k'" by (rule kernel_steps_ok [OF _ kernel_ok_new])
  moreover have "k' = k \<and> r = Err e" if "parse_script T script = Err e" for e
    using assms(1) by (simp add: execute_script_def act_bind_try that)
  ultimately show ?thesis using kernel_steps_extends by blast
qed

theorem script_runs_the_kernel_witness:
  "\<exists>k r. execute_script sample_crates sample_text (\<lambda>_ _. 5) ''origin {v-a}'' kernel_new = (k, Ok r) \<and>
     kernel_steps sample_crates kernel_new k \<and> kernel_ok sample_crates k"
proof -
  obtain k and a :: vector_state_v1 where k: "execute_script sample_crates sample_text (\<lambda>_ _. 5) ''origin {v-a}'' kernel_new =
    (k, Ok [''origin:'' @ v1_vector_id a])"
    by (rule sample_script_run)
  from script_runs_the_kernel [OF k steps_refl] k show ?thesis by blast
qed

text \<open>
  Scripts compose: running one script after another, with a line break between them, is running
  their concatenation; the results are appended, and an instruction that fails ends the run with the
  effects of those before it.
\<close>

theorem scripts_compose:
  assumes "parse_script T s = Ok is" "parse_script T s' = Ok js" "s = [] \<or> last s \<noteq> CHR 0x0D"
  shows "execute_script X T clk (s @ CHR 0x0A # s') k =
    (case execute_script X T clk s k of
       (k1, Ok rs) \<Rightarrow>
         (case execute_script X T (\<lambda>n. clk (n + length is)) s' k1 of
            (k2, r) \<Rightarrow> (k2, map_ok ((@) rs) r))
     | (k1, r) \<Rightarrow> (k1, r))"
proof -
  have "execute_script X T clk (s @ CHR 0x0A # s') k =
      act_bind (run_instructions X T clk 0 is []) (run_instructions X T clk (0 + length is) js) k"
    using parse_script_break [OF assms(1,3), of s'] assms(2)
    by (simp add: execute_script_def run_instructions_append)
  moreover have "run_instructions X T clk (0 + length is) js rs k1 =
      (case execute_script X T (\<lambda>n. clk (n + length is)) s' k1 of (k2, r) \<Rightarrow> (k2, map_ok ((@) rs) r))" for rs k1
    using run_instructions_results [of X T clk "0 + length is" js rs k1] run_instructions_shift [of X T clk "length is" 0 js "[]"]
    by (simp add: execute_script_def assms(2) split: prod.split)
  moreover have "execute_script X T clk s k = run_instructions X T clk 0 is [] k"
    by (simp add: execute_script_def assms(1))
  ultimately show ?thesis by (auto simp: act_bind_def split: prod.split result.split)
qed

theorem scripts_compose_witness:
  "execute_script sample_crates sample_text (\<lambda>_ _. 5) (''origin {v-a}'' @ CHR 0x0A # ''origin {v-a}'') kernel_new =
    (case execute_script sample_crates sample_text (\<lambda>_ _. 5) ''origin {v-a}'' kernel_new of
       (k1, Ok rs) \<Rightarrow>
         (case execute_script sample_crates sample_text (\<lambda>_ _. 5) ''origin {v-a}'' k1 of
            (k2, r) \<Rightarrow> (k2, map_ok ((@) rs) r))
     | (k1, r) \<Rightarrow> (k1, r))"
  using scripts_compose [OF sample_script sample_script, of sample_crates "\<lambda>_ _. 5" kernel_new] by simp

text \<open>
  C28: The basis points of a drain are cut to 16 bits: a script that asks for \<open>n\<close> basis points drains
  \<open>n mod 65536\<close>, and the limit of 10000 is checked after the cut only.
\<close>

theorem script_drain_points_wrap:
  assumes "n < 2 ^ 64" "bt_get m ''basis_points'' = Some (JNumber (show_nat n))"
    and "bt_get m ''vector_id'' = Some (JString v)"
  shows "execute_instruction X T clk \<lparr> in_opcode = OC_Drain, in_params = JObject m \<rparr> =
    act_bind (drain X clk v (of_nat (n mod 65536))) (\<lambda>state. act_return (''drain:'' @ v1_vector_id state))"
proof -
  have "as_u64 (JNumber (show_nat n)) = Some (of_nat n)"
    using parse_show_word [of "of_nat n :: u64"] assms(1) by (simp add: show_word_def unat_of_nat)
  moreover have "ucast (of_nat n :: u64) = (of_nat (n mod 65536) :: u16)"
    by (rule word_unat_eq_iff [THEN iffD2]) (simp add: unat_of_nat unsigned_ucast_eq take_bit_eq_mod mod_mod_cancel)
  ultimately show ?thesis
    using assms(2,3) by (simp add: execute_instruction_def param_u16_def param_str_def unwrap_or_def)
qed

theorem script_drain_points_wrap_witness:
  "execute_instruction sample_crates sample_text (\<lambda>_. 9) \<lparr> in_opcode = OC_Drain, in_params = JObject
     [(''basis_points'', JNumber ''65636''), (''vector_id'', JString ''v-a'')] \<rparr> =
   act_bind (drain sample_crates (\<lambda>_. 9) ''v-a'' 100) (\<lambda>state. act_return (''drain:'' @ v1_vector_id state))"
proof -
  have "show_nat 65636 = ''65636''" by (simp add: show_nat.simps digit_char_def) code_simp
  then show ?thesis
    using script_drain_points_wrap [of 65636 "[(''basis_points'', JNumber ''65636''), (''vector_id'', JString ''v-a'')]"
        "''v-a''" sample_crates sample_text "\<lambda>_. 9"]
    by simp
qed

end
