(* ===== verification/Python_Api.thy ===== *)
theory Python_Api
  imports Developer Interpreter
begin

text \<open>
  \<^verbatim>\<open>src/src/python_api.rs\<close> and the module of \<^verbatim>\<open>src/src/lib.rs\<close>: the kernel as a Python class. The Python
  objects are those the conversion tells apart; \<open>Py_Other\<close> is an object that none of the extractions of
  pyo3 accepts. A float is its 64 bits. The texts and values \<open>serde_json\<close> makes, and the double nearest
  to an integer, are fields of the argument \<open>P\<close>. An exception is an error of the result; a panic raises
  \<open>PanicException\<close> and leaves the object as it is.
\<close>

section \<open>Python objects\<close>

datatype py_object =
    Py_None
  | Py_Bool bool
  | Py_Str string
  | Py_Int int
  | Py_Float u64
  | Py_Dict "(py_object \<times> py_object) list"
  | Py_List "py_object list"
  | Py_Tuple "py_object list"
  | Py_Other

datatype py_error = Py_ValueError string | Py_TypeError

type_synonym 'a py_result = "(py_error, 'a) result"

record create_region_request_input =
  ci_region_name :: string
  ci_actor_public_key :: string
  ci_trigger_event_hash :: string
  ci_creation_proof :: string
  ci_visibility :: string
  ci_section :: u64
  ci_request_signature :: string
  ci_region_prefix :: "string option"
  ci_suggested_title :: "string option"
  ci_access_key :: "string option"
  ci_metadata :: "json option"

record python =
  pf_of_int :: "int \<Rightarrow> u64 option"
  pf_text :: "u64 \<Rightarrow> string"
  pj_parse :: "string \<Rightarrow> string + json"
  pj_input :: "json \<Rightarrow> string + create_region_request_input"
  pj_state :: "vector_state_v1 \<Rightarrow> string + string"
  pj_pair :: "vector_state_v1 \<times> vector_state_v1 \<Rightarrow> string + string"
  pj_state_option :: "vector_state_v1 option \<Rightarrow> string + string"
  pj_states :: "vector_state_v1 list \<Rightarrow> string + string"
  pj_records :: "vector_record_v1 list \<Rightarrow> string + string"
  pj_event_option :: "vector_event option \<Rightarrow> string + string"
  pj_region :: "region_state \<Rightarrow> string + string"
  pj_region_option :: "region_state option \<Rightarrow> string + string"
  pj_regions :: "region_state list \<Rightarrow> string + string"
  pj_string_option :: "string option \<Rightarrow> string + string"
  pj_bool :: "bool \<Rightarrow> string + string"
  pj_replay :: "replay_result \<Rightarrow> string + string"
  pj_root :: "state_root \<Rightarrow> string + string"
  pj_value :: "json \<Rightarrow> string + string"

definition to_json :: "('a \<Rightarrow> string + string) \<Rightarrow> 'a \<Rightarrow> string py_result" where
  "to_json text value = map_err Py_ValueError (text value)"

section \<open>Values\<close>

definition parse_region_visibility :: "string \<Rightarrow> region_visibility py_result" where
  "parse_region_visibility value =
     (let v = to_ascii_lowercase (trim value)
      in if v = ''public'' then Ok RV_Public
         else if v = ''private'' then Ok RV_Private
         else Err (Py_ValueError (''invalid region visibility: '' @ v)))"

fun json_value_to_string :: "crates \<Rightarrow> json \<Rightarrow> string" where
  "json_value_to_string X (JString s) = s"
| "json_value_to_string X (JBool b) = (if b then ''true'' else ''false'')"
| "json_value_to_string X (JNumber n) = n"
| "json_value_to_string X JNull = []"
| "json_value_to_string X other = sd_text (cr_serde X) other"

definition metadata_from_json :: "crates \<Rightarrow> json option \<Rightarrow> (string, string) btree py_result" where
  "metadata_from_json X value =
     (case value of
        None \<Rightarrow> Ok []
      | Some (JObject m) \<Rightarrow> Ok (fold (\<lambda>(k, v) out. bt_insert k (json_value_to_string X v) out) m [])
      | Some _ \<Rightarrow> Err (Py_ValueError ''metadata must be a JSON object / Python dict''))"

text \<open>The extractions that can succeed on each object, and \<open>Number::from_f64\<close>.\<close>

fun extract_string :: "py_object \<Rightarrow> string option" where
  "extract_string (Py_Str s) = Some s"
| "extract_string _ = None"

fun extract_i64 :: "py_object \<Rightarrow> int option" where
  "extract_i64 (Py_Int i) = (if - (2 ^ 63) \<le> i \<and> i < 2 ^ 63 then Some i else None)"
| "extract_i64 _ = None"

fun extract_u64 :: "py_object \<Rightarrow> int option" where
  "extract_u64 (Py_Int i) = (if 0 \<le> i \<and> i < 2 ^ 64 then Some i else None)"
| "extract_u64 _ = None"

fun extract_f64 :: "python \<Rightarrow> py_object \<Rightarrow> u64 option" where
  "extract_f64 P (Py_Float f) = Some f"
| "extract_f64 P (Py_Int i) = pf_of_int P i"
| "extract_f64 P _ = None"

definition finite_f64 :: "u64 \<Rightarrow> bool" where
  "finite_f64 f \<longleftrightarrow> unat f div 2 ^ 52 mod 2 ^ 11 \<noteq> 2047"

definition show_int :: "int \<Rightarrow> string" where
  "show_int i = (if i < 0 then CHR ''-'' # show_nat (nat (- i)) else show_nat (nat i))"

definition py_number :: "python \<Rightarrow> py_object \<Rightarrow> json py_result option" where
  "py_number P obj =
     (case extract_i64 obj of
        Some i \<Rightarrow> Some (Ok (JNumber (show_int i)))
      | None \<Rightarrow>
          (case extract_u64 obj of
             Some u \<Rightarrow> Some (Ok (JNumber (show_int u)))
           | None \<Rightarrow>
               (case extract_f64 P obj of
                  Some f \<Rightarrow> Some
                    (if finite_f64 f then Ok (JNumber (pf_text P f))
                     else Err (Py_ValueError ''non-finite float not supported''))
                | None \<Rightarrow> None)))"

fun py_any_to_json_value :: "python \<Rightarrow> py_object \<Rightarrow> json py_result"
  and py_dict_to_map :: "python \<Rightarrow> (py_object \<times> py_object) list \<Rightarrow> (string, json) btree \<Rightarrow>
        (string, json) btree py_result"
  and py_items_to_json :: "python \<Rightarrow> py_object list \<Rightarrow> json list \<Rightarrow> json list py_result" where
  "py_any_to_json_value P obj =
     (case obj of
        Py_None \<Rightarrow> Ok JNull
      | Py_Bool b \<Rightarrow> Ok (JBool b)
      | _ \<Rightarrow>
          (case extract_string obj of
             Some s \<Rightarrow> Ok (JString s)
           | None \<Rightarrow>
               (case py_number P obj of
                  Some r \<Rightarrow> r
                | None \<Rightarrow>
                    (case obj of
                       Py_Dict entries \<Rightarrow> map_ok JObject (py_dict_to_map P entries [])
                     | Py_List xs \<Rightarrow> map_ok JArray (py_items_to_json P xs [])
                     | Py_Tuple xs \<Rightarrow> map_ok JArray (py_items_to_json P xs [])
                     | _ \<Rightarrow> Err (Py_ValueError ''region request must be a JSON-safe Python object'')))))"
| "py_dict_to_map P [] m = Ok m"
| "py_dict_to_map P ((k, v) # entries) m =
     and_then (ok_or Py_TypeError (extract_string k)) (\<lambda>key.
     and_then (py_any_to_json_value P v) (\<lambda>value.
     py_dict_to_map P entries (bt_insert key value m)))"
| "py_items_to_json P [] out = Ok out"
| "py_items_to_json P (item # items) out =
     and_then (py_any_to_json_value P item) (\<lambda>value. py_items_to_json P items (out @ [value]))"

definition create_region_input_from_any :: "python \<Rightarrow> py_object \<Rightarrow> create_region_request_input py_result" where
  "create_region_input_from_any P request =
     and_then
       (case extract_string request of
          Some raw_json \<Rightarrow>
            map_err (\<lambda>e. Py_ValueError (''create_region expected a dict/object or valid JSON string: '' @ e))
              (pj_parse P raw_json)
        | None \<Rightarrow> py_any_to_json_value P request)
       (\<lambda>value. map_err Py_ValueError (pj_input P value))"


section \<open>The class\<close>

record py_kernel_engine =
  pk_inner :: kernel_engine

type_synonym 'a py_method = "py_kernel_engine \<Rightarrow> py_kernel_engine \<times> 'a py_result"


abbreviation on_inner :: "'a kernel_action \<Rightarrow> (py_kernel_engine, 'a) action" where
  "on_inner \<equiv> on_engine pk_inner (\<lambda>k c. c\<lparr> pk_inner := k \<rparr>)"

definition map_py_err :: "kernel_error \<Rightarrow> py_error" where
  "map_py_err e = Py_ValueError (error_to_string e)"

definition py_call :: "('a \<Rightarrow> string + string) \<Rightarrow> 'a kernel_action \<Rightarrow> string py_method" where
  "py_call text m self =
     (let (self', r) = on_inner m self in (self', and_then (map_error map_py_err r) (to_json text)))"








definition region_request_from_input ::
  "crates \<Rightarrow> create_region_request_input \<Rightarrow> region_create_request py_result" where
  "region_request_from_input X input =
     and_then (parse_region_visibility (ci_visibility input)) (\<lambda>visibility.
     and_then (metadata_from_json X (ci_metadata input)) (\<lambda>metadata.
     Ok \<lparr> rq_region_name = ci_region_name input, rq_region_prefix = ci_region_prefix input,
          rq_suggested_title = ci_suggested_title input, rq_visibility = visibility,
          rq_section = ci_section input, rq_trigger_event_hash = ci_trigger_event_hash input,
          rq_creation_proof = ci_creation_proof input, rq_access_key = ci_access_key input,
          rq_metadata = metadata, rq_request_signature = ci_request_signature input \<rparr>))"

definition py_create_region :: "crates \<Rightarrow> python \<Rightarrow> (nat \<Rightarrow> u64) \<Rightarrow> py_object \<Rightarrow> string py_method" where
  "py_create_region X P clk request self =
     (case create_region_input_from_any P request of
        Err e \<Rightarrow> (self, Err e)
      | Panicked \<Rightarrow> (self, Panicked)
      | Ok input \<Rightarrow>
          (case region_request_from_input X input of
             Err e \<Rightarrow> (self, Err e)
           | Panicked \<Rightarrow> (self, Panicked)
           | Ok request \<Rightarrow> py_call (pj_region P) (create_region X clk request (ci_actor_public_key input)) self))"














section \<open>The module\<close>

text \<open>
  The root of the crate: its modules, and the module of Python. The version of the package is a variable
  of the build. Adding a function or a class to a module is an operation \<open>add\<close> of pyo3, which may fail.
\<close>

definition crate_modules :: "string list" where
  "crate_modules =
     [''certification'', ''consensus'', ''dag'', ''developer'', ''drain'', ''engine'', ''error'', ''event'',
      ''ffi'', ''hash'', ''interpreter'', ''origin'', ''projection'', ''python_api'', ''query'', ''reconstruction'',
      ''record'', ''region'', ''replay'', ''sdk'', ''serialization'', ''signature'', ''snapshot'', ''state'',
      ''storage'', ''transfer'', ''validation'', ''wallet'']"

definition kernel_name :: string where
  "kernel_name = ''v-kernelx''"

definition kernel_version :: "string \<Rightarrow> string" where
  "kernel_version cargo_pkg_version = cargo_pkg_version"

definition exposed_modules :: "string list" where
  "exposed_modules =
     [''certification'', ''consensus'', ''dag'', ''developer'', ''drain'', ''engine'', ''error'', ''event'',
      ''ffi'', ''hash'', ''interpreter'', ''origin'', ''projection'', ''python_api'', ''query'', ''region'',
      ''reconstruction'', ''record'', ''replay'', ''sdk'', ''serialization'', ''signature'', ''snapshot'',
      ''state'', ''storage'', ''transfer'', ''validation'', ''wallet'']"

datatype py_export = Py_Function string | Py_Class string

definition v_kernelx :: "(py_export \<Rightarrow> 'm \<Rightarrow> 'm py_result) \<Rightarrow> 'm \<Rightarrow> 'm py_result" where
  "v_kernelx add m =
     and_then (add (Py_Function ''kernel_name'') m) (\<lambda>m.
     and_then (add (Py_Function ''kernel_version'') m) (\<lambda>m.
     and_then (add (Py_Function ''exposed_modules'') m) (\<lambda>m.
     add (Py_Class ''PyKernelEngine'') m)))"

section \<open>Lemmas\<close>

text \<open>The list Python sees names every module of the crate once.\<close>

lemma exposed_modules_complete: "mset exposed_modules = mset crate_modules" "distinct exposed_modules"
  by code_simp+

lemma v_kernelx_exports:
  assumes "\<And>x m. add x m = Ok (m @ [x])"
  shows "v_kernelx add [] = Ok [Py_Function ''kernel_name'', Py_Function ''kernel_version'', Py_Function ''exposed_modules'',
    Py_Class ''PyKernelEngine'']"
  by (simp add: v_kernelx_def assms)


lemma bt_rebuild_perm:
  assumes "bt_ordered m" "mset kvs = mset m"
  shows "fold (\<lambda>(k, v). bt_insert k v) kvs [] = m"
proof -
  have ord: "bt_ordered (fold (\<lambda>(k, v). bt_insert k v) xs n)" if "bt_ordered n"
    for xs n :: "('a, 'b) btree"
    using that by (induction xs arbitrary: n) auto
  have get: "bt_get (fold (\<lambda>(k, v). bt_insert k v) xs n) q =
      (case bt_get (rev xs) q of Some v \<Rightarrow> Some v | None \<Rightarrow> bt_get n q)" for xs n :: "('a, 'b) btree" and q
    by (induction xs arbitrary: n) (auto simp: map_add_def split: option.split)
  have "mset (map fst kvs) = mset (map fst m)" using assms(2) by simp
  then have d: "distinct (map fst (rev kvs))" "distinct (map fst m)"
    using bt_ordered_distinct [OF assms(1)] mset_eq_imp_distinct_iff [of "map fst kvs" "map fst m"]
    by (simp_all add: rev_map [symmetric] del: rev_map)
  have "set (rev kvs) = set m" using mset_eq_setD [OF assms(2)] by simp
  with d have "map_of (rev kvs) q = Some v \<longleftrightarrow> map_of m q = Some v" for q v
    by (simp only: map_of_eq_Some_iff)
  then have "bt_get (rev kvs) = bt_get m" by (intro ext option_ext) simp
  then show ?thesis
    using ord [of "[]" kvs] get [of kvs "[]"] assms(1)
    by (intro bt_ordered_ext) (auto split: option.split)
qed

text \<open>
  A JSON value and the objects Python has for it: an integer of 64 bits, a string, a list or a tuple,
  and a dictionary with the entries in any order.
\<close>

inductive denotes :: "py_object \<Rightarrow> json \<Rightarrow> bool" where
  denotes_None: "denotes Py_None JNull"
| denotes_Bool: "denotes (Py_Bool b) (JBool b)"
| denotes_Str: "denotes (Py_Str s) (JString s)"
| denotes_Int: "- (2 ^ 63) \<le> i \<Longrightarrow> i < 2 ^ 64 \<Longrightarrow> denotes (Py_Int i) (JNumber (show_int i))"
| denotes_List: "list_all2 denotes xs js \<Longrightarrow> denotes (Py_List xs) (JArray js)"
| denotes_Tuple: "list_all2 denotes xs js \<Longrightarrow> denotes (Py_Tuple xs) (JArray js)"
| denotes_Dict: "map fst es = map (\<lambda>(k, _). Py_Str k) kvs \<Longrightarrow> list_all2 denotes (map snd es) (map snd kvs) \<Longrightarrow>
    bt_ordered m \<Longrightarrow> mset kvs = mset m \<Longrightarrow> denotes (Py_Dict es) (JObject m)"

lemma items_convert:
  "list_all2 (\<lambda>x j. py_any_to_json_value P x = Ok j) xs js \<Longrightarrow> py_items_to_json P xs out = Ok (out @ js)"
  by (induction xs js arbitrary: out rule: list_all2_induct) (simp_all del: py_any_to_json_value.simps)

lemma entries_convert:
  "map fst es = map (\<lambda>(k, _). Py_Str k) kvs \<Longrightarrow>
     list_all2 (\<lambda>x j. py_any_to_json_value P x = Ok j) (map snd es) (map snd kvs) \<Longrightarrow>
     py_dict_to_map P es m = Ok (fold (\<lambda>(k, v). bt_insert k v) kvs m)"
proof (induction es arbitrary: kvs m)
  case (Cons e es)
  then show ?case by (cases e; cases kvs) (auto simp del: py_any_to_json_value.simps)
qed simp

lemma denotes_converts: "denotes x j \<Longrightarrow> py_any_to_json_value P x = Ok j"
proof (induction rule: denotes.induct)
  case (denotes_List xs js)
  then have "list_all2 (\<lambda>x j. py_any_to_json_value P x = Ok j) xs js" by (rule list_all2_mono) blast
  from items_convert [OF this] show ?case by (simp add: py_number_def)
next
  case (denotes_Tuple xs js)
  then have "list_all2 (\<lambda>x j. py_any_to_json_value P x = Ok j) xs js" by (rule list_all2_mono) blast
  from items_convert [OF this] show ?case by (simp add: py_number_def)
next
  case (denotes_Dict es kvs m)
  have "list_all2 (\<lambda>x j. py_any_to_json_value P x = Ok j) (map snd es) (map snd kvs)"
    using denotes_Dict.IH by (rule list_all2_mono) blast
  from entries_convert [OF denotes_Dict.hyps(1) this] bt_rebuild_perm [OF denotes_Dict.hyps(2,3)] show ?case by (simp add: py_number_def)
qed (auto simp: py_number_def)

text \<open>The objects the conversion accepts.\<close>

definition json_number :: "python \<Rightarrow> int \<Rightarrow> bool" where
  "json_number P i \<longleftrightarrow> (- (2 ^ 63) \<le> i \<and> i < 2 ^ 64) \<or> pred_option finite_f64 (pf_of_int P i) \<and> pf_of_int P i \<noteq> None"

fun json_safe :: "python \<Rightarrow> py_object \<Rightarrow> bool" where
  "json_safe P Py_None = True"
| "json_safe P (Py_Bool b) = True"
| "json_safe P (Py_Str s) = True"
| "json_safe P (Py_Int i) = json_number P i"
| "json_safe P (Py_Float f) = finite_f64 f"
| "json_safe P (Py_Dict es) = list_all (\<lambda>(key, x). extract_string key \<noteq> None \<and> json_safe P x) es"
| "json_safe P (Py_List xs) = list_all (json_safe P) xs"
| "json_safe P (Py_Tuple xs) = list_all (json_safe P) xs"
| "json_safe P Py_Other = False"

lemma py_number_cases:
  "py_number P (Py_Int i) =
     (if - (2 ^ 63) \<le> i \<and> i < 2 ^ 64 then Some (Ok (JNumber (show_int i)))
      else map_option (\<lambda>f. if finite_f64 f then Ok (JNumber (pf_text P f))
        else Err (Py_ValueError ''non-finite float not supported'')) (pf_of_int P i))"
  "py_number P (Py_Float f) = Some (if finite_f64 f then Ok (JNumber (pf_text P f))
        else Err (Py_ValueError ''non-finite float not supported''))"
  "py_number P Py_None = None" "py_number P (Py_Bool b) = None" "py_number P (Py_Str s) = None"
  "py_number P (Py_Dict es) = None" "py_number P (Py_List xs) = None" "py_number P (Py_Tuple xs) = None"
  "py_number P Py_Other = None"
  by (auto simp: py_number_def split: option.split)

lemma conversion_decides:
  "is_ok (py_any_to_json_value P x) = json_safe P x \<and> py_any_to_json_value P x \<noteq> Panicked"
  "is_ok (py_dict_to_map P es m) = list_all (\<lambda>(key, x). extract_string key \<noteq> None \<and> json_safe P x) es \<and>
     py_dict_to_map P es m \<noteq> Panicked"
  "is_ok (py_items_to_json P xs out) = list_all (json_safe P) xs \<and> py_items_to_json P xs out \<noteq> Panicked"
proof (induction P x and P es m and P xs out rule: py_any_to_json_value_py_dict_to_map_py_items_to_json.induct)
  case (1 P x)
  then show ?case
    by (cases x) (auto simp: py_number_cases json_number_def is_ok_iff and_then_Panicked split: option.split)
next
  case (3 P k v es m)
  show ?case
  proof (cases "extract_string k")
    case (Some key)
    with 3 show ?thesis
      by (cases "py_any_to_json_value P v") (auto simp del: py_any_to_json_value.simps)
  qed simp
next
  case (5 P x xs out)
  then show ?case by (cases "py_any_to_json_value P x") (auto simp del: py_any_to_json_value.simps)
qed simp_all


lemma show_int_inject: "show_int i = show_int j \<longleftrightarrow> i = j"
proof -
  have "CHR ''-'' # s \<noteq> show_nat n" for s n
    using hd_show_nat_no_sign(2) [of n] by (metis list.sel(1))
  then have "show_nat n \<noteq> CHR ''-'' # s" "CHR ''-'' # s \<noteq> show_nat n" for s n by metis+
  then show ?thesis by (auto simp: show_int_def)
qed

text \<open>The double of an integer from \<open>2^63\<close> on loses the last bits of it.\<close>

definition sample_python :: python where
  "sample_python = \<lparr> pf_of_int = \<lambda>i. if i < 2 ^ 1023 then Some 0x43F0000000000000 else None,
     pf_text = \<lambda>_. ''1.8446744073709552e19'', pj_parse = \<lambda>_. Inl ''expected value'',
     pj_input = \<lambda>_. Inl ''missing field'', pj_state = \<lambda>_. Inr ''{}'', pj_pair = \<lambda>_. Inr ''[]'',
     pj_state_option = \<lambda>_. Inr ''null'', pj_states = \<lambda>_. Inr ''[]'', pj_records = \<lambda>_. Inr ''[]'',
     pj_event_option = \<lambda>_. Inr ''null'', pj_region = \<lambda>_. Inr ''{}'', pj_region_option = \<lambda>_. Inr ''null'',
     pj_regions = \<lambda>_. Inr ''[]'', pj_string_option = \<lambda>_. Inr ''null'', pj_bool = \<lambda>_. Inr ''true'',
     pj_replay = \<lambda>_. Inr ''{}'', pj_root = \<lambda>_. Inr ''{}'', pj_value = \<lambda>_. Inr ''{}'' \<rparr>"

section \<open>The calls in Python\<close>









section \<open>Properties\<close>



text \<open>
  C30: A region request in Python means what its JSON text means: the conversion gives back the value an
  object denotes, whichever of list and tuple it uses and in whatever order its dictionaries are, so
  \<open>create_region\<close> does the same on a text as on the object the text denotes.
\<close>

theorem python_request_denotes:
  assumes "denotes request value" "pj_parse P text = Inr value" "\<forall>s. request \<noteq> Py_Str s"
  shows "py_any_to_json_value P request = Ok value \<and>
    py_create_region X P clk request = py_create_region X P clk (Py_Str text)"
proof -
  have c: "py_any_to_json_value P request = Ok value" by (rule denotes_converts [OF assms(1)])
  moreover have "extract_string request = None" using assms(3) by (cases request) simp_all
  ultimately have "create_region_input_from_any P request = create_region_input_from_any P (Py_Str text)"
    using assms(2) by (simp add: create_region_input_from_any_def del: py_any_to_json_value.simps)
  then have "py_create_region X P clk request = py_create_region X P clk (Py_Str text)"
    by (intro ext) (simp only: py_create_region_def)
  with c show ?thesis ..
qed

theorem python_request_denotes_witness:
  "py_any_to_json_value (sample_python\<lparr> pj_parse := \<lambda>_. Inr (JObject [(''a'', JArray [JNull]), (''b'', JNumber ''-1'')]) \<rparr>)
     (Py_Dict [(Py_Str ''b'', Py_Int (- 1)), (Py_Str ''a'', Py_Tuple [Py_None])]) =
   Ok (JObject [(''a'', JArray [JNull]), (''b'', JNumber ''-1'')])"
proof -
  have n: "show_int (- 1) = ''-1''" by (simp add: show_int_def show_nat.simps digit_char_def) code_simp
  have "''a'' < ''b''" by code_simp
  then have o: "bt_ordered [(''a'', JArray [JNull]), (''b'', JNumber ''-1'')]" by (simp add: bt_ordered_def)
  have d: "denotes (Py_Dict [(Py_Str ''b'', Py_Int (- 1)), (Py_Str ''a'', Py_Tuple [Py_None])])
      (JObject [(''a'', JArray [JNull]), (''b'', JNumber ''-1'')])"
    by (rule denotes_Dict [where kvs = "[(''b'', JNumber ''-1''), (''a'', JArray [JNull])]", OF _ _ o])
      (use denotes_Int [of "- 1"] denotes_Tuple [of "[Py_None]" "[JNull]"] denotes_None n in simp_all)
  show ?thesis
    using python_request_denotes [OF d, of "sample_python\<lparr> pj_parse := \<lambda>_. Inr (JObject [(''a'', JArray [JNull]), (''b'', JNumber ''-1'')]) \<rparr>"]
    by (simp del: py_any_to_json_value.simps)
qed

text \<open>
  The conversion of a Python object returns a value for the objects built of None, booleans,
  strings, finite numbers, lists, tuples and dictionaries with string keys, raises an exception for
  every other, and never panics.
\<close>

theorem python_conversion_decides:
  "((\<exists>value. py_any_to_json_value P obj = Ok value) \<longleftrightarrow> json_safe P obj) \<and> py_any_to_json_value P obj \<noteq> Panicked"
  using conversion_decides(1) [of P obj] by (metis is_ok_iff)

text \<open>
  An integer of Python keeps its value only where it fits 64 bits: from \<open>- 2^63\<close> up to \<open>2^64\<close> different
  integers give different numbers, and outside integers with the same nearest double give the same one,
  so the metadata of a region stores a large integer rounded.
\<close>

theorem python_integers_round:
  "(- (2 ^ 63) \<le> i \<and> i < 2 ^ 64 \<and> - (2 ^ 63) \<le> j \<and> j < 2 ^ 64 \<longrightarrow>
      (py_any_to_json_value P (Py_Int i) = py_any_to_json_value P (Py_Int j) \<longleftrightarrow> i = j)) \<and>
   (2 ^ 64 \<le> i \<and> 2 ^ 64 \<le> j \<and> pf_of_int P i = pf_of_int P j \<longrightarrow>
      py_any_to_json_value P (Py_Int i) = py_any_to_json_value P (Py_Int j) \<and>
      py_any_to_json_value P (Py_Dict [(Py_Str key, Py_Int i)]) = py_any_to_json_value P (Py_Dict [(Py_Str key, Py_Int j)]))"
proof -
  have "py_any_to_json_value P (Py_Int n) = Ok (JNumber (show_int n))" if "- (2 ^ 63) \<le> n" "n < 2 ^ 64" for n
    using denotes_converts [OF denotes_Int [OF that]] .
  moreover have "py_number P (Py_Int i) = py_number P (Py_Int j)"
    if "2 ^ 64 \<le> i" "2 ^ 64 \<le> j" "pf_of_int P i = pf_of_int P j"
    using that by (simp add: py_number_cases del: py_any_to_json_value.simps)
  then have "py_any_to_json_value P (Py_Int i) = py_any_to_json_value P (Py_Int j)"
    if "2 ^ 64 \<le> i" "2 ^ 64 \<le> j" "pf_of_int P i = pf_of_int P j"
    using that by (simp add: py_any_to_json_value.simps [of P "Py_Int _"] split: option.split)
  moreover have "py_any_to_json_value P (Py_Dict [(Py_Str key, x)]) =
      and_then (py_any_to_json_value P x) (\<lambda>v. Ok (JObject [(key, v)]))" for x
    by (cases "py_any_to_json_value P x")
      (simp_all add: py_any_to_json_value.simps [of P "Py_Dict _"] py_number_cases del: py_any_to_json_value.simps)
  ultimately show ?thesis by (simp add: show_int_inject del: py_any_to_json_value.simps)
qed

theorem python_integers_round_witness:
  "py_any_to_json_value sample_python (Py_Dict [(Py_Str ''n'', Py_Int (2 ^ 64))]) =
   py_any_to_json_value sample_python (Py_Dict [(Py_Str ''n'', Py_Int (2 ^ 64 + 1))])"
  using python_integers_round [of "2 ^ 64" "2 ^ 64 + 1" sample_python "''n''"] by (simp add: sample_python_def)

end
