(* ===== verification/Foreign_Requests.thy ===== *)
theory Foreign_Requests
  imports Interpreter
begin

text \<open>
  The first part of \<^verbatim>\<open>src/src/ffi.rs\<close>: the requests of the C interface, their parsing and validation,
  the checks of events, and the replay summary of an engine.

  What \<open>serde_json\<close> makes of a text or of a value for each of the request types is a field of the
  argument \<open>F\<close>, and so are the JSON values it makes of the states, events and records of the sources; the
  macro \<open>json!\<close> panics where there is none. \<open>X\<close> is the argument of the engine.
\<close>

section \<open>Requests\<close>

record submit_event_request =
  sq_request_id :: string
  sq_operation :: string
  sq_actor_public_key :: string
  sq_signature :: string
  sq_params :: json

record reconstruct_request =
  xq_vector_id :: string
  xq_outcome_tag :: string
  xq_gains :: "u128 list"
  xq_losses :: "u128 list"

record origin_create_request =
  oq_vector_id :: string
  oq_owner_pubkey :: string
  oq_space_id :: string
  oq_components :: "u128 list"
  oq_seed :: string
  oq_nonce :: u64
  oq_difficulty :: u32

record transfer_request =
  tq_from_id :: string
  tq_to_id :: string
  tq_amount :: "u128 list"

record drain_request =
  dq_vector_id :: string
  dq_basis_points :: u16

record project_request =
  pq_vector_id :: string
  pq_projected_components :: "u128 list"
  pq_escrow_id :: string

record certify_request =
  cq_vector_id :: string

record query_vector_request =
  qq_vector_id :: string

record query_event_by_hash_request =
  hq_event_hash :: string

record 'a reader =
  from_str :: "string \<Rightarrow> string + 'a"
  from_value :: "json \<Rightarrow> string + 'a"

record foreign =
  fj_value :: "string \<Rightarrow> string + json"
  fj_value_text :: "json \<Rightarrow> string + string"
  fj_event :: "vector_event reader"
  fj_events :: "vector_event list reader"
  fj_submit :: "submit_event_request reader"
  fj_submits :: "submit_event_request list reader"
  fj_origin :: "origin_create_request reader"
  fj_transfer :: "transfer_request reader"
  fj_drain :: "drain_request reader"
  fj_project :: "project_request reader"
  fj_reconstruct :: "reconstruct_request reader"
  fj_certify :: "certify_request reader"
  fj_query_vector :: "query_vector_request reader"
  fj_query_event :: "query_event_by_hash_request reader"
  fj_of_state :: "vector_state_v1 \<Rightarrow> json option"
  fj_of_event :: "vector_event \<Rightarrow> json option"
  fj_of_record :: "vector_record_v1 \<Rightarrow> json option"
  fj_of_states :: "(string, vector_state) btree \<Rightarrow> json option"

text \<open>The value of a part of \<open>json!\<close>, and of a list of parts.\<close>

definition json_part :: "json option \<Rightarrow> json text_outcome" where
  "json_part j = (case j of Some v \<Rightarrow> Ok v | None \<Rightarrow> Panicked)"

definition json_parts :: "('a \<Rightarrow> json option) \<Rightarrow> 'a list \<Rightarrow> json text_outcome" where
  "json_parts f xs =
     (if list_all (\<lambda>x. f x \<noteq> None) xs then Ok (JArray (map (\<lambda>x. the (f x)) xs)) else Panicked)"

section \<open>Strings across the boundary\<close>

text \<open>
  The check of \<open>str::from_utf8\<close>: \<open>None\<close> for valid UTF-8, otherwise the length of the valid part and the
  length of the invalid sequence, which is \<open>None\<close> where the input ends inside a character.
\<close>

definition continuation :: "nat \<Rightarrow> bool" where
  "continuation b \<longleftrightarrow> 128 \<le> b \<and> b < 192"

definition utf8_width :: "nat \<Rightarrow> nat" where
  "utf8_width b =
     (if b < 128 then 1 else if 194 \<le> b \<and> b \<le> 223 then 2 else if 224 \<le> b \<and> b \<le> 239 then 3
      else if 240 \<le> b \<and> b \<le> 244 then 4 else 0)"

definition second_ok :: "nat \<Rightarrow> nat \<Rightarrow> bool" where
  "second_ok b c \<longleftrightarrow>
     (if b = 224 then 160 \<le> c \<and> c < 192 else if b = 237 then 128 \<le> c \<and> c < 160
      else if b = 240 then 144 \<le> c \<and> c < 192 else if b = 244 then 128 \<le> c \<and> c < 144
      else continuation c)"

fun utf8_check :: "nat \<Rightarrow> nat list \<Rightarrow> (nat \<times> nat option) option" where
  "utf8_check i [] = None"
| "utf8_check i (b # bs) =
     (if utf8_width b = 1 then utf8_check (i + 1) bs
      else if utf8_width b = 0 then Some (i, Some 1)
      else case bs of
        [] \<Rightarrow> Some (i, None)
      | c # cs \<Rightarrow>
          if \<not> second_ok b c then Some (i, Some 1)
          else if utf8_width b = 2 then utf8_check (i + 2) cs
          else (case cs of
            [] \<Rightarrow> Some (i, None)
          | d # ds \<Rightarrow>
              if \<not> continuation d then Some (i, Some 2)
              else if utf8_width b = 3 then utf8_check (i + 3) ds
              else (case ds of
                [] \<Rightarrow> Some (i, None)
              | e # es \<Rightarrow> if \<not> continuation e then Some (i, Some 3) else utf8_check (i + 4) es)))"

definition utf8_error :: "nat \<times> nat option \<Rightarrow> string" where
  "utf8_error p =
     (case p of
        (i, Some n) \<Rightarrow> ''invalid utf-8 sequence of '' @ show_nat n @ '' bytes from index '' @ show_nat i
      | (i, None) \<Rightarrow> ''incomplete utf-8 byte sequence from index '' @ show_nat i)"

text \<open>A pointer to a C string is \<open>None\<close> where it is null, and the bytes before the terminating zero.\<close>

type_synonym c_string = "string option"

definition from_c_string :: "c_string \<Rightarrow> string text_outcome" where
  "from_c_string ptr =
     (case ptr of
        None \<Rightarrow> Err ''null pointer passed to kernel FFI''
      | Some s \<Rightarrow>
          (case utf8_check 0 (map of_char s) of
             None \<Rightarrow> Ok s
           | Some p \<Rightarrow> Err (''utf8 error in FFI string: '' @ utf8_error p)))"

definition to_c_string :: "string \<Rightarrow> string" where
  "to_c_string s =
     (if CHR 0x00 \<in> set s then ''{'' @ [CHR 0x22] @ ''ok'' @ [CHR 0x22] @ '':false,'' @ [CHR 0x22] @ ''error'' @
        [CHR 0x22] @ '':'' @ [CHR 0x22] @ ''invalid cstring'' @ [CHR 0x22] @ ''}''
      else s)"

definition ffi_ok_json :: "crates \<Rightarrow> json \<Rightarrow> string" where
  "ffi_ok_json X v =
     to_c_string (sd_text (cr_serde X) (json_object [(''ok'', JBool True), (''result'', v)]))"

definition ffi_err_json :: "crates \<Rightarrow> string \<Rightarrow> string" where
  "ffi_err_json X error =
     to_c_string (sd_text (cr_serde X) (json_object [(''ok'', JBool False), (''error'', JString error)]))"

section \<open>Parsing\<close>

definition parse_event :: "foreign \<Rightarrow> string \<Rightarrow> vector_event text_outcome" where
  "parse_event F input = map_err (\<lambda>e. ''event parse error: '' @ e) (from_str (fj_event F) input)"

definition parse_event_list :: "foreign \<Rightarrow> string \<Rightarrow> vector_event list text_outcome" where
  "parse_event_list F input =
     (case from_str (fj_events F) input of
        Inr v \<Rightarrow> Ok v
      | Inl _ \<Rightarrow>
          and_then (map_err (\<lambda>e. ''batch parse error: '' @ e) (fj_value F input)) (\<lambda>v.
          case json_get v ''events'' of
            Some events \<Rightarrow> map_err (\<lambda>e. ''batch events parse error: '' @ e) (from_value (fj_events F) events)
          | None \<Rightarrow> Err ''missing events array''))"

definition parse_submit_request :: "foreign \<Rightarrow> string \<Rightarrow> submit_event_request text_outcome" where
  "parse_submit_request F input =
     map_err (\<lambda>e. ''submit request parse error: '' @ e) (from_str (fj_submit F) input)"

definition parse_submit_request_list :: "foreign \<Rightarrow> string \<Rightarrow> submit_event_request list text_outcome" where
  "parse_submit_request_list F input =
     (case from_str (fj_submits F) input of
        Inr v \<Rightarrow> Ok v
      | Inl _ \<Rightarrow>
          and_then (map_err (\<lambda>e. ''submit batch parse error: '' @ e) (fj_value F input)) (\<lambda>v.
          case json_get v ''requests'' of
            Some requests \<Rightarrow>
              map_err (\<lambda>e. ''submit batch request parse error: '' @ e) (from_value (fj_submits F) requests)
          | None \<Rightarrow> Err ''missing requests array''))"

definition canonical_submit_request_bytes ::
  "crates \<Rightarrow> foreign \<Rightarrow> submit_event_request \<Rightarrow> bytes text_outcome" where
  "canonical_submit_request_bytes X F req =
     (let payload = bt_insert ''request_id'' (sq_request_id req) [];
          payload = bt_insert ''operation'' (sq_operation req) payload;
          payload = bt_insert ''actor_public_key'' (sq_actor_public_key req) payload
      in and_then (map_err (\<lambda>e. ''canonical request serialization error: '' @ e) (fj_value_text F (sq_params req)))
         (\<lambda>params.
         map_ok as_bytes (map_err (\<lambda>e. ''canonical request serialization error: '' @ e)
           (cr_map_json X (bt_insert ''params'' params payload)))))"

definition operation_name :: "string \<Rightarrow> string" where
  "operation_name operation = to_ascii_lowercase (trim operation)"

definition shape :: "string \<Rightarrow> 'a reader \<Rightarrow> json \<Rightarrow> unit text_outcome" where
  "shape label reader params =
     map_ok (\<lambda>_. ()) (map_err (\<lambda>e. label @ '' params invalid: '' @ e) (from_value reader params))"

definition validate_operation_shape :: "foreign \<Rightarrow> string \<Rightarrow> json \<Rightarrow> unit text_outcome" where
  "validate_operation_shape F operation params =
     (let name = operation_name operation
      in if name = ''origin_create'' \<or> name = ''create'' \<or> name = ''origin''
           then shape ''origin_create'' (fj_origin F) params
         else if name = ''transfer'' then shape ''transfer'' (fj_transfer F) params
         else if name = ''drain'' then shape ''drain'' (fj_drain F) params
         else if name = ''project'' then shape ''project'' (fj_project F) params
         else if name = ''reconstruct'' then shape ''reconstruct'' (fj_reconstruct F) params
         else if name = ''certify'' then shape ''certify'' (fj_certify F) params
         else Err (''unsupported operation: '' @ name))"

section \<open>Validation\<close>

record kernel_inner =
  ki_engine :: kernel_engine
  ki_last_error :: "string option"
  ki_seen :: "string set"

definition validate_submit_request ::
  "crates \<Rightarrow> foreign \<Rightarrow> kernel_inner \<Rightarrow> submit_event_request \<Rightarrow> json text_outcome" where
  "validate_submit_request X F inner request =
     (if trim (sq_request_id request) = [] then Err ''missing request_id''
      else if trim (sq_actor_public_key request) = [] then Err ''missing actor_public_key''
      else if trim (sq_signature request) = [] then Err ''missing signature''
      else
        and_then (validate_operation_shape F (sq_operation request) (sq_params request)) (\<lambda>_.
        if sq_request_id request \<in> ki_seen inner
        then Err (''duplicate request_id: '' @ sq_request_id request)
        else
          and_then (map_err (\<lambda>e. e) (verifying_key_from_hex (cr_ed X) (sq_actor_public_key request)))
            (\<lambda>verifying_key.
          and_then (canonical_submit_request_bytes X F request) (\<lambda>bs.
          and_then (map_err (\<lambda>e. ''request signature verification error: '' @ e)
            (verify_event_signature (cr_ed X) verifying_key bs (sq_signature request))) (\<lambda>signature_ok.
          if \<not> signature_ok then Err ''request signature verification failed''
          else Ok (json_object
            [(''request_id'', JString (sq_request_id request)), (''operation'', JString (sq_operation request)),
             (''shape_ok'', JBool True), (''signature_ok'', JBool True)]))))))"

text \<open>The verdict on the signature of an event: whether it holds, and the error of the check.\<close>

definition event_signature_verdict :: "crates \<Rightarrow> vector_event \<Rightarrow> bool \<times> string option" where
  "event_signature_verdict X event =
     (if ev_actor_public_key event \<noteq> [] \<and> ev_signature event \<noteq> [] then
        (case verifying_key_from_hex (cr_ed X) (ev_actor_public_key event) of
           Inr vk \<Rightarrow>
             (case verify_event_signature (cr_ed X) vk (canonical_event_payload_bytes event) (ev_signature event) of
                Inr ok \<Rightarrow> (ok, None)
              | Inl e \<Rightarrow> (False, Some e))
         | Inl e \<Rightarrow> (False, Some e))
      else (False, None))"

definition json_opt_string :: "string option \<Rightarrow> json" where
  "json_opt_string s = (case s of Some t \<Rightarrow> JString t | None \<Rightarrow> JNull)"

definition validate_event_internal :: "crates \<Rightarrow> vector_event \<Rightarrow> json text_outcome" where
  "validate_event_internal X event =
     (let structure_ok = is_ok (validate_event (cr_hash X) (cr_ed X) event);
          payload_hash = canonical_payload_hash (cr_hash X) event;
          event_hash = canonical_event_hash (cr_hash X) event;
          (signature_ok, signature_error) = event_signature_verdict X event;
          hashes_ok = (payload_hash = ev_payload_hash event \<and> event_hash = ev_event_hash event);
          dag_ok = is_ok (validate_dag [event])
      in Ok (json_object
        [(''event_id'', JString (ev_event_id event)), (''structure_ok'', JBool structure_ok),
         (''payload_hash_ok'', JBool (payload_hash = ev_payload_hash event)),
         (''event_hash_ok'', JBool (event_hash = ev_event_hash event)), (''hashes_ok'', JBool hashes_ok),
         (''signature_ok'', JBool signature_ok), (''signature_error'', json_opt_string signature_error),
         (''dag_ok'', JBool dag_ok)]))"

fun as_bool :: "json \<Rightarrow> bool option" where
  "as_bool (JBool b) = Some b"
| "as_bool _ = None"

definition flag :: "json \<Rightarrow> string \<Rightarrow> bool" where
  "flag j key = unwrap_or False (Option.bind (json_get j key) as_bool)"

section \<open>Replay\<close>

definition sort_events :: "vector_event list \<Rightarrow> vector_event list" where
  "sort_events events = sort_key canonical_event_sort_key events"

definition compute_heads :: "vector_event list \<Rightarrow> string list" where
  "compute_heads events =
     (if events = [] then []
      else
        let referenced_as_parent =
              fold (\<lambda>event seen. fold insert (ev_parent_hashes event) seen) events {};
            heads = map ev_event_hash (filter (\<lambda>event. ev_event_hash event \<notin> referenced_as_parent) events)
        in remdups_adj (sort heads))"

definition json_u64 :: "u64 \<Rightarrow> json" where
  "json_u64 n = json_word n"

definition replay_json :: "state_root \<Rightarrow> string \<Rightarrow> string list \<Rightarrow> json \<Rightarrow> u64 \<Rightarrow> u64 \<Rightarrow> string list \<Rightarrow> json" where
  "replay_json root replay_hash applied final_state event_count latest_clock heads = json_object
     [(''state_root'', state_root_json root), (''replay_hash'', JString replay_hash),
      (''applied_event_hashes'', JArray (map JString applied)), (''final_state'', final_state),
      (''event_count'', json_u64 event_count), (''latest_clock'', json_u64 latest_clock),
      (''heads'', JArray (map JString heads)), (''verified'', JBool True)]"

definition replay_from_events :: "crates \<Rightarrow> foreign \<Rightarrow> vector_event list \<Rightarrow> json text_outcome" where
  "replay_from_events X F events =
     and_then (if events = [] then Ok []
       else map_error (\<lambda>e. ''batch ordering error: '' @ e) (topological_order events)) (\<lambda>ordered.
     if ordered = [] then
       and_then (json_part (fj_of_states F [])) (\<lambda>empty_state.
       Ok (replay_json (compute_state_root (cr_hash X) [] 0) [] [] empty_state 0 0 []))
     else
       and_then (map_error (\<lambda>e. ''replay error: '' @ e)
         (replay_events (cr_hash X) (cr_map_json X) (cr_region_json X) ordered)) (\<lambda>result.
       and_then (json_part (fj_of_states F (rr_final_state result))) (\<lambda>final_state.
       Ok (replay_json (rr_state_root result) (rr_replay_hash result) (rr_applied_event_hashes result)
         final_state (of_nat (length (rr_applied_event_hashes result)))
         (sr_logical_clock (rr_state_root result)) (compute_heads ordered)))))"

definition engine_events :: "kernel_engine \<Rightarrow> vector_event list text_outcome" where
  "engine_events k = Ok (query_events k)"

definition engine_replay_summary :: "crates \<Rightarrow> foreign \<Rightarrow> kernel_engine \<Rightarrow> json text_outcome" where
  "engine_replay_summary X F k =
     and_then (map_error error_to_string (replay_canonical_history X k)) (\<lambda>replay.
     and_then (engine_events k) (\<lambda>events.
     let heads = compute_heads events
     in and_then (replay_from_events X F events) (\<lambda>canonical_replay.
        if unwrap_or JNull (json_get canonical_replay ''state_root'') \<noteq> state_root_json (rr_state_root replay)
        then Err ''replay divergence detected between engine replay and canonical batch replay''
        else if unwrap_or JNull (json_get canonical_replay ''replay_hash'') \<noteq> JString (rr_replay_hash replay)
        then Err ''replay hash divergence detected between engine replay and canonical batch replay''
        else
          and_then (json_part (fj_of_states F (rr_final_state replay))) (\<lambda>final_state.
          Ok (replay_json (rr_state_root replay) (rr_replay_hash replay) (rr_applied_event_hashes replay)
            final_state (of_nat (length (rr_applied_event_hashes replay)))
            (sr_logical_clock (rr_state_root replay)) heads)))))"

definition collect_new_events :: "vector_event list \<Rightarrow> vector_event list \<Rightarrow> vector_event list" where
  "collect_new_events before after =
     (let before_hashes = set (map ev_event_hash before);
          new_events = filter (\<lambda>event. ev_event_hash event \<notin> before_hashes) after
      in sort_events new_events)"

end
