(* ===== verification/Foreign.thy ===== *)
theory Foreign
  imports Foreign_Requests
begin

text \<open>
  The second part of \<^verbatim>\<open>src/src/ffi.rs\<close>: the kernel handle and the functions of the C interface.

  A handle holds its state behind a \<open>std::sync::Mutex\<close>. Locking a mutex in the thread that holds it
  does not return (the documentation of \<open>Mutex::lock\<close> leaves open whether it deadlocks or panics): such
  a call is \<open>Stuck\<close>. A guard is released where its variable goes out of scope, at the end of the
  function, and not at its last use. A panic that reaches an \<open>extern "C"\<close> function aborts the process.
  A pointer to a handle is \<open>None\<close> where it is null; the callers must not pass others than live ones.
\<close>

section \<open>Calls\<close>

datatype 'a call = Returns 'a | Stuck | Aborts

record kernel_handle =
  kh_inner :: kernel_inner
  kh_locked :: bool
  kh_poisoned :: bool

type_synonym 'a ffi = "kernel_handle \<Rightarrow> kernel_handle \<times> 'a call"

definition ffi_return :: "'a \<Rightarrow> 'a ffi" where
  "ffi_return x h = (h, Returns x)"

definition ffi_bind :: "'a ffi \<Rightarrow> ('a \<Rightarrow> 'b ffi) \<Rightarrow> 'b ffi" where
  "ffi_bind m f h =
     (case m h of (h', Returns x) \<Rightarrow> f x h' | (h', Stuck) \<Rightarrow> (h', Stuck) | (h', Aborts) \<Rightarrow> (h', Aborts))"

text \<open>The end of the scope of a guard.\<close>

definition release :: "'a \<Rightarrow> 'a ffi" where
  "release x h = (h\<lparr> kh_locked := False \<rparr>, Returns x)"

definition set_last_error :: "string \<Rightarrow> unit ffi" where
  "set_last_error msg h =
     (if kh_locked h then (h, Stuck)
      else if kh_poisoned h then (h, Returns ())
      else (h\<lparr> kh_inner := (kh_inner h)\<lparr> ki_last_error := Some msg \<rparr> \<rparr>, Returns ()))"

definition clear_last_error :: "unit ffi" where
  "clear_last_error h =
     (if kh_locked h then (h, Stuck)
      else if kh_poisoned h then (h, Returns ())
      else (h\<lparr> kh_inner := (kh_inner h)\<lparr> ki_last_error := None \<rparr> \<rparr>, Returns ()))"

definition last_error_string :: "string option ffi" where
  "last_error_string h =
     (if kh_locked h then (h, Stuck)
      else if kh_poisoned h then (h, Returns None)
      else (h, Returns (ki_last_error (kh_inner h))))"

text \<open>
  What the functions do under the lock: the arm for a poisoned lock runs while the error of the
  \<open>lock\<close>, which holds the guard, is still alive, and so do the arms for the result of \<open>body\<close>.
\<close>

type_synonym 'a task = "kernel_inner \<Rightarrow> kernel_inner \<times> 'a text_outcome"

definition task_get :: "(kernel_inner \<Rightarrow> 'a text_outcome) \<Rightarrow> 'a task" where
  "task_get f i = (i, f i)"

definition under_lock ::
  "crates \<Rightarrow> 'a task \<Rightarrow> ('a \<Rightarrow> string ffi) \<Rightarrow> (string \<Rightarrow> string ffi) \<Rightarrow> string ffi" where
  "under_lock X body on_ok on_err h =
     (if kh_locked h then (h, Stuck)
      else
        let h = h\<lparr> kh_locked := True \<rparr>
        in if kh_poisoned h then
             (let msg = ''kernel state lock poisoned''
              in ffi_bind (set_last_error msg) (\<lambda>_. release (ffi_err_json X msg)) h)
           else
             (case body (kh_inner h) of
                (i, Ok x) \<Rightarrow> ffi_bind (on_ok x) release (h\<lparr> kh_inner := i \<rparr>)
              | (i, Err e) \<Rightarrow> ffi_bind (on_err e) release (h\<lparr> kh_inner := i \<rparr>)
              | (i, Panicked) \<Rightarrow> (h\<lparr> kh_inner := i \<rparr>, Aborts)))"

definition report_ok :: "crates \<Rightarrow> json \<Rightarrow> string ffi" where
  "report_ok X v = ffi_bind clear_last_error (\<lambda>_. ffi_return (ffi_ok_json X v))"

definition report_err :: "crates \<Rightarrow> string \<Rightarrow> string ffi" where
  "report_err X e = ffi_bind (set_last_error e) (\<lambda>_. ffi_return (ffi_err_json X e))"

text \<open>The checks the functions begin with: the handle, the input and its parsing.\<close>

definition on_handle ::
  "crates \<Rightarrow> string ffi \<Rightarrow> kernel_handle option \<Rightarrow> kernel_handle option \<times> string call" where
  "on_handle X m handle =
     (case handle of
        None \<Rightarrow> (None, Returns (ffi_err_json X ''kernel handle is null''))
      | Some h \<Rightarrow> (let (h', r) = m h in (Some h', r)))"

definition checked_input :: "crates \<Rightarrow> 'a text_outcome \<Rightarrow> ('a \<Rightarrow> string ffi) \<Rightarrow> string ffi" where
  "checked_input X r f =
     (case r of Ok x \<Rightarrow> f x | Err e \<Rightarrow> report_err X e | Panicked \<Rightarrow> (\<lambda>h. (h, Aborts)))"

definition read_request :: "string \<Rightarrow> 'a reader \<Rightarrow> string \<Rightarrow> 'a text_outcome" where
  "read_request label reader input = map_err (\<lambda>e. label @ '' parse error: '' @ e) (from_str reader input)"

section \<open>Operations\<close>

definition json_values :: "(string \<times> json option) list \<Rightarrow> json text_outcome" where
  "json_values entries =
     (if list_all (\<lambda>(k, v). v \<noteq> None) entries then Ok (json_object (map (\<lambda>(k, v). (k, the v)) entries))
      else Panicked)"

definition execute_and_collect ::
  "crates \<Rightarrow> foreign \<Rightarrow> string \<Rightarrow> (kernel_engine \<Rightarrow> kernel_engine \<times> json text_outcome) \<Rightarrow> json task" where
  "execute_and_collect X F operation f inner =
     (case engine_events (ki_engine inner) of
        Err e \<Rightarrow> (inner, Err e)
      | Panicked \<Rightarrow> (inner, Panicked)
      | Ok before_events \<Rightarrow>
          let (k, r) = f (ki_engine inner);
              inner = inner\<lparr> ki_engine := k \<rparr>
          in (inner,
              and_then r (\<lambda>operation_result.
              and_then (engine_events k) (\<lambda>after_events.
              let new_events = collect_new_events before_events after_events
              in if new_events = []
                 then Err (operation @ '' completed without emitting a canonical event'')
                 else
                   and_then (engine_replay_summary X F k) (\<lambda>replay.
                   let event_count = of_nat (length after_events) :: u64;
                       latest_clock = unwrap_or 0 (Option.bind (json_get replay ''latest_clock'') as_u64)
                   in and_then (json_parts (fj_of_event F) new_events) (\<lambda>records.
                      Ok (json_object
                        [(''accepted'', JBool True), (''operation'', JString operation),
                         (''result'', operation_result), (''records'', records),
                         (''event_count'', json_u64 event_count), (''latest_clock'', json_u64 latest_clock),
                         (''replay'', replay)])))))))"

text \<open>The closures: the operation, its error as text, its states as JSON.\<close>

definition state_operation ::
  "foreign \<Rightarrow> vector_state_v1 kernel_action \<Rightarrow> kernel_engine \<Rightarrow> kernel_engine \<times> json text_outcome" where
  "state_operation F m k =
     (let (k', r) = m k
      in (k', and_then (map_error error_to_string r) (\<lambda>state. json_values [(''state'', fj_of_state F state)])))"

definition pair_operation ::
  "foreign \<Rightarrow> (vector_state_v1 \<times> vector_state_v1) kernel_action \<Rightarrow> kernel_engine \<Rightarrow>
     kernel_engine \<times> json text_outcome" where
  "pair_operation F m k =
     (let (k', r) = m k
      in (k', and_then (map_error error_to_string r) (\<lambda>(from_state, to_state).
         json_values [(''from_state'', fj_of_state F from_state), (''to_state'', fj_of_state F to_state)])))"

definition origin_task :: "crates \<Rightarrow> foreign \<Rightarrow> (nat \<Rightarrow> u64) \<Rightarrow> origin_create_request \<Rightarrow> json task" where
  "origin_task X F clk q = execute_and_collect X F ''origin_create'' (state_operation F
     (origin_create X clk (oq_vector_id q) (oq_owner_pubkey q) (oq_space_id q) (oq_components q)
       (oq_seed q) (oq_nonce q) (oq_difficulty q)))"

definition transfer_task :: "crates \<Rightarrow> foreign \<Rightarrow> (nat \<Rightarrow> u64) \<Rightarrow> transfer_request \<Rightarrow> json task" where
  "transfer_task X F clk q = execute_and_collect X F ''transfer'' (pair_operation F
     (transfer X clk (tq_from_id q) (tq_to_id q) (tq_amount q)))"

definition drain_task :: "crates \<Rightarrow> foreign \<Rightarrow> (nat \<Rightarrow> u64) \<Rightarrow> drain_request \<Rightarrow> json task" where
  "drain_task X F clk q = execute_and_collect X F ''drain'' (state_operation F
     (drain X clk (dq_vector_id q) (dq_basis_points q)))"

definition project_task :: "crates \<Rightarrow> foreign \<Rightarrow> (nat \<Rightarrow> u64) \<Rightarrow> project_request \<Rightarrow> json task" where
  "project_task X F clk q = execute_and_collect X F ''project'' (state_operation F
     (project X clk (pq_vector_id q) (pq_projected_components q) (pq_escrow_id q)))"

definition reconstruct_task :: "crates \<Rightarrow> foreign \<Rightarrow> (nat \<Rightarrow> u64) \<Rightarrow> reconstruct_request \<Rightarrow> json task" where
  "reconstruct_task X F clk q = execute_and_collect X F ''reconstruct'' (state_operation F
     (reconstruct X clk (xq_vector_id q)
       \<lparr> so_outcome_tag = xq_outcome_tag q, so_gains = xq_gains q, so_losses = xq_losses q \<rparr>))"

definition certify_task :: "crates \<Rightarrow> foreign \<Rightarrow> (nat \<Rightarrow> u64) \<Rightarrow> certify_request \<Rightarrow> json task" where
  "certify_task X F clk q = execute_and_collect X F ''certify'' (state_operation F
     (certify X clk (cq_vector_id q)))"

section \<open>Submitted requests\<close>

definition payload_task :: "string \<Rightarrow> 'a reader \<Rightarrow> json \<Rightarrow> ('a \<Rightarrow> json task) \<Rightarrow> json task" where
  "payload_task label reader params f i =
     (case map_err (\<lambda>e. label @ '' parse error: '' @ e) (from_value reader params) of
        Ok q \<Rightarrow> f q i
      | Err e \<Rightarrow> (i, Err e)
      | Panicked \<Rightarrow> (i, Panicked))"

definition submitted_task :: "crates \<Rightarrow> foreign \<Rightarrow> (nat \<Rightarrow> u64) \<Rightarrow> submit_event_request \<Rightarrow> json task" where
  "submitted_task X F clk request =
     (let name = operation_name (sq_operation request);
          params = sq_params request
      in if name = ''origin_create'' \<or> name = ''create'' \<or> name = ''origin''
           then payload_task ''origin_create'' (fj_origin F) params (origin_task X F clk)
         else if name = ''transfer'' then payload_task ''transfer'' (fj_transfer F) params (transfer_task X F clk)
         else if name = ''drain'' then payload_task ''drain'' (fj_drain F) params (drain_task X F clk)
         else if name = ''project'' then payload_task ''project'' (fj_project F) params (project_task X F clk)
         else if name = ''reconstruct''
           then payload_task ''reconstruct'' (fj_reconstruct F) params (reconstruct_task X F clk)
         else if name = ''certify'' then payload_task ''certify'' (fj_certify F) params (certify_task X F clk)
         else task_get (\<lambda>_. Err (''unsupported operation: '' @ name)))"

text \<open>Everything between the lock and the call of \<open>clear_last_error\<close>.\<close>

definition request_task :: "crates \<Rightarrow> foreign \<Rightarrow> (nat \<Rightarrow> u64) \<Rightarrow> submit_event_request \<Rightarrow> json task" where
  "request_task X F clk request i =
     (case validate_submit_request X F i request of
        Err e \<Rightarrow> (i, Err e)
      | Panicked \<Rightarrow> (i, Panicked)
      | Ok _ \<Rightarrow>
          (case submitted_task X F clk request i of
             (i', Ok result) \<Rightarrow> (i'\<lparr> ki_seen := insert (sq_request_id request) (ki_seen i') \<rparr>, Ok result)
           | (i', r) \<Rightarrow> (i', r)))"

definition request_result ::
  "crates \<Rightarrow> foreign \<Rightarrow> kernel_inner \<Rightarrow> submit_event_request \<Rightarrow> json \<Rightarrow> json text_outcome" where
  "request_result X F inner request result =
     and_then (validate_submit_request X F inner request) (\<lambda>request_validation.
     Ok (json_object
       [(''request_validation'', request_validation), (''accepted'', JBool True),
        (''request_id'', JString (sq_request_id request)), (''operation'', JString (sq_operation request)),
        (''result'', unwrap_or JNull (json_get result ''result'')),
        (''records'', unwrap_or JNull (json_get result ''records'')),
        (''replay'', unwrap_or JNull (json_get result ''replay'')),
        (''event_count'', unwrap_or JNull (json_get result ''event_count'')),
        (''latest_clock'', unwrap_or JNull (json_get result ''latest_clock''))]))"

text \<open>The error of a poisoned lock is mapped, and the guard it holds is released, before the return.\<close>

definition execute_submit_request ::
  "crates \<Rightarrow> foreign \<Rightarrow> (nat \<Rightarrow> u64) \<Rightarrow> submit_event_request \<Rightarrow> json text_outcome ffi" where
  "execute_submit_request X F clk request h =
     (if kh_locked h then (h, Stuck)
      else if kh_poisoned h then (h, Returns (Err ''kernel state lock poisoned''))
      else
        let h = h\<lparr> kh_locked := True \<rparr>
        in case request_task X F clk request (kh_inner h) of
             (i, Err e) \<Rightarrow> release (Err e) (h\<lparr> kh_inner := i \<rparr>)
           | (i, Panicked) \<Rightarrow> (h\<lparr> kh_inner := i \<rparr>, Aborts)
           | (i, Ok result) \<Rightarrow>
               ffi_bind clear_last_error (\<lambda>_ h'.
                 case request_result X F (kh_inner h') request result of
                   Panicked \<Rightarrow> (h', Aborts)
                 | r \<Rightarrow> release r h') (h\<lparr> kh_inner := i \<rparr>))"

section \<open>The functions of the interface\<close>

definition kernel_init :: kernel_handle where
  "kernel_init = \<lparr> kh_inner = \<lparr> ki_engine = kernel_new, ki_last_error = None, ki_seen = {} \<rparr>,
     kh_locked = False, kh_poisoned = False \<rparr>"

definition kernel_last_error :: "kernel_handle option \<Rightarrow> kernel_handle option \<times> c_string call" where
  "kernel_last_error handle =
     (case handle of
        None \<Rightarrow> (None, Returns (Some (to_c_string ''kernel handle is null'')))
      | Some h \<Rightarrow>
          (let (h', r) = ffi_bind last_error_string (\<lambda>e. ffi_return (map_option to_c_string e)) h
           in (Some h', r)))"

definition kernel_submit_event ::
  "crates \<Rightarrow> foreign \<Rightarrow> (nat \<Rightarrow> u64) \<Rightarrow> c_string \<Rightarrow> kernel_handle option \<Rightarrow>
     kernel_handle option \<times> string call" where
  "kernel_submit_event X F clk input_json = on_handle X
     (checked_input X (from_c_string input_json) (\<lambda>input.
      checked_input X (parse_submit_request F input) (\<lambda>request.
      ffi_bind (execute_submit_request X F clk request) (\<lambda>r.
        case r of
          Ok result \<Rightarrow> ffi_return (ffi_ok_json X result)
        | Err e \<Rightarrow> report_err X e
        | Panicked \<Rightarrow> (\<lambda>h. (h, Aborts))))))"

text \<open>The request number \<open>n\<close> reads the clock \<open>clk n\<close>.\<close>

fun execute_requests ::
  "crates \<Rightarrow> foreign \<Rightarrow> (nat \<Rightarrow> nat \<Rightarrow> u64) \<Rightarrow> nat \<Rightarrow> submit_event_request list \<Rightarrow> json list \<Rightarrow> string ffi" where
  "execute_requests X F clk n [] results =
     report_ok X (json_object [(''results'', JArray results)])"
| "execute_requests X F clk n (request # requests) results =
     ffi_bind (execute_submit_request X F (clk n) request) (\<lambda>r.
       case r of
         Ok v \<Rightarrow> execute_requests X F clk (n + 1) requests (results @ [v])
       | Err e \<Rightarrow> report_err X e
       | Panicked \<Rightarrow> (\<lambda>h. (h, Aborts)))"

definition kernel_execute_operation ::
  "crates \<Rightarrow> foreign \<Rightarrow> (nat \<Rightarrow> nat \<Rightarrow> u64) \<Rightarrow> c_string \<Rightarrow> kernel_handle option \<Rightarrow>
     kernel_handle option \<times> string call" where
  "kernel_execute_operation X F clk input_json = on_handle X
     (checked_input X (from_c_string input_json) (\<lambda>input.
      checked_input X (parse_submit_request_list F input) (\<lambda>requests.
      execute_requests X F clk 0 requests [])))"

definition kernel_replay :: "crates \<Rightarrow> foreign \<Rightarrow> kernel_handle option \<Rightarrow> kernel_handle option \<times> string call" where
  "kernel_replay X F = on_handle X
     (under_lock X (task_get (\<lambda>inner. engine_replay_summary X F (ki_engine inner)))
       (\<lambda>result. ffi_bind clear_last_error (\<lambda>_. ffi_return (to_c_string (sd_text (cr_serde X) result))))
       (\<lambda>e. ffi_bind (set_last_error e) (\<lambda>_.
          let empty_state_root = compute_state_root (cr_hash X) [] 0
          in ffi_return (to_c_string (sd_text (cr_serde X) (json_object
            [(''state_root'', state_root_json empty_state_root), (''replay_hash'', JString []),
             (''applied_event_hashes'', JArray []), (''final_state'', JObject []),
             (''event_count'', json_u64 0), (''latest_clock'', json_u64 0), (''heads'', JArray []),
             (''verified'', JBool False), (''error'', JString e)]))))))"

definition kernel_compute_state_root :: "crates \<Rightarrow> kernel_handle option \<Rightarrow> kernel_handle option \<times> string call" where
  "kernel_compute_state_root X = on_handle X
     (under_lock X (task_get (\<lambda>inner.
         let state_root = current_state_root X (ki_engine inner);
             event_count = of_nat (length (query_events (ki_engine inner)))
         in Ok (json_object
           [(''ok'', JBool True), (''state_root'', state_root_json state_root),
            (''event_count'', json_u64 event_count), (''logical_clock'', json_u64 (sr_logical_clock state_root))])))
       (\<lambda>output. ffi_return (to_c_string (sd_text (cr_serde X) output)))
       (report_err X))"

definition kernel_current_state_root :: "crates \<Rightarrow> kernel_handle option \<Rightarrow> kernel_handle option \<times> string call" where
  "kernel_current_state_root X = kernel_compute_state_root X"

definition parse_record :: "foreign \<Rightarrow> string \<Rightarrow> vector_event text_outcome" where
  "parse_record F input =
     (case parse_event F input of
        Ok v \<Rightarrow> Ok v
      | _ \<Rightarrow>
          and_then (map_err (\<lambda>e. ''record parse error: '' @ e) (fj_value F input)) (\<lambda>v.
          case json_get v ''record'' of
            Some raw \<Rightarrow> map_err (\<lambda>e. ''record inner parse error: '' @ e) (from_value (fj_event F) raw)
          | None \<Rightarrow> Err ''record JSON did not contain a VectorEvent or record field''))"

definition kernel_verify_record ::
  "crates \<Rightarrow> foreign \<Rightarrow> c_string \<Rightarrow> kernel_handle option \<Rightarrow> kernel_handle option \<times> string call" where
  "kernel_verify_record X F input_json = on_handle X
     (checked_input X (from_c_string input_json) (\<lambda>input.
      checked_input X (parse_record F input) (\<lambda>event.
      checked_input X (validate_event_internal X event) (\<lambda>result.
      let verified = flag result ''hashes_ok'' \<and> flag result ''dag_ok'' \<and> flag result ''signature_ok''
      in if verified then report_ok X (json_object [(''verified'', JBool True)])
         else report_err X ''record verification failed''))))"

text \<open>The functions without a handle only map their input to their output.\<close>

definition answer :: "crates \<Rightarrow> json text_outcome \<Rightarrow> string call" where
  "answer X r = (case r of Ok v \<Rightarrow> Returns (ffi_ok_json X v) | Err e \<Rightarrow> Returns (ffi_err_json X e) | Panicked \<Rightarrow> Aborts)"

definition checked_request :: "crates \<Rightarrow> foreign \<Rightarrow> submit_event_request \<Rightarrow> json text_outcome" where
  "checked_request X F request =
     and_then (validate_operation_shape F (sq_operation request) (sq_params request)) (\<lambda>_.
     and_then (map_err (\<lambda>e. e) (verifying_key_from_hex (cr_ed X) (sq_actor_public_key request))) (\<lambda>verifying_key.
     and_then (canonical_submit_request_bytes X F request) (\<lambda>bs.
     and_then (map_err (\<lambda>e. e) (verify_event_signature (cr_ed X) verifying_key bs (sq_signature request))) (\<lambda>ok.
     Ok (json_object
       [(''kind'', JString ''submit_request''), (''request_id'', JString (sq_request_id request)),
        (''operation'', JString (sq_operation request)), (''shape_ok'', JBool True), (''signature_ok'', JBool ok)])))))"

fun check_events :: "crates \<Rightarrow> vector_event list \<Rightarrow> json list \<Rightarrow> bool \<Rightarrow> json list \<times> bool" where
  "check_events X [] results all_ok = (results, all_ok)"
| "check_events X (event # events) results all_ok =
     (case validate_event_internal X event of
        Ok result \<Rightarrow>
          (let ok = (flag result ''hashes_ok'' \<and> flag result ''signature_ok'' \<and> flag result ''dag_ok'')
           in check_events X events (results @ [result]) (if \<not> ok then False else all_ok))
      | Err e \<Rightarrow>
          check_events X events (results @ [json_object
            [(''event_id'', JString (ev_event_id event)), (''ok'', JBool False), (''error'', JString e)]]) False
      | Panicked \<Rightarrow> (results, all_ok))"

definition kernel_validate_event :: "crates \<Rightarrow> foreign \<Rightarrow> c_string \<Rightarrow> string call" where
  "kernel_validate_event X F input_json = answer X
     (and_then (from_c_string input_json) (\<lambda>input.
      case parse_submit_request F input of
        Ok request \<Rightarrow> checked_request X F request
      | _ \<Rightarrow>
          (case parse_event_list F input of
             Ok events \<Rightarrow>
               (let (results, all_ok) = check_events X events [] True
                in Ok (json_object
                  [(''kind'', JString ''event_batch''), (''count'', JNumber (show_nat (length results))),
                   (''all_ok'', JBool all_ok), (''results'', JArray results)]))
           | _ \<Rightarrow> and_then (parse_event F input) (validate_event_internal X))))"

definition kernel_verify_signature :: "crates \<Rightarrow> foreign \<Rightarrow> c_string \<Rightarrow> string call" where
  "kernel_verify_signature X F input_json = answer X
     (and_then (from_c_string input_json) (\<lambda>input.
      and_then (map_err (\<lambda>e. ''signature input parse error: '' @ e) (fj_value F input)) (\<lambda>v.
      and_then (ok_or ''missing public_key'' (Option.bind (json_get v ''public_key'') as_str)) (\<lambda>public_key.
      and_then (ok_or ''missing payload'' (Option.bind (json_get v ''payload'') as_str)) (\<lambda>payload.
      and_then (ok_or ''missing signature'' (Option.bind (json_get v ''signature'') as_str)) (\<lambda>signature.
      and_then (map_err (\<lambda>e. e) (verifying_key_from_hex (cr_ed X) public_key)) (\<lambda>vk.
      and_then (map_err (\<lambda>e. e) (verify_event_signature (cr_ed X) vk (as_bytes payload) signature)) (\<lambda>ok.
      Ok (json_object [(''verified'', JBool ok)])))))))))"

text \<open>The operations called directly: one body under the lock for each of the request types.\<close>

definition kernel_operation ::
  "crates \<Rightarrow> string \<Rightarrow> 'a reader \<Rightarrow> ('a \<Rightarrow> json task) \<Rightarrow> c_string \<Rightarrow> kernel_handle option \<Rightarrow>
     kernel_handle option \<times> string call" where
  "kernel_operation X label reader task input_json = on_handle X
     (checked_input X (from_c_string input_json) (\<lambda>input.
      checked_input X (read_request label reader input) (\<lambda>params.
      under_lock X (task params) (report_ok X) (report_err X))))"

definition kernel_origin_create ::
  "crates \<Rightarrow> foreign \<Rightarrow> (nat \<Rightarrow> u64) \<Rightarrow> c_string \<Rightarrow> kernel_handle option \<Rightarrow> kernel_handle option \<times> string call" where
  "kernel_origin_create X F clk = kernel_operation X ''origin_create'' (fj_origin F) (origin_task X F clk)"

definition kernel_transfer ::
  "crates \<Rightarrow> foreign \<Rightarrow> (nat \<Rightarrow> u64) \<Rightarrow> c_string \<Rightarrow> kernel_handle option \<Rightarrow> kernel_handle option \<times> string call" where
  "kernel_transfer X F clk = kernel_operation X ''transfer'' (fj_transfer F) (transfer_task X F clk)"

definition kernel_drain ::
  "crates \<Rightarrow> foreign \<Rightarrow> (nat \<Rightarrow> u64) \<Rightarrow> c_string \<Rightarrow> kernel_handle option \<Rightarrow> kernel_handle option \<times> string call" where
  "kernel_drain X F clk = kernel_operation X ''drain'' (fj_drain F) (drain_task X F clk)"

definition kernel_project ::
  "crates \<Rightarrow> foreign \<Rightarrow> (nat \<Rightarrow> u64) \<Rightarrow> c_string \<Rightarrow> kernel_handle option \<Rightarrow> kernel_handle option \<times> string call" where
  "kernel_project X F clk = kernel_operation X ''project'' (fj_project F) (project_task X F clk)"

definition kernel_reconstruct ::
  "crates \<Rightarrow> foreign \<Rightarrow> (nat \<Rightarrow> u64) \<Rightarrow> c_string \<Rightarrow> kernel_handle option \<Rightarrow> kernel_handle option \<times> string call" where
  "kernel_reconstruct X F clk = kernel_operation X ''reconstruct'' (fj_reconstruct F) (reconstruct_task X F clk)"

definition kernel_certify ::
  "crates \<Rightarrow> foreign \<Rightarrow> (nat \<Rightarrow> u64) \<Rightarrow> c_string \<Rightarrow> kernel_handle option \<Rightarrow> kernel_handle option \<times> string call" where
  "kernel_certify X F clk = kernel_operation X ''certify'' (fj_certify F) (certify_task X F clk)"

text \<open>
  The queries: the answer is made after the error is cleared, so a state that has no JSON form panics there.
\<close>

definition report_json :: "crates \<Rightarrow> json text_outcome \<Rightarrow> string ffi" where
  "report_json X r = ffi_bind clear_last_error (\<lambda>_.
     case r of Ok v \<Rightarrow> ffi_return (ffi_ok_json X v) | Err e \<Rightarrow> report_err X e | Panicked \<Rightarrow> (\<lambda>h. (h, Aborts)))"

definition found :: "string \<Rightarrow> ('a \<Rightarrow> json option) \<Rightarrow> 'a option \<Rightarrow> json text_outcome" where
  "found key f x =
     (case x of Some v \<Rightarrow> json_values [(key, f v)] | None \<Rightarrow> Ok (json_object [(''found'', JBool False)]))"

definition kernel_query_vector ::
  "crates \<Rightarrow> foreign \<Rightarrow> c_string \<Rightarrow> kernel_handle option \<Rightarrow> kernel_handle option \<times> string call" where
  "kernel_query_vector X F input_json = on_handle X
     (checked_input X (from_c_string input_json) (\<lambda>input.
      checked_input X (read_request ''query_vector'' (fj_query_vector F) input) (\<lambda>request.
      under_lock X (task_get (\<lambda>inner. Ok (query_vector (ki_engine inner) (qq_vector_id request))))
        (\<lambda>r. report_json X (found ''vector'' (fj_of_state F) r)) (report_err X))))"

definition kernel_query_vectors ::
  "crates \<Rightarrow> foreign \<Rightarrow> c_string \<Rightarrow> kernel_handle option \<Rightarrow> kernel_handle option \<times> string call" where
  "kernel_query_vectors X F input_json = on_handle X
     (under_lock X (task_get (\<lambda>inner. Ok (query_vectors (ki_engine inner))))
       (\<lambda>vectors. report_json X (map_ok (\<lambda>v. json_object [(''vectors'', v)]) (json_parts (fj_of_state F) vectors)))
       (report_err X))"

definition kernel_query_records ::
  "crates \<Rightarrow> foreign \<Rightarrow> c_string \<Rightarrow> kernel_handle option \<Rightarrow> kernel_handle option \<times> string call" where
  "kernel_query_records X F input_json = on_handle X
     (under_lock X (task_get (\<lambda>inner. Ok (query_records (ki_engine inner))))
       (\<lambda>records. report_json X (map_ok (\<lambda>v. json_object [(''records'', v)]) (json_parts (fj_of_record F) records)))
       (report_err X))"

definition kernel_query_event_by_hash ::
  "crates \<Rightarrow> foreign \<Rightarrow> c_string \<Rightarrow> kernel_handle option \<Rightarrow> kernel_handle option \<times> string call" where
  "kernel_query_event_by_hash X F input_json = on_handle X
     (checked_input X (from_c_string input_json) (\<lambda>input.
      checked_input X (read_request ''query_event_by_hash'' (fj_query_event F) input) (\<lambda>request.
      under_lock X (task_get (\<lambda>inner. Ok (query_event_by_hash (ki_engine inner) (hq_event_hash request))))
        (\<lambda>r. report_json X (found ''event'' (fj_of_event F) r)) (report_err X))))"

end
