(* ===== verification/Foreign_Facts.thy ===== *)
theory Foreign_Facts
  imports Foreign
begin

text \<open>
  What the C interface does: which calls return, what a submitted request may do, and when the replay
  summary and the check of a record succeed.
\<close>

section \<open>Calls under the lock\<close>

lemma locked_stuck [simp]:
  "kh_locked h \<Longrightarrow> set_last_error e h = (h, Stuck)"
  "kh_locked h \<Longrightarrow> clear_last_error h = (h, Stuck)"
  "kh_locked h \<Longrightarrow> last_error_string h = (h, Stuck)"
  "kh_locked h \<Longrightarrow> under_lock X body on_ok on_err h = (h, Stuck)"
  "kh_locked h \<Longrightarrow> execute_submit_request X F clk request h = (h, Stuck)"
  by (simp_all add: set_last_error_def clear_last_error_def last_error_string_def under_lock_def
      execute_submit_request_def)

lemma ffi_bind_stuck [simp]: "m h = (h', Stuck) \<Longrightarrow> ffi_bind m f h = (h', Stuck)"
  by (simp add: ffi_bind_def)

lemma report_stuck [simp]:
  "kh_locked h \<Longrightarrow> report_ok X v h = (h, Stuck)"
  "kh_locked h \<Longrightarrow> report_err X e h = (h, Stuck)"
  "kh_locked h \<Longrightarrow> report_json X r h = (h, Stuck)"
  by (simp_all add: report_ok_def report_err_def report_json_def)

text \<open>A body whose outcome is reported under the lock.\<close>

lemma under_lock_reports:
  assumes "\<And>x h. kh_locked h \<Longrightarrow> on_ok x h = (h, Stuck)" "\<And>e h. kh_locked h \<Longrightarrow> on_err e h = (h, Stuck)"
  shows "under_lock X body on_ok on_err h =
    (if kh_locked h then (h, Stuck)
     else if kh_poisoned h then (h\<lparr> kh_locked := True \<rparr>, Stuck)
     else case body (kh_inner h) of
         (i, Panicked) \<Rightarrow> (h\<lparr> kh_locked := True, kh_inner := i \<rparr>, Aborts)
       | (i, _) \<Rightarrow> (h\<lparr> kh_locked := True, kh_inner := i \<rparr>, Stuck))"
  using assms by (auto simp: under_lock_def Let_def split: prod.split result.split)

lemma under_lock_report [simp]:
  "under_lock X body (report_ok X) (report_err X) h =
    (if kh_locked h then (h, Stuck)
     else if kh_poisoned h then (h\<lparr> kh_locked := True \<rparr>, Stuck)
     else case body (kh_inner h) of
         (i, Panicked) \<Rightarrow> (h\<lparr> kh_locked := True, kh_inner := i \<rparr>, Aborts)
       | (i, _) \<Rightarrow> (h\<lparr> kh_locked := True, kh_inner := i \<rparr>, Stuck))"
  by (rule under_lock_reports) simp_all

definition no_return :: "string ffi \<Rightarrow> bool" where
  "no_return m \<longleftrightarrow> (\<forall>h h' s. m h \<noteq> (h', Returns s))"

lemma no_return_under_lock:
  assumes "\<And>x h. kh_locked h \<Longrightarrow> on_ok x h = (h, Stuck)" "\<And>e h. kh_locked h \<Longrightarrow> on_err e h = (h, Stuck)"
  shows "no_return (under_lock X body on_ok on_err)"
  using under_lock_reports [of on_ok on_err X body, OF assms]
  by (auto simp: no_return_def split: if_splits prod.splits result.splits)

text \<open>A report outside the lock returns the error and leaves the engine.\<close>

lemma report_err_returns:
  "report_err X e h = (h', Returns s) \<Longrightarrow> s = ffi_err_json X e \<and> ki_engine (kh_inner h') = ki_engine (kh_inner h)"
  by (auto simp: report_err_def ffi_bind_def set_last_error_def ffi_return_def split: if_splits)

lemma checked_input_returns:
  assumes "checked_input X r f h = (h', Returns s)"
  shows "(\<exists>x. r = Ok x \<and> f x h = (h', Returns s)) \<or>
    (\<exists>e. r = Err e \<and> s = ffi_err_json X e \<and> ki_engine (kh_inner h') = ki_engine (kh_inner h))"
  using assms report_err_returns by (cases r) (auto simp: checked_input_def)

text \<open>The calls that answer, or report, while they hold the lock.\<close>

inductive reporting_call ::
  "crates \<Rightarrow> foreign \<Rightarrow> (kernel_handle option \<Rightarrow> kernel_handle option \<times> string call) \<Rightarrow> bool" for X F where
  "reporting_call X F (kernel_origin_create X F clk input)"
| "reporting_call X F (kernel_transfer X F clk input)"
| "reporting_call X F (kernel_drain X F clk input)"
| "reporting_call X F (kernel_project X F clk input)"
| "reporting_call X F (kernel_reconstruct X F clk input)"
| "reporting_call X F (kernel_certify X F clk input)"
| "reporting_call X F (kernel_query_vector X F input)"
| "reporting_call X F (kernel_query_vectors X F input)"
| "reporting_call X F (kernel_query_records X F input)"
| "reporting_call X F (kernel_query_event_by_hash X F input)"
| "reporting_call X F (kernel_replay X F)"

lemma on_handle_Some: "on_handle X m (Some h) = (ho, r) \<longleftrightarrow> (\<exists>h'. ho = Some h' \<and> m h = (h', r))"
  by (auto simp: on_handle_def split: prod.splits)

text \<open>What the inputs of a call were refused for.\<close>

definition refused :: "crates \<Rightarrow> kernel_handle \<Rightarrow> kernel_handle option \<Rightarrow> string \<Rightarrow> bool" where
  "refused X h ho s \<longleftrightarrow>
     (\<exists>e h'. s = ffi_err_json X e \<and> ho = Some h' \<and> ki_engine (kh_inner h') = ki_engine (kh_inner h))"

lemma checked_refused:
  assumes "on_handle X (checked_input X (from_c_string input) (\<lambda>t. checked_input X (p t) (\<lambda>q. f q))) (Some h) =
      (ho, Returns s)"
    and "\<And>q. no_return (f q)"
  shows "refused X h ho s"
  using assms(1) assms(2) [unfolded no_return_def]
  by (auto simp: on_handle_Some refused_def dest!: checked_input_returns)

lemma operation_refused:
  assumes "kernel_operation X label reader task input (Some h) = (ho, Returns s)"
  shows "refused X h ho s"
  using assms unfolding kernel_operation_def
  by (rule checked_refused) (rule no_return_under_lock, simp_all)

lemma query_refused:
  assumes "on_handle X (checked_input X (from_c_string input) (\<lambda>t. checked_input X (p t) (\<lambda>q.
      under_lock X (b q) (\<lambda>r. report_json X (g r)) (report_err X)))) (Some h) = (ho, Returns s)"
  shows "refused X h ho s"
  using assms by (rule checked_refused) (rule no_return_under_lock, simp_all)

lemma locked_call_returns:
  assumes "on_handle X (under_lock X body on_ok on_err) (Some h) = (ho, Returns s)"
    and "\<And>x h. kh_locked h \<Longrightarrow> on_ok x h = (h, Stuck)" "\<And>e h. kh_locked h \<Longrightarrow> on_err e h = (h, Stuck)"
  shows "refused X h ho s"
  using assms(1) no_return_under_lock [of on_ok on_err X body, OF assms(2,3)]
  by (auto simp: on_handle_Some no_return_def)

lemma reporting_call_refused:
  assumes "reporting_call X F c" "c (Some h) = (ho, Returns s)"
  shows "refused X h ho s"
  using assms
proof (induction rule: reporting_call.induct)
  case (11)
  then show ?case unfolding kernel_replay_def by (rule locked_call_returns) simp_all
next
  case (8 input)
  then show ?case unfolding kernel_query_vectors_def by (rule locked_call_returns) simp_all
next
  case (9 input)
  then show ?case unfolding kernel_query_records_def by (rule locked_call_returns) simp_all
next
  case (7 input)
  then show ?case unfolding kernel_query_vector_def by (rule query_refused)
next
  case (10 input)
  then show ?case unfolding kernel_query_event_by_hash_def by (rule query_refused)
qed (simp_all add: kernel_origin_create_def kernel_transfer_def kernel_drain_def kernel_project_def
      kernel_reconstruct_def kernel_certify_def operation_refused)

text \<open>On a handle whose lock is held, every call that touches the handle is stuck.\<close>

lemma dead_handle:
  assumes "kh_locked h"
  shows "kernel_last_error (Some h) = (Some h, Stuck)" "kernel_compute_state_root X (Some h) = (Some h, Stuck)"
    "kernel_replay X F (Some h) = (Some h, Stuck)"
    "kernel_query_vectors X F input (Some h) = (Some h, Stuck)"
    "kernel_submit_event X F clk input (Some h) = (Some h, Stuck)"
    "kernel_operation X label reader task input (Some h) = (Some h, Stuck)"
proof -
  have 1: "checked_input X r f h = (h, Stuck)" if "\<And>x. f x h = (h, Stuck)" "r \<noteq> Panicked" for r and f :: "'b \<Rightarrow> string ffi"
    using that assms by (cases r) (simp_all add: checked_input_def)
  have 2: "from_c_string c \<noteq> Panicked" for c by (auto simp: from_c_string_def split: option.split)
  have 3: "map_err g m \<noteq> Panicked" for g :: "'x \<Rightarrow> 'y" and m :: "'x + 'z" by (cases m) simp_all
  show "kernel_last_error (Some h) = (Some h, Stuck)" "kernel_compute_state_root X (Some h) = (Some h, Stuck)"
    "kernel_replay X F (Some h) = (Some h, Stuck)" "kernel_query_vectors X F input (Some h) = (Some h, Stuck)"
    using assms by (simp_all add: kernel_last_error_def kernel_compute_state_root_def kernel_replay_def
        kernel_query_vectors_def on_handle_Some)
  show "kernel_submit_event X F clk input (Some h) = (Some h, Stuck)"
    "kernel_operation X label reader task input (Some h) = (Some h, Stuck)"
    unfolding kernel_submit_event_def kernel_operation_def on_handle_Some
    using assms by (auto intro!: 1 2 3 simp: parse_submit_request_def read_request_def)
qed

section \<open>Submitted requests\<close>

lemma map_err_not_panicked [simp]: "map_err g m \<noteq> Panicked"
  by (cases m) simp_all

text \<open>What a request that passes the validation has: an identifier not used before and a signature of its actor.\<close>

definition signed_request :: "crates \<Rightarrow> foreign \<Rightarrow> submit_event_request \<Rightarrow> bool" where
  "signed_request X F q \<longleftrightarrow>
     (\<exists>vk bs. verifying_key_from_hex (cr_ed X) (sq_actor_public_key q) = Inr vk \<and>
        canonical_submit_request_bytes X F q = Ok bs \<and>
        verify_event_signature (cr_ed X) vk bs (sq_signature q) = Inr True)"

lemma validate_submit_request_Ok:
  "validate_submit_request X F i q = Ok v \<Longrightarrow>
     signed_request X F q \<and> sq_request_id q \<notin> ki_seen i \<and> trim (sq_request_id q) \<noteq> [] \<and>
     validate_operation_shape F (sq_operation q) (sq_params q) = Ok ()"
  by (auto simp: validate_submit_request_def signed_request_def split: if_splits)

lemma execute_and_collect_engine:
  "execute_and_collect X F name f i =
     (i\<lparr> ki_engine := fst (f (ki_engine i)) \<rparr>, snd (execute_and_collect X F name f i))"
  by (simp add: execute_and_collect_def engine_events_def Let_def split: prod.split)

lemma operation_engine [simp]:
  "fst (state_operation F m k) = fst (m k)" "fst (pair_operation F n k) = fst (n k)"
  by (simp_all add: state_operation_def pair_operation_def split: prod.split)

text \<open>A task that runs an operation of the kernel and touches nothing else.\<close>

definition kernel_task :: "crates \<Rightarrow> 'a task \<Rightarrow> bool" where
  "kernel_task X t \<longleftrightarrow>
     (\<forall>i. \<exists>k. fst (t i) = i\<lparr> ki_engine := k \<rparr> \<and> kernel_steps X (ki_engine i) k)"

lemma kernel_task_collect:
  assumes "\<And>k. kernel_steps X k (fst (f k))"
  shows "kernel_task X (execute_and_collect X F name f)"
  unfolding kernel_task_def by (subst execute_and_collect_engine) (use assms in auto)

lemma operation_tasks:
  "kernel_task X (origin_task X F clk oq)" "kernel_task X (transfer_task X F clk tq)"
  "kernel_task X (drain_task X F clk dq)" "kernel_task X (project_task X F clk pq)"
  "kernel_task X (reconstruct_task X F clk xq)" "kernel_task X (certify_task X F clk cq)"
  unfolding origin_task_def transfer_task_def drain_task_def project_task_def reconstruct_task_def certify_task_def
  by (rule kernel_task_collect, simp, use operations_are_steps in \<open>simp add: within_def\<close>)+

lemma kernel_task_pure: "kernel_task X (\<lambda>i. (i, r i))"
  by (auto simp: kernel_task_def intro!: exI [of _ "ki_engine _"] steps_refl)

lemma payload_task_kernel: "(\<And>q. kernel_task X (f q)) \<Longrightarrow> kernel_task X (payload_task label reader params f)"
  by (cases "from_value reader params")
    (simp_all add: payload_task_def [abs_def] kernel_task_pure)

lemma submitted_task_kernel: "kernel_task X (submitted_task X F clk q)"
  unfolding submitted_task_def Let_def task_get_def [abs_def]
  by (auto intro: payload_task_kernel operation_tasks kernel_task_pure)

lemma request_task_cases:
  assumes "request_task X F clk q i = (i', r)"
  shows "i' = i \<or>
    (\<exists>v. validate_submit_request X F i q = Ok v \<and> kernel_steps X (ki_engine i) (ki_engine i'))"
proof (cases "validate_submit_request X F i q")
  case (Ok v)
  obtain k where "fst (submitted_task X F clk q i) = i\<lparr> ki_engine := k \<rparr>" "kernel_steps X (ki_engine i) k"
    using submitted_task_kernel [of X F clk q] unfolding kernel_task_def by blast
  with assms Ok show ?thesis
    by (auto simp: request_task_def split: prod.splits result.splits)
next
  case (Err e)
  with assms show ?thesis by (simp add: request_task_def)
next
  case Panicked
  with assms show ?thesis by (simp add: request_task_def)
qed

lemma execute_submit_returns:
  assumes "execute_submit_request X F clk q h = (h', Returns r)"
  shows "\<exists>e. r = Err e"
  using assms
  by (auto simp: execute_submit_request_def Let_def release_def split: if_splits prod.splits result.splits)

lemma execute_submit_run:
  assumes "execute_submit_request X F clk q h = (h', r)"
  shows "ki_engine (kh_inner h') = ki_engine (kh_inner h) \<or>
    ki_engine (kh_inner h') = ki_engine (fst (request_task X F clk q (kh_inner h)))"
  using assms
  by (auto simp: execute_submit_request_def Let_def release_def split: if_splits prod.splits result.splits)

text \<open>A call of \<open>kernel_submit_event\<close>: the input was refused, or its request was executed.\<close>

lemma submit_event_cases:
  assumes "kernel_submit_event X F clk input (Some h) = (Some h', r)"
  shows "ki_engine (kh_inner h') = ki_engine (kh_inner h) \<or>
    (\<exists>t q. from_c_string input = Ok t \<and> from_str (fj_submit F) t = Inr q \<and>
       ki_engine (kh_inner h') = ki_engine (fst (request_task X F clk q (kh_inner h))))"
proof -
  have err: "ki_engine (kh_inner h2) = ki_engine (kh_inner h1)" if "report_err X e h1 = (h2, x)" for e h1 h2 x
    using that by (auto simp: report_err_def ffi_bind_def set_last_error_def ffi_return_def split: if_splits)
  show ?thesis
  proof (cases "from_c_string input")
    case (Ok t)
    show ?thesis
    proof (cases "from_str (fj_submit F) t")
      case (Inr q)
      obtain h1 r1 where e: "execute_submit_request X F clk q h = (h1, r1)" by fastforce
      with assms Ok Inr have "ki_engine (kh_inner h') = ki_engine (kh_inner h1)"
        by (cases r1) (auto simp: kernel_submit_event_def on_handle_Some checked_input_def parse_submit_request_def
            ffi_bind_def ffi_return_def split: result.splits dest: err)
      with execute_submit_run [OF e] Ok Inr show ?thesis by auto
    next
      case (Inl e)
      with assms Ok show ?thesis
        by (auto simp: kernel_submit_event_def on_handle_Some checked_input_def parse_submit_request_def dest: err)
    qed
  next
    case (Err e)
    with assms show ?thesis by (auto simp: kernel_submit_event_def on_handle_Some checked_input_def dest: err)
  next
    case Panicked
    with assms show ?thesis by (auto simp: kernel_submit_event_def on_handle_Some checked_input_def)
  qed
qed

lemma submit_event_runs:
  assumes "\<not> kh_locked h" "\<not> kh_poisoned h" "from_c_string input = Ok t" "from_str (fj_submit F) t = Inr q"
  obtains h' r where "kernel_submit_event X F clk input (Some h) = (Some h', r)"
    "ki_engine (kh_inner h') = ki_engine (fst (request_task X F clk q (kh_inner h)))"
proof -
  obtain h1 r1 where e: "execute_submit_request X F clk q h = (h1, r1)" by fastforce
  have 1: "ki_engine (kh_inner h1) = ki_engine (fst (request_task X F clk q (kh_inner h)))"
    using e assms(1,2)
    by (auto simp: execute_submit_request_def Let_def release_def split: prod.splits result.splits)
  have err: "report_err X m h1 = (h2, x) \<Longrightarrow> ki_engine (kh_inner h2) = ki_engine (kh_inner h1)" for m h2 x
    by (auto simp: report_err_def ffi_bind_def set_last_error_def ffi_return_def split: if_splits)
  have c: "kernel_submit_event X F clk input (Some h) =
      (let (h2, r2) = (case r1 of
          Returns (Ok result) \<Rightarrow> (h1, Returns (ffi_ok_json X result))
        | Returns (Err e) \<Rightarrow> report_err X e h1
        | Returns Panicked \<Rightarrow> (h1, Aborts)
        | Stuck \<Rightarrow> (h1, Stuck)
        | Aborts \<Rightarrow> (h1, Aborts)) in (Some h2, r2))"
    by (simp add: kernel_submit_event_def on_handle_def checked_input_def parse_submit_request_def
        ffi_bind_def ffi_return_def e assms(3,4) split: result.split call.split)
  moreover obtain h2 r2 where "(case r1 of
          Returns (Ok result) \<Rightarrow> (h1, Returns (ffi_ok_json X result))
        | Returns (Err e) \<Rightarrow> report_err X e h1
        | Returns Panicked \<Rightarrow> (h1, Aborts)
        | Stuck \<Rightarrow> (h1, Stuck)
        | Aborts \<Rightarrow> (h1, Aborts)) = (h2, r2)" by fastforce
  moreover from this have "ki_engine (kh_inner h2) = ki_engine (kh_inner h1)"
    by (auto split: result.splits call.splits dest: err)
  ultimately have "kernel_submit_event X F clk input (Some h) = (Some h2, r2)"
    "ki_engine (kh_inner h2) = ki_engine (kh_inner h1)" by simp_all
  then show thesis using that 1 by metis
qed

end
