(* ===== verification/Foreign_Replay.thy ===== *)
theory Foreign_Replay
  imports Foreign_Facts
begin

text \<open>The replay summary, the heads of a log and the check of a record in the C interface.\<close>

section \<open>The replay summary\<close>

lemma query_events_mset: "mset (query_events k) = mset (load_events_for_replay (ke_store k))"
  by (simp add: query_events_def)

lemma json_get_replay_json:
  "json_get (replay_json root h applied fs n c heads) ''state_root'' = Some (state_root_json root)"
  "json_get (replay_json root h applied fs n c heads) ''replay_hash'' = Some (JString h)"
  by (simp_all add: replay_json_def json_object_def)

text \<open>The replay of the events in topological order is the replay of the log.\<close>

lemma ordered_replay:
  assumes "replay_canonical_history X k = Ok r"
  obtains xs where "topological_order (query_events k) = Ok xs" "mset xs = mset (query_events k)"
    "replay_events (cr_hash X) (cr_map_json X) (cr_region_json X) xs = Ok r"
proof -
  let ?R = "replay_events (cr_hash X) (cr_map_json X) (cr_region_json X)"
  have "?R (load_events_for_replay (ke_store k)) = Ok r"
    using assms by (simp add: replay_canonical_history_def)
  then have r: "?R (query_events k) = Ok r"
    by (rule replay_events_perm [OF query_events_mset [symmetric]])
  obtain xs where xs: "topological_order (query_events k) = Ok xs" "mset xs = mset (query_events k)"
    using topological_order_Ok [OF replay_events_Ok(1) [OF r]] by blast
  from that [OF xs] replay_events_perm [OF xs(2) [symmetric] r] show thesis by simp
qed

lemma applied_length:
  assumes "replay_canonical_history X k = Ok r"
  shows "length (rr_applied_event_hashes r) = length (query_events k)"
proof -
  obtain xs where "mset xs = mset (query_events k)"
    "replay_events (cr_hash X) (cr_map_json X) (cr_region_json X) xs = Ok r"
    by (rule ordered_replay [OF assms])
  then show ?thesis
    using replay_events_Ok(5) by (metis length_map mset_eq_length)
qed

definition summary_json :: "foreign \<Rightarrow> kernel_engine \<Rightarrow> replay_result \<Rightarrow> json \<Rightarrow> json" where
  "summary_json F k r fs = replay_json (rr_state_root r) (rr_replay_hash r) (rr_applied_event_hashes r) fs
     (of_nat (length (query_events k))) (sr_logical_clock (rr_state_root r)) (compute_heads (query_events k))"

lemma summary_nonempty:
  assumes "replay_canonical_history X k = Ok r" "query_events k \<noteq> []"
  shows "engine_replay_summary X F k = map_ok (summary_json F k r) (json_part (fj_of_states F (rr_final_state r)))"
proof -
  obtain xs where xs: "topological_order (query_events k) = Ok xs" "mset xs = mset (query_events k)"
    "replay_events (cr_hash X) (cr_map_json X) (cr_region_json X) xs = Ok r"
    by (rule ordered_replay [OF assms(1)])
  have "xs \<noteq> []" using xs(2) assms(2) by auto
  then have c: "replay_from_events X F (query_events k) =
      and_then (json_part (fj_of_states F (rr_final_state r))) (\<lambda>final_state.
       Ok (replay_json (rr_state_root r) (rr_replay_hash r) (rr_applied_event_hashes r)
         final_state (of_nat (length (rr_applied_event_hashes r)))
         (sr_logical_clock (rr_state_root r)) (compute_heads xs)))"
    using assms(2) xs by (simp add: replay_from_events_def)
  show ?thesis
    by (cases "fj_of_states F (rr_final_state r)")
      (simp_all add: engine_replay_summary_def assms(1) engine_events_def Let_def c json_part_def
        json_get_replay_json unwrap_or_def summary_json_def applied_length [OF assms(1)])
qed

lemma summary_empty:
  assumes "query_events k = []" "\<forall>b. cr_hash X b \<noteq> []" "fj_of_states F [] \<noteq> None"
  shows "\<exists>m. engine_replay_summary X F k = Err m"
proof (cases "replay_canonical_history X k")
  case (Ok r)
  obtain xs where "replay_events (cr_hash X) (cr_map_json X) (cr_region_json X) xs = Ok r"
    by (rule ordered_replay [OF Ok])
  from replay_events_Ok(7) [OF this] assms(2) have "rr_replay_hash r \<noteq> []"
    by (simp add: canonical_replay_hash_def)
  with Ok assms show ?thesis
    by (auto simp: engine_replay_summary_def engine_events_def Let_def replay_from_events_def json_part_def
        json_get_replay_json unwrap_or_def)
qed (simp_all add: engine_replay_summary_def replay_canonical_history_def, use replay_events_not_panicked in auto)

section \<open>Heads\<close>

lemma fold_parents: "fold (\<lambda>event seen. fold insert (ev_parent_hashes event) seen) es S =
    S \<union> (\<Union>e \<in> set es. set (ev_parent_hashes e))"
proof -
  have "fold insert xs S = S \<union> set xs" for xs :: "string list" and S
    by (induction xs arbitrary: S) auto
  then have *: "(\<lambda>event. fold insert (ev_parent_hashes event)) = (\<lambda>e S. S \<union> set (ev_parent_hashes e))"
    by (intro ext) simp
  show ?thesis unfolding * by (induction es arbitrary: S) auto
qed

lemma compute_heads_set:
  "set (compute_heads es) = ev_event_hash ` set es - (\<Union>e \<in> set es. set (ev_parent_hashes e))"
  by (auto simp: compute_heads_def fold_parents Let_def)

lemma distinct_remdups_sorted: "sorted (xs :: 'a::linorder list) \<Longrightarrow> distinct (remdups_adj xs)"
  by (induction xs rule: remdups_adj.induct) auto

lemma compute_heads_sorted: "sorted (compute_heads es)" "distinct (compute_heads es)"
  by (simp_all add: compute_heads_def Let_def distinct_remdups_sorted)

lemma heads_exist:
  assumes "well_formed_dag es" "es \<noteq> []"
  shows "compute_heads es \<noteq> []"
proof
  assume none: "compute_heads es = []"
  have "parent_edges es \<subseteq> (\<Union>e \<in> set es. set (ev_parent_hashes e)) \<times> ev_event_hash ` set es"
    by (auto simp: parent_edges_def)
  then have fin: "finite (parent_edges es)" by (rule finite_subset) simp
  then have wf: "wf ((parent_edges es)\<inverse>)"
    using assms(1) by (intro finite_acyclic_wf_converse) (simp_all add: well_formed_dag_def)
  obtain e where "e \<in> set es" using assms(2) by (cases es) auto
  then have "ev_event_hash e \<in> ev_event_hash ` set es" by simp
  from wfE_min [OF wf this] obtain h where h: "h \<in> ev_event_hash ` set es"
    "\<And>y. (y, h) \<in> (parent_edges es)\<inverse> \<Longrightarrow> y \<notin> ev_event_hash ` set es" by metis
  from h(1) none compute_heads_set [of es] obtain f where f: "f \<in> set es" "h \<in> set (ev_parent_hashes f)"
    by auto
  then have "(h, ev_event_hash f) \<in> parent_edges es" by (auto simp: parent_edges_def)
  with h(2) f(1) show False by auto
qed

section \<open>The check of a record\<close>

lemma single_event_dag: "validate_dag [e] = Ok () \<longleftrightarrow> ev_event_hash e \<noteq> [] \<and> ev_parent_hashes e = []"
proof -
  have "(ev_event_hash e, ev_event_hash e) \<in> parent_edges [e]" if "ev_event_hash e \<in> set (ev_parent_hashes e)"
    using that by (simp add: parent_edges_def)
  then have "ev_event_hash e \<notin> set (ev_parent_hashes e)" if "acyclic (parent_edges [e])"
    using that by (auto simp: acyclic_def dest: r_into_trancl)
  moreover have "acyclic (parent_edges [e])" if "ev_parent_hashes e = []"
    using that by (simp add: parent_edges_def acyclic_def)
  ultimately show ?thesis
    by (auto simp: validate_dag_iff well_formed_dag_def linked_events_def)
      (metis all_not_in_conv list.set_intros(1) neq_Nil_conv)
qed

lemma summary_not_panicked:
  assumes "\<forall>m. fj_of_states F m \<noteq> None"
  shows "engine_replay_summary X F k \<noteq> Panicked"
proof (cases "replay_canonical_history X k")
  case (Ok r)
  obtain a b where total: "fj_of_states F [] = Some a" "fj_of_states F (rr_final_state r) = Some b"
    using assms by (meson not_Some_eq)
  show ?thesis
  proof (cases "query_events k = []")
    case True
    then show ?thesis
      by (simp add: engine_replay_summary_def Ok engine_events_def Let_def replay_from_events_def json_part_def total)
  next
    case False
    then show ?thesis
      using assms by (auto simp: summary_nonempty [OF Ok] json_part_def split: option.split)
  qed
next
  case Panicked
  then show ?thesis using replay_events_not_panicked by (auto simp: replay_canonical_history_def)
qed (simp add: engine_replay_summary_def)

lemma collect_not_panicked:
  assumes "\<forall>m. fj_of_states F m \<noteq> None" "\<forall>e. fj_of_event F e \<noteq> None" "snd (f (ki_engine i)) \<noteq> Panicked"
  shows "snd (execute_and_collect X F name f i) \<noteq> Panicked"
  using assms summary_not_panicked [OF assms(1)]
  by (auto simp: execute_and_collect_def engine_events_def Let_def and_then_Panicked json_parts_def list_all_iff
      split: prod.split)

lemma pair_operation_not_panicked:
  assumes "\<forall>s. fj_of_state F s \<noteq> None" "snd (m k) \<noteq> Panicked"
  shows "snd (pair_operation F m k) \<noteq> Panicked"
  using assms by (auto simp: pair_operation_def json_values_def and_then_Panicked split: prod.splits)

end
