(* ===== verification/Foreign_Properties.thy ===== *)
theory Foreign_Properties
  imports Foreign_Replay Engine_Value
begin

text \<open>The properties of the C interface, with a sample of its argument.\<close>

section \<open>A sample\<close>

definition sample_reader :: "'a \<Rightarrow> 'a reader" where
  "sample_reader x = \<lparr> from_str = \<lambda>_. Inr x, from_value = \<lambda>_. Inr x \<rparr>"

definition sample_submit :: "string \<Rightarrow> u8 \<Rightarrow> submit_event_request" where
  "sample_submit i key =
     \<lparr> sq_request_id = i, sq_operation = ''transfer'', sq_actor_public_key = hex_encode (replicate 32 key),
       sq_signature = hex_encode (replicate 32 key @ as_bytes ''{}''), sq_params = JNull \<rparr>"

definition sample_foreign :: "vector_event \<Rightarrow> foreign" where
  "sample_foreign e =
     \<lparr> fj_value = \<lambda>_. Inr JNull, fj_value_text = \<lambda>_. Inr ''null'', fj_event = sample_reader e,
       fj_events = sample_reader [e], fj_submit = sample_reader (sample_submit ''r-1'' 171),
       fj_submits = sample_reader [sample_submit ''r-1'' 171],
       fj_origin = sample_reader \<lparr> oq_vector_id = ''v-a'', oq_owner_pubkey = ''pk'', oq_space_id = ''sp'',
         oq_components = [1000, 2000], oq_seed = ''s'', oq_nonce = 0, oq_difficulty = 0 \<rparr>,
       fj_transfer = sample_reader \<lparr> tq_from_id = ''v-a'', tq_to_id = ''v-b'', tq_amount = [250, 250] \<rparr>,
       fj_drain = sample_reader \<lparr> dq_vector_id = ''v-a'', dq_basis_points = 100 \<rparr>,
       fj_project = sample_reader \<lparr> pq_vector_id = ''v-a'', pq_projected_components = [10, 20],
         pq_escrow_id = ''escrow-1'' \<rparr>,
       fj_reconstruct = sample_reader \<lparr> xq_vector_id = ''v-a'', xq_outcome_tag = ''settled'', xq_gains = [0, 0],
         xq_losses = [0, 0] \<rparr>,
       fj_certify = sample_reader \<lparr> cq_vector_id = ''v-a'' \<rparr>,
       fj_query_vector = sample_reader \<lparr> qq_vector_id = ''v-a'' \<rparr>,
       fj_query_event = sample_reader \<lparr> hq_event_hash = ''h'' \<rparr>,
       fj_of_state = \<lambda>_. Some JNull, fj_of_event = \<lambda>_. Some JNull, fj_of_record = \<lambda>_. Some JNull,
       fj_of_states = \<lambda>_. Some JNull \<rparr>"

abbreviation sample_f :: foreign where
  "sample_f \<equiv> sample_foreign sample_event"

definition sample_handle :: "kernel_engine \<Rightarrow> kernel_handle" where
  "sample_handle k = kernel_init\<lparr> kh_inner := (kh_inner kernel_init)\<lparr> ki_engine := k \<rparr> \<rparr>"

lemma sample_handle_fields [simp]:
  "\<not> kh_locked (sample_handle k)" "\<not> kh_poisoned (sample_handle k)" "ki_engine (kh_inner (sample_handle k)) = k"
  "ki_seen (kh_inner (sample_handle k)) = {}"
  by (simp_all add: sample_handle_def kernel_init_def)

lemma sample_input: "from_c_string (Some ''{}'') = Ok ''{}''"
  by (simp add: from_c_string_def utf8_width_def)

lemma sample_transfer_task:
  obtains k k' r where "kernel_steps sample_crates kernel_new k" "k' \<noteq> k"
    "transfer sample_crates (\<lambda>_. 9) ''v-a'' ''v-b'' [250, 250] k = (k', Ok r)"
    "snd (transfer_task sample_crates sample_f (\<lambda>_. 9)
       \<lparr> tq_from_id = ''v-a'', tq_to_id = ''v-b'', tq_amount = [250, 250] \<rparr> (kh_inner (sample_handle k))) \<noteq> Panicked"
proof -
  obtain k k' a b where k: "kernel_steps sample_crates kernel_new k" "kernel_ok sample_crates k"
    "transfer sample_crates (\<lambda>_. 9) ''v-a'' ''v-b'' [250, 250] k = (k', Ok (a, b))"
    by (rule sample_transfer_run [of "''v-b''"]) (simp, rule that)
  have "snd (transfer_task sample_crates sample_f (\<lambda>_. 9)
       \<lparr> tq_from_id = ''v-a'', tq_to_id = ''v-b'', tq_amount = [250, 250] \<rparr> (kh_inner (sample_handle k))) \<noteq> Panicked"
    unfolding transfer_task_def
    by (intro collect_not_panicked pair_operation_not_panicked) (simp_all add: sample_foreign_def k(3))
  moreover obtain st where "get_state (ke_store k) ''v-a'' = Some st" "value_of a + 500 = value_of st"
    "get_state (ke_store k') ''v-a'' = Some a"
    by (rule transfer_values [OF k(2,3)]) (rule that, simp_all)
  then have "k' \<noteq> k" by auto
  ultimately show thesis using that k(1,3) by blast
qed

lemma sample_owner:
  obtains k :: kernel_engine and st :: vector_state_v1 where "get_state (ke_store k) ''v-a'' = Some st" "v1_owner_pubkey st = ''pk''"
proof -
  obtain k a where o: "origin_create sample_crates (\<lambda>_. 5) ''v-a'' ''pk'' ''sp'' [1000, 2000] ''s'' 0 0 kernel_new = (k, Ok a)"
    by (rule sample_two_origins)
  obtain st c r where d:
    "create_origin_vector (cr_hash sample_crates) 5 ''v-a'' ''pk'' ''sp'' [1000, 2000] ''s'' 0 0 = Ok st"
    "a = st\<lparr> v1_certification := c \<rparr>"
    "log_transition sample_crates None a Op_OriginCreate (v1_version a) (v1_created_at_ms a)
       (\<lambda>k. []) (written [a] [r] kernel_new) = (k, Ok ())"
    by (rule origin_create_Ok [OF o]) (rule that; assumption)
  then have a: "v1_vector_id a = ''v-a''" "v1_owner_pubkey a = ''pk''" by (auto simp: create_origin_vector_Ok)
  then have "get_state (ke_store k) ''v-a'' = Some a"
    by (simp add: log_transition_frame [OF d(3)] vectors.get_put)
  with a(2) show thesis by (intro that [of k a])
qed

lemma sample_name: "operation_name ''transfer'' = ''transfer''"
proof -
  have "trim ''transfer'' = ''transfer''" by (rule trim_all_solid) (simp add: solid_def)
  moreover have "to_ascii_lowercase ''transfer'' = ''transfer''" by code_simp
  ultimately show ?thesis by (simp add: operation_name_def)
qed

lemma sample_submit_valid:
  assumes "trim i \<noteq> []" "i \<notin> ki_seen inner"
  shows "\<exists>v. validate_submit_request sample_crates sample_f inner (sample_submit i key) = Ok v"
proof -
  have blank: "trim (hex_encode bs) \<noteq> []" if "bs \<noteq> []" for bs
  proof -
    have "hex_encode bs \<noteq> []" using that by (cases bs) simp_all
    then show ?thesis using trim_all_solid [OF hex_encode_solid] by simp
  qed
  have "validate_operation_shape sample_f ''transfer'' JNull = Ok ()"
    by (simp add: validate_operation_shape_def sample_name shape_def sample_foreign_def sample_reader_def)
  moreover have "canonical_submit_request_bytes sample_crates sample_f (sample_submit i key) = Ok (as_bytes ''{}'')"
    by (simp add: canonical_submit_request_bytes_def Let_def sample_foreign_def sample_crates_def sample_json_def)
  moreover have "verifying_key_from_hex (cr_ed sample_crates) (hex_encode (replicate 32 key)) = Inr (replicate 32 key)"
    by (simp add: verifying_key_from_hex_def sample_crates_def sample_ed25519_def)
  moreover have "verify_event_signature (cr_ed sample_crates) (replicate 32 key) (as_bytes ''{}'')
      (hex_encode (replicate 32 key @ as_bytes ''{}'')) = Inr True"
    by (simp add: verify_event_signature_def sample_crates_def sample_ed25519_def)
  ultimately show ?thesis
    using assms blank [of "replicate 32 key"] blank [of "replicate 32 key @ as_bytes ''{}''"]
    by (simp add: validate_submit_request_def sample_submit_def)
qed

lemma sample_submit_run:
  obtains k h' r where
    "kernel_submit_event sample_crates sample_f (\<lambda>_. 9) (Some ''{}'') (Some (sample_handle k)) = (Some h', r)"
    "ki_engine (kh_inner h') \<noteq> k"
proof -
  obtain k k' r where k: "k' \<noteq> k"
    "transfer sample_crates (\<lambda>_. 9) ''v-a'' ''v-b'' [250, 250] k = (k', Ok r)"
    by (rule sample_transfer_task)
  let ?q = "sample_submit ''r-1'' 171"
  have q: "from_str (fj_submit sample_f) ''{}'' = Inr ?q" by (simp add: sample_foreign_def sample_reader_def)
  obtain h' x where h: "kernel_submit_event sample_crates sample_f (\<lambda>_. 9) (Some ''{}'') (Some (sample_handle k)) = (Some h', x)"
    "ki_engine (kh_inner h') = ki_engine (fst (request_task sample_crates sample_f (\<lambda>_. 9) ?q (kh_inner (sample_handle k))))"
    by (rule submit_event_runs [OF _ _ sample_input q, of "sample_handle k"]) (simp, simp, rule that)
  have "trim ''r-1'' \<noteq> []" by (simp add: trim_all_solid [of "''r-1''"] solid_def)
  then obtain v where v: "validate_submit_request sample_crates sample_f (kh_inner (sample_handle k)) ?q = Ok v"
    using sample_submit_valid by fastforce
  have p: "from_value (fj_transfer sample_f) JNull =
      Inr \<lparr> tq_from_id = ''v-a'', tq_to_id = ''v-b'', tq_amount = [250, 250] \<rparr>"
    by (simp add: sample_foreign_def sample_reader_def)
  have "submitted_task sample_crates sample_f (\<lambda>_. 9) ?q = payload_task ''transfer'' (fj_transfer sample_f) JNull
      (transfer_task sample_crates sample_f (\<lambda>_. 9))"
    by (simp add: submitted_task_def sample_submit_def sample_name)
  then have "ki_engine (fst (submitted_task sample_crates sample_f (\<lambda>_. 9) ?q (kh_inner (sample_handle k)))) = k'"
    by (simp add: payload_task_def p transfer_task_def) (subst execute_and_collect_engine, simp add: k(2))
  then have "ki_engine (kh_inner h') = k'"
    by (cases "submitted_task sample_crates sample_f (\<lambda>_. 9) ?q (kh_inner (sample_handle k))")
      (auto simp: h(2) request_task_def v split: result.split)
  with that h(1) k(1) show thesis by metis
qed

section \<open>Properties of the calls\<close>

text \<open>
  C13: None of the calls that report their outcome while they hold the lock returns it: all of the
  operations, the queries of vectors, records and events, and the replay, called on a live handle, return
  only where the input was refused before the lock was taken, with the engine as it was. So no operation
  and no query ever succeeds through the C interface.
\<close>

theorem reporting_calls_return_refusals:
  assumes "reporting_call X F c" "c (Some h) = (ho, Returns s)"
  shows "\<exists>e h'. s = ffi_err_json X e \<and> ho = Some h' \<and> ki_engine (kh_inner h') = ki_engine (kh_inner h)"
  using reporting_call_refused [OF assms] by (simp add: refused_def)

theorem reporting_calls_return_refusals_witness:
  "\<exists>h' s. kernel_transfer sample_crates sample_f (\<lambda>_. 9) None (Some kernel_init) = (Some h', Returns s) \<and>
     ki_engine (kh_inner h') = ki_engine (kh_inner kernel_init)"
proof -
  have "\<exists>ho s. kernel_transfer sample_crates sample_f (\<lambda>_. 9) None (Some kernel_init) = (ho, Returns s)"
    by (simp add: kernel_transfer_def kernel_operation_def on_handle_def checked_input_def from_c_string_def
        report_err_def ffi_bind_def set_last_error_def ffi_return_def kernel_init_def)
  then obtain ho s where "kernel_transfer sample_crates sample_f (\<lambda>_. 9) None (Some kernel_init) = (ho, Returns s)"
    by blast
  with reporting_calls_return_refusals [OF reporting_call.intros(2) this] show ?thesis by blast
qed

text \<open>
  C12: A transfer called through the C interface takes effect and never returns: the engine is left as
  the operation left it, the lock stays held, and from then on every call on the handle is stuck, the
  query of the last error included.
\<close>

theorem transfer_call_takes_effect_and_hangs:
  assumes "\<not> kh_locked h" "\<not> kh_poisoned h"
    and "from_c_string input = Ok t" "from_str (fj_transfer F) t = Inr q"
    and "transfer X clk (tq_from_id q) (tq_to_id q) (tq_amount q) (ki_engine (kh_inner h)) = (k', r)"
    and "snd (transfer_task X F clk q (kh_inner h)) \<noteq> Panicked"
  shows "\<exists>h'. kernel_transfer X F clk input (Some h) = (Some h', Stuck) \<and> ki_engine (kh_inner h') = k' \<and>
    kernel_last_error (Some h') = (Some h', Stuck) \<and>
    kernel_compute_state_root X (Some h') = (Some h', Stuck) \<and>
    kernel_submit_event X F clk' input' (Some h') = (Some h', Stuck)"
proof -
  let ?i = "(kh_inner h)\<lparr> ki_engine := k' \<rparr>"
  let ?h = "h\<lparr> kh_locked := True, kh_inner := ?i \<rparr>"
  have "transfer_task X F clk q (kh_inner h) = (?i, snd (transfer_task X F clk q (kh_inner h)))"
    unfolding transfer_task_def by (subst execute_and_collect_engine) (simp add: assms(5))
  with assms(6) obtain x where x: "transfer_task X F clk q (kh_inner h) = (?i, x)" "x \<noteq> Panicked" by metis
  have "kernel_transfer X F clk input (Some h) = (Some ?h, Stuck)"
    unfolding kernel_transfer_def kernel_operation_def on_handle_Some
    using assms(1-4) x by (cases x) (simp_all add: checked_input_def read_request_def)
  then show ?thesis
    by (intro exI [of _ ?h]) (simp add: dead_handle)
qed

theorem transfer_call_takes_effect_and_hangs_witness:
  "\<exists>k k' r h'. transfer sample_crates (\<lambda>_. 9) ''v-a'' ''v-b'' [250, 250] k = (k', Ok r) \<and>
     kernel_transfer sample_crates sample_f (\<lambda>_. 9) (Some ''{}'') (Some (sample_handle k)) = (Some h', Stuck) \<and>
     ki_engine (kh_inner h') = k' \<and> kernel_last_error (Some h') = (Some h', Stuck)"
proof -
  obtain k k' r where k: "transfer sample_crates (\<lambda>_. 9) ''v-a'' ''v-b'' [250, 250] k = (k', Ok r)"
    "snd (transfer_task sample_crates sample_f (\<lambda>_. 9)
       \<lparr> tq_from_id = ''v-a'', tq_to_id = ''v-b'', tq_amount = [250, 250] \<rparr> (kh_inner (sample_handle k))) \<noteq> Panicked"
    by (rule sample_transfer_task)
  have "from_str (fj_transfer sample_f) ''{}'' =
      Inr \<lparr> tq_from_id = ''v-a'', tq_to_id = ''v-b'', tq_amount = [250, 250] \<rparr>"
    by (simp add: sample_foreign_def sample_reader_def)
  from transfer_call_takes_effect_and_hangs [OF _ _ sample_input this _ k(2)] k(1)
  show ?thesis by fastforce
qed

text \<open>
  A submitted request is never accepted: a call of \<open>kernel_submit_event\<close> that returns returns an
  error, whatever the request, since the call that clears the last error takes the lock a second time.
\<close>

theorem submit_never_accepts:
  assumes "kernel_submit_event X F clk input (Some h) = (ho, Returns s)"
  shows "\<exists>e. s = ffi_err_json X e"
proof -
  have err: "x = ffi_err_json X e" if "report_err X e h1 = (h2, Returns x)" for e h1 h2 x
    using report_err_returns that by blast
  from assms show ?thesis
    by (auto simp: kernel_submit_event_def on_handle_Some checked_input_def ffi_bind_def
        split: result.splits prod.splits call.splits dest: err execute_submit_returns)
qed

theorem submit_never_accepts_witness:
  "\<exists>ho e. kernel_submit_event sample_crates sample_f (\<lambda>_. 9) None (Some kernel_init) =
     (ho, Returns (ffi_err_json sample_crates e))"
proof -
  have "\<exists>ho s. kernel_submit_event sample_crates sample_f (\<lambda>_. 9) None (Some kernel_init) = (ho, Returns s)"
    by (simp add: kernel_submit_event_def on_handle_def checked_input_def from_c_string_def
        report_err_def ffi_bind_def set_last_error_def ffi_return_def kernel_init_def)
  then obtain ho s where r: "kernel_submit_event sample_crates sample_f (\<lambda>_. 9) None (Some kernel_init) = (ho, Returns s)"
    by blast
  from submit_never_accepts [OF r] r show ?thesis by blast
qed

text \<open>
  C14: Only a signed request that was not seen before reaches the kernel: where a call of
  \<open>kernel_submit_event\<close> changes the engine, the input is a request whose signature holds under the key it
  names, over the bytes of its identifier, operation, key and parameters, its identifier is new, and the
  change is a run of kernel operations.
\<close>

theorem submitted_request_is_signed:
  assumes "kernel_submit_event X F clk input (Some h) = (Some h', r)"
    and "ki_engine (kh_inner h') \<noteq> ki_engine (kh_inner h)"
  shows "\<exists>t q. from_c_string input = Ok t \<and> from_str (fj_submit F) t = Inr q \<and> signed_request X F q \<and>
    sq_request_id q \<notin> ki_seen (kh_inner h) \<and>
    kernel_steps X (ki_engine (kh_inner h)) (ki_engine (kh_inner h'))"
proof -
  obtain t q where q: "from_c_string input = Ok t" "from_str (fj_submit F) t = Inr q"
    "ki_engine (kh_inner h') = ki_engine (fst (request_task X F clk q (kh_inner h)))"
    using submit_event_cases [OF assms(1)] assms(2) by blast
  obtain i x where i: "request_task X F clk q (kh_inner h) = (i, x)" by fastforce
  from request_task_cases [OF i] assms(2) q(3) i show ?thesis
    using q(1,2) by (auto dest: validate_submit_request_Ok)
qed

theorem submitted_request_is_signed_witness:
  "\<exists>k h' r. kernel_submit_event sample_crates sample_f (\<lambda>_. 9) (Some ''{}'') (Some (sample_handle k)) = (Some h', r) \<and>
     ki_engine (kh_inner h') \<noteq> k \<and> kernel_steps sample_crates k (ki_engine (kh_inner h')) \<and>
     signed_request sample_crates sample_f (sample_submit ''r-1'' 171)"
proof -
  obtain k h' r where c:
    "kernel_submit_event sample_crates sample_f (\<lambda>_. 9) (Some ''{}'') (Some (sample_handle k)) = (Some h', r)"
    "ki_engine (kh_inner h') \<noteq> k"
    by (rule sample_submit_run)
  have "from_str (fj_submit sample_f) ''{}'' = Inr (sample_submit ''r-1'' 171)"
    by (simp add: sample_foreign_def sample_reader_def)
  with submitted_request_is_signed [OF c(1)] c sample_input show ?thesis by auto
qed

text \<open>
  C15: The owner of a vector plays no part: two requests that name the same operation with the same
  parameters, each valid under the key it names, do the same to the kernel, whoever signed them.
\<close>

theorem submit_ignores_the_owner:
  assumes "validate_submit_request X F i q = Ok v" "validate_submit_request X F i q' = Ok v'"
    and "sq_operation q' = sq_operation q" "sq_params q' = sq_params q"
  shows "ki_engine (fst (request_task X F clk q' i)) = ki_engine (fst (request_task X F clk q i)) \<and>
    snd (request_task X F clk q' i) = snd (request_task X F clk q i)"
proof -
  have "submitted_task X F clk q' i = submitted_task X F clk q i"
    by (simp add: submitted_task_def assms(3,4))
  then show ?thesis
    by (simp add: request_task_def assms(1,2) split: prod.split result.split)
qed

theorem submit_ignores_the_owner_witness:
  "\<exists>k st. get_state (ke_store k) ''v-a'' = Some st \<and> v1_owner_pubkey st = ''pk'' \<and>
     ki_engine (fst (request_task sample_crates sample_f (\<lambda>_. 9) (sample_submit ''r-2'' 205) (kh_inner (sample_handle k)))) =
     ki_engine (fst (request_task sample_crates sample_f (\<lambda>_. 9) (sample_submit ''r-1'' 171) (kh_inner (sample_handle k))))"
proof -
  obtain k :: kernel_engine and st :: vector_state_v1 where k: "get_state (ke_store k) ''v-a'' = Some st" "v1_owner_pubkey st = ''pk''"
    by (rule sample_owner)
  have t: "trim ''r-1'' \<noteq> []" "trim ''r-2'' \<noteq> []"
    by (simp_all add: trim_all_solid [of "''r-1''"] trim_all_solid [of "''r-2''"] solid_def)
  obtain v v' where v: "validate_submit_request sample_crates sample_f (kh_inner (sample_handle k)) (sample_submit ''r-1'' 171) = Ok v"
    "validate_submit_request sample_crates sample_f (kh_inner (sample_handle k)) (sample_submit ''r-2'' 205) = Ok v'"
    using sample_submit_valid [OF t(1)] sample_submit_valid [OF t(2)] by fastforce
  from submit_ignores_the_owner [OF v] k show ?thesis
    by (auto simp: sample_submit_def)
qed

text \<open>
  C16: The replay summary succeeds exactly where the log is not empty and its replay returns, and then
  holds what the replay returned, with the heads of the log: the two replays the code compares never
  diverge on a log that is not empty. On the empty log they always do, and the summary is an error.
\<close>

theorem replay_summary_decides:
  assumes "\<forall>m. fj_of_states F m \<noteq> None" "\<forall>b. cr_hash X b \<noteq> []"
  shows "(engine_replay_summary X F k = Ok j \<longleftrightarrow>
      query_events k \<noteq> [] \<and> (\<exists>r. replay_canonical_history X k = Ok r \<and>
        j = replay_json (rr_state_root r) (rr_replay_hash r) (rr_applied_event_hashes r)
          (the (fj_of_states F (rr_final_state r))) (of_nat (length (query_events k)))
          (sr_logical_clock (rr_state_root r)) (compute_heads (query_events k)))) \<and>
    engine_replay_summary X F k \<noteq> Panicked"
proof (cases "query_events k = []")
  case True
  with summary_empty [of k X F] assms show ?thesis by auto
next
  case False
  show ?thesis
  proof (cases "replay_canonical_history X k")
    case (Ok r)
    obtain a where "fj_of_states F (rr_final_state r) = Some a" using assms(1) by (meson not_Some_eq)
    with summary_nonempty [OF Ok False, of F] False Ok show ?thesis
      by (auto simp: json_part_def summary_json_def)
  next
    case (Err e)
    then show ?thesis by (simp add: engine_replay_summary_def)
  next
    case Panicked
    then show ?thesis using replay_events_not_panicked by (auto simp: replay_canonical_history_def)
  qed
qed

theorem replay_summary_decides_witness:
  "\<not> (\<exists>j. engine_replay_summary sample_crates sample_f kernel_new = Ok j) \<and>
   engine_replay_summary sample_crates sample_f kernel_new \<noteq> Panicked"
proof -
  have "query_events kernel_new = []"
    by (simp add: query_events_def load_events_for_replay_def kernel_new_def store_default_def)
  with replay_summary_decides [OF _ sample_crates_hash(2), of sample_f kernel_new] show ?thesis
    by (simp add: sample_foreign_def)
qed

text \<open>
  The heads of a log are the hashes of the events that no event names as a parent, in order and each
  of them once; and a well-formed log that is not empty has a head.
\<close>

theorem heads_are_the_childless:
  "sorted (compute_heads es) \<and> distinct (compute_heads es) \<and>
   set (compute_heads es) = ev_event_hash ` set es - (\<Union>e \<in> set es. set (ev_parent_hashes e)) \<and>
   (well_formed_dag es \<and> es \<noteq> [] \<longrightarrow> compute_heads es \<noteq> [])"
  by (simp add: compute_heads_sorted compute_heads_set heads_exist)

theorem heads_are_the_childless_witness: "compute_heads sample_log \<noteq> [] \<and> set (compute_heads sample_log) = {''h2''}"
proof -
  note t = heads_are_the_childless [of sample_log]
  have "sample_log \<noteq> []" by (simp add: sample_log_def)
  with t sample_log_well_formed have "compute_heads sample_log \<noteq> []" by simp
  moreover have "set (compute_heads sample_log) = {''h2''}"
    using t by (elim conjE) (auto simp: sample_log_def sample_event_def ev_new_def)
  ultimately show ?thesis by simp
qed

text \<open>
  C31: The check of a record accepts an event exactly where its two hashes are its own, its signature
  holds under its actor's key, and it has no parents: an event with a parent is never verified, since its
  graph is checked alone, and neither is an event without a signature, as the operations log them.
\<close>

theorem verified_record_has_no_parents:
  assumes "from_c_string input = Ok t" "parse_record F t = Ok e" "\<forall>b. cr_hash X b \<noteq> []"
  shows "kernel_verify_record X F input (Some h) = on_handle X
    (if canonical_payload_hash (cr_hash X) e = ev_payload_hash e \<and> canonical_event_hash (cr_hash X) e = ev_event_hash e \<and>
        ev_parent_hashes e = [] \<and>
        (\<exists>vk. verifying_key_from_hex (cr_ed X) (ev_actor_public_key e) = Inr vk \<and> ev_actor_public_key e \<noteq> [] \<and>
           ev_signature e \<noteq> [] \<and>
           verify_event_signature (cr_ed X) vk (canonical_event_payload_bytes e) (ev_signature e) = Inr True)
     then report_ok X (json_object [(''verified'', JBool True)])
     else report_err X ''record verification failed'') (Some h)"
proof -
  have v: "fst (event_signature_verdict X e) \<longleftrightarrow>
      (\<exists>vk. verifying_key_from_hex (cr_ed X) (ev_actor_public_key e) = Inr vk \<and> ev_actor_public_key e \<noteq> [] \<and>
           ev_signature e \<noteq> [] \<and>
           verify_event_signature (cr_ed X) vk (canonical_event_payload_bytes e) (ev_signature e) = Inr True)"
    by (auto simp: event_signature_verdict_def split: sum.split)
  have d: "is_ok (validate_dag [e]) \<longleftrightarrow> ev_parent_hashes e = []" if "canonical_event_hash (cr_hash X) e = ev_event_hash e"
    using that assms(3) single_event_dag [of e] by (auto simp: is_ok_iff canonical_event_hash_def)
  obtain ok err where se: "event_signature_verdict X e = (ok, err)" by fastforce
  define j where "j = json_object
        [(''event_id'', JString (ev_event_id e)), (''structure_ok'', JBool (is_ok (validate_event (cr_hash X) (cr_ed X) e))),
         (''payload_hash_ok'', JBool (canonical_payload_hash (cr_hash X) e = ev_payload_hash e)),
         (''event_hash_ok'', JBool (canonical_event_hash (cr_hash X) e = ev_event_hash e)),
         (''hashes_ok'', JBool (canonical_payload_hash (cr_hash X) e = ev_payload_hash e \<and> canonical_event_hash (cr_hash X) e = ev_event_hash e)),
         (''signature_ok'', JBool ok), (''signature_error'', json_opt_string err),
         (''dag_ok'', JBool (is_ok (validate_dag [e])))]"
  have j: "validate_event_internal X e = Ok j"
    "flag j ''hashes_ok'' \<longleftrightarrow> canonical_payload_hash (cr_hash X) e = ev_payload_hash e \<and> canonical_event_hash (cr_hash X) e = ev_event_hash e"
    "flag j ''dag_ok'' \<longleftrightarrow> is_ok (validate_dag [e])" "flag j ''signature_ok'' \<longleftrightarrow> ok"
    by (simp_all add: validate_event_internal_def se Let_def flag_def json_object_def unwrap_or_def j_def)
  have "flag j ''hashes_ok'' \<and> flag j ''dag_ok'' \<and> flag j ''signature_ok'' \<longleftrightarrow>
      canonical_payload_hash (cr_hash X) e = ev_payload_hash e \<and> canonical_event_hash (cr_hash X) e = ev_event_hash e \<and>
        ev_parent_hashes e = [] \<and> fst (event_signature_verdict X e)"
    using j(2-4) d se by auto
  then show ?thesis
    using assms(1,2) j(1) v by (simp add: kernel_verify_record_def checked_input_def on_handle_def Let_def)
qed

theorem verified_record_has_no_parents_witness:
  "kernel_verify_record sample_crates sample_f (Some ''{}'') (Some kernel_init) =
     on_handle sample_crates (report_err sample_crates ''record verification failed'') (Some kernel_init)"
proof -
  have "parse_record sample_f ''{}'' = Ok sample_event"
    by (simp add: parse_record_def parse_event_def sample_foreign_def sample_reader_def)
  from verified_record_has_no_parents [OF sample_input this sample_crates_hash(2), of kernel_init]
  show ?thesis by (simp add: sample_event_def ev_new_def)
qed

end
