(* ===== verification/Foreign_Runs.thy ===== *)
theory Foreign_Runs
  imports Foreign_Properties
begin

text \<open>
  The C interface as a state machine: the calls a program can make on one handle, in any order, and what
  is true of every handle that is reached.
\<close>

section \<open>Calls on a handle\<close>

inductive handle_call ::
  "crates \<Rightarrow> foreign \<Rightarrow> (kernel_handle option \<Rightarrow> kernel_handle option \<times> string call) \<Rightarrow> bool" for X F where
  call_report: "reporting_call X F c \<Longrightarrow> handle_call X F c"
| call_submit: "handle_call X F (kernel_submit_event X F clk input)"
| call_execute: "handle_call X F (kernel_execute_operation X F clks input)"
| call_verify: "handle_call X F (kernel_verify_record X F input)"
| call_root: "handle_call X F (kernel_compute_state_root X)"
| call_current: "handle_call X F (kernel_current_state_root X)"

text \<open>A step is one call, whether it returns or not; a live handle comes from \<open>kernel_init\<close> by steps.\<close>

inductive handle_step :: "crates \<Rightarrow> foreign \<Rightarrow> kernel_handle \<Rightarrow> kernel_handle \<Rightarrow> bool" for X F where
  step_call: "handle_call X F c \<Longrightarrow> c (Some h) = (Some h', r) \<Longrightarrow> handle_step X F h h'"
| step_last_error: "kernel_last_error (Some h) = (Some h', e) \<Longrightarrow> handle_step X F h h'"

inductive_cases handle_stepE: "handle_step X F h h'"

inductive handle_steps :: "crates \<Rightarrow> foreign \<Rightarrow> kernel_handle \<Rightarrow> kernel_handle \<Rightarrow> bool" for X F where
  handle_refl: "handle_steps X F h h"
| handle_next: "handle_steps X F h h' \<Longrightarrow> handle_step X F h' h'' \<Longrightarrow> handle_steps X F h h''"

section \<open>A handle whose lock is held\<close>

lemma checked_input_stuck:
  "kh_locked h \<Longrightarrow> r \<noteq> Panicked \<Longrightarrow> (\<And>x. f x h = (h, Stuck)) \<Longrightarrow> checked_input X r f h = (h, Stuck)"
  by (cases r) (simp_all add: checked_input_def)

lemma inputs_not_panicked [simp]:
  "from_c_string c \<noteq> Panicked" "parse_submit_request F s \<noteq> Panicked" "parse_submit_request_list F s \<noteq> Panicked"
  "read_request label reader s \<noteq> Panicked" "parse_record F s \<noteq> Panicked" "validate_event_internal X e \<noteq> Panicked"
  by (auto simp: from_c_string_def parse_submit_request_def parse_submit_request_list_def read_request_def parse_record_def
      validate_event_internal_def and_then_Panicked Let_def split: option.splits result.splits prod.splits sum.splits)

lemma execute_requests_stuck: "kh_locked h \<Longrightarrow> execute_requests X F clks n qs rs h = (h, Stuck)"
  by (cases qs) simp_all

lemmas stuck_simps = on_handle_Some on_handle_def kernel_operation_def kernel_origin_create_def kernel_transfer_def kernel_drain_def
  kernel_project_def kernel_reconstruct_def kernel_certify_def kernel_query_vector_def kernel_query_vectors_def
  kernel_query_records_def kernel_query_event_by_hash_def kernel_replay_def

lemma locked_report_stuck:
  assumes "reporting_call X F c" "kh_locked h"
  shows "c (Some h) = (Some h, Stuck)"
  using assms
  by (induction rule: reporting_call.induct) (simp_all add: stuck_simps checked_input_stuck)

lemma locked_call_stuck:
  assumes "handle_call X F c" "kh_locked h"
  shows "c (Some h) = (Some h, Stuck)"
  using assms
proof (induction rule: handle_call.induct)
  case (call_report c)
  then show ?case by (rule locked_report_stuck)
next
  case (call_submit clk input)
  then show ?case by (simp add: kernel_submit_event_def on_handle_Some checked_input_stuck)
next
  case (call_execute clks input)
  then show ?case by (simp add: kernel_execute_operation_def on_handle_Some checked_input_stuck execute_requests_stuck)
next
  case (call_verify input)
  then show ?case by (simp add: kernel_verify_record_def on_handle_Some checked_input_stuck Let_def)
qed (simp_all add: kernel_current_state_root_def kernel_compute_state_root_def on_handle_Some)

lemma locked_step: "handle_step X F h h' \<Longrightarrow> kh_locked h \<Longrightarrow> h' = h"
  by (elim handle_stepE) (auto dest: locked_call_stuck simp: kernel_last_error_def)

lemma locked_steps: "handle_steps X F h h' \<Longrightarrow> kh_locked h \<Longrightarrow> h' = h"
  by (induction rule: handle_steps.induct) (auto dest: locked_step)

section \<open>What the calls keep\<close>

text \<open>
  A sound handle is over a reachable kernel, its lock is not poisoned and it has recorded no request. Every
  call keeps it, but for a submitted request that succeeds, which leaves the lock held.
\<close>

definition sound_handle :: "crates \<Rightarrow> kernel_handle \<Rightarrow> bool" where
  "sound_handle X h \<longleftrightarrow>
     kernel_steps X kernel_new (ki_engine (kh_inner h)) \<and> \<not> kh_poisoned h \<and> ki_seen (kh_inner h) = {}"

definition keeps_sound :: "crates \<Rightarrow> 'a ffi \<Rightarrow> bool" where
  "keeps_sound X m \<longleftrightarrow> (\<forall>h. sound_handle X h \<longrightarrow> sound_handle X (fst (m h)))"

lemma keeps_soundD: "keeps_sound X m \<Longrightarrow> m h = (h', r) \<Longrightarrow> sound_handle X h \<Longrightarrow> sound_handle X h'"
  unfolding keeps_sound_def by (metis fst_conv)

lemma sound_fields [simp]:
  "sound_handle X (h\<lparr> kh_locked := b \<rparr>) \<longleftrightarrow> sound_handle X h"
  "sound_handle X (h\<lparr> kh_inner := (kh_inner h)\<lparr> ki_last_error := e \<rparr> \<rparr>) \<longleftrightarrow> sound_handle X h"
  by (simp_all add: sound_handle_def)

lemma keeps_sound_basic:
  "keeps_sound X (ffi_return x)" "keeps_sound X (release x)" "keeps_sound X (set_last_error e)"
  "keeps_sound X clear_last_error" "keeps_sound X last_error_string" "keeps_sound X (\<lambda>h. (h, Aborts))"
  by (simp_all add: keeps_sound_def ffi_return_def release_def set_last_error_def clear_last_error_def last_error_string_def)

lemma keeps_sound_bind: "keeps_sound X m \<Longrightarrow> (\<And>x. keeps_sound X (f x)) \<Longrightarrow> keeps_sound X (ffi_bind m f)"
  by (fastforce simp: keeps_sound_def ffi_bind_def split: prod.splits call.splits)

lemma keeps_sound_reports:
  "keeps_sound X (report_ok X v)" "keeps_sound X (report_err X e)" "keeps_sound X (report_json X r)"
proof -
  show e: "keeps_sound X (report_err X e)" for e by (simp add: report_err_def keeps_sound_bind keeps_sound_basic)
  show "keeps_sound X (report_ok X v)" by (simp add: report_ok_def keeps_sound_bind keeps_sound_basic)
  show "keeps_sound X (report_json X r)"
    by (cases r) (simp_all add: report_json_def keeps_sound_bind keeps_sound_basic e)
qed

lemma keeps_sound_input: "(\<And>x. keeps_sound X (f x)) \<Longrightarrow> keeps_sound X (checked_input X r f)"
  by (cases r) (simp_all add: checked_input_def keeps_sound_reports keeps_sound_basic)

lemma sound_task:
  assumes "kernel_task X body" "sound_handle X h"
  shows "sound_handle X (h\<lparr> kh_inner := fst (body (kh_inner h)) \<rparr>)"
proof -
  obtain k where "fst (body (kh_inner h)) = (kh_inner h)\<lparr> ki_engine := k \<rparr>" "kernel_steps X (ki_engine (kh_inner h)) k"
    using assms(1) by (auto simp: kernel_task_def)
  with assms(2) show ?thesis by (auto simp: sound_handle_def intro: kernel_steps_trans)
qed


lemma task_get_kernel [simp]: "kernel_task X (task_get f)"
  unfolding task_get_def [abs_def] by (rule kernel_task_pure)

lemma keeps_sound_lock:
  assumes "kernel_task X body" "\<And>x. keeps_sound X (on_ok x)" "\<And>e. keeps_sound X (on_err e)"
  shows "keeps_sound X (under_lock X body on_ok on_err)"
  unfolding keeps_sound_def
proof (intro allI impI)
  fix h assume h: "sound_handle X h"
  let ?h = "h\<lparr> kh_locked := True, kh_inner := fst (body (kh_inner h)) \<rparr>"
  have s: "sound_handle X ?h" using sound_task [OF assms(1), of "h\<lparr> kh_locked := True \<rparr>"] h by simp
  have ok: "sound_handle X (fst (ffi_bind (on_ok x) release ?h))" "sound_handle X (fst (ffi_bind (on_err e) release ?h))" for x e
    using keeps_sound_bind [of X "on_ok x" release, OF assms(2) keeps_sound_basic(2)]
      keeps_sound_bind [of X "on_err e" release, OF assms(3) keeps_sound_basic(2)] s
    by (simp_all add: keeps_sound_def)
  have "\<not> kh_poisoned h" using h by (simp add: sound_handle_def)
  with h s ok show "sound_handle X (fst (under_lock X body on_ok on_err h))"
    by (cases "body (kh_inner h)") (auto simp: under_lock_def Let_def split: result.split)
qed

lemmas sound_intros = keeps_sound_input keeps_sound_lock keeps_sound_bind keeps_sound_basic keeps_sound_reports
  operation_tasks task_get_kernel

lemma sound_on_handle:
  "keeps_sound X m \<Longrightarrow> on_handle X m (Some h) = (Some h', r) \<Longrightarrow> sound_handle X h \<Longrightarrow> sound_handle X h'"
  by (force simp: on_handle_Some keeps_sound_def)

lemma report_sound:
  assumes "reporting_call X F c" "c (Some h) = (Some h', r)" "sound_handle X h"
  shows "sound_handle X h'"
  using assms
  by (induction rule: reporting_call.induct)
    (unfold stuck_simps(3-) Let_def, (erule (1) sound_on_handle [rotated], intro sound_intros)+)

text \<open>A submitted request: where it returns it was refused, and otherwise the lock stays held.\<close>

lemma request_task_seen:
  assumes "request_task X F clk q i = (i', r)" "\<nexists>v. r = Ok v"
  shows "ki_seen i' = ki_seen i \<and> kernel_steps X (ki_engine i) (ki_engine i')"
proof -
  obtain k where "fst (submitted_task X F clk q i) = i\<lparr> ki_engine := k \<rparr>" "kernel_steps X (ki_engine i) k"
    using submitted_task_kernel [of X F clk q] unfolding kernel_task_def by blast
  with assms show ?thesis
    by (auto simp: request_task_def steps_refl split: prod.splits result.splits)
qed

lemma submit_returns_sound:
  assumes "execute_submit_request X F clk q h = (h', Returns r)" "sound_handle X h"
  shows "sound_handle X h'"
  using assms request_task_seen [of X F clk q "kh_inner h"]
  by (auto simp: execute_submit_request_def Let_def release_def sound_handle_def intro: kernel_steps_trans
      split: if_splits prod.splits result.splits)

definition live_handle :: "crates \<Rightarrow> kernel_handle \<Rightarrow> bool" where
  "live_handle X h \<longleftrightarrow>
     sound_handle X h \<or> (kh_locked h \<and> \<not> kh_poisoned h \<and> kernel_steps X kernel_new (ki_engine (kh_inner h)))"

lemma submit_live:
  assumes "execute_submit_request X F clk q h = (h', r)" "sound_handle X h"
  shows "live_handle X h'"
proof (cases r)
  case (Returns x)
  with submit_returns_sound assms show ?thesis by (auto simp: live_handle_def)
next
  case Stuck
  have "ki_engine (kh_inner h') = ki_engine (kh_inner h) \<or>
      kernel_steps X (ki_engine (kh_inner h)) (ki_engine (kh_inner h'))"
    using execute_submit_run [OF assms(1)] request_task_cases [of X F clk q "kh_inner h"] by (metis prod.collapse)
  with Stuck assms show ?thesis
    by (auto simp: execute_submit_request_def Let_def release_def live_handle_def sound_handle_def
        intro: kernel_steps_trans split: if_splits prod.splits result.splits)
next
  case Aborts
  with assms request_task_seen [of X F clk q "kh_inner h"] show ?thesis
    by (auto simp: execute_submit_request_def Let_def release_def live_handle_def sound_handle_def
        intro: kernel_steps_trans split: if_splits prod.splits result.splits)
qed

definition ends_live :: "crates \<Rightarrow> 'a ffi \<Rightarrow> bool" where
  "ends_live X m \<longleftrightarrow> (\<forall>h. sound_handle X h \<longrightarrow> live_handle X (fst (m h)))"

lemma ends_live_sound: "keeps_sound X m \<Longrightarrow> ends_live X m"
  by (simp add: keeps_sound_def ends_live_def live_handle_def)

lemma ends_live_input: "(\<And>x. ends_live X (f x)) \<Longrightarrow> ends_live X (checked_input X r f)"
  using ends_live_sound [OF keeps_sound_reports(2)] ends_live_sound [OF keeps_sound_basic(6)]
  by (cases r) (simp_all add: checked_input_def)

text \<open>What follows a submitted request handles an error at most, since no request returns a result.\<close>

lemma ends_live_submit:
  assumes "\<And>e. keeps_sound X (f (Err e))"
  shows "ends_live X (ffi_bind (execute_submit_request X F clk q) f)"
  unfolding ends_live_def
proof (intro allI impI)
  fix h assume h: "sound_handle X h"
  obtain h1 r1 where e: "execute_submit_request X F clk q h = (h1, r1)" by fastforce
  show "live_handle X (fst (ffi_bind (execute_submit_request X F clk q) f h))"
  proof (cases r1)
    case (Returns x)
    with e obtain m where "x = Err m" using execute_submit_returns by blast
    moreover have "sound_handle X h1" using submit_returns_sound e Returns h by blast
    ultimately show ?thesis
      using assms [of m] e Returns by (simp add: ffi_bind_def keeps_sound_def live_handle_def)
  qed (use e submit_live [OF e h] in \<open>simp_all add: ffi_bind_def\<close>)
qed

text \<open>A list of requests stops at the first one, whether it is refused or is stuck.\<close>

lemma ends_live_requests: "ends_live X (execute_requests X F clks n qs rs)"
  by (cases qs) (simp_all add: ends_live_sound keeps_sound_reports ends_live_submit)

lemma live_on_handle:
  "ends_live X m \<Longrightarrow> on_handle X m (Some h) = (Some h', r) \<Longrightarrow> sound_handle X h \<Longrightarrow> live_handle X h'"
  by (force simp: on_handle_Some ends_live_def)

lemma call_live:
  assumes "handle_call X F c" "c (Some h) = (Some h', r)" "sound_handle X h"
  shows "live_handle X h'"
  using assms
proof (induction rule: handle_call.induct)
  case (call_report c)
  then show ?case using report_sound by (auto simp: live_handle_def)
next
  case (call_submit clk input)
  then show ?case
    unfolding kernel_submit_event_def
    by (rule live_on_handle [rotated]) (intro ends_live_input ends_live_submit, simp add: keeps_sound_reports)
next
  case (call_execute clks input)
  then show ?case
    unfolding kernel_execute_operation_def
    by (rule live_on_handle [rotated]) (intro ends_live_input ends_live_requests)
next
  case (call_verify input)
  then show ?case
    unfolding kernel_verify_record_def Let_def
    by (rule live_on_handle [rotated]) (intro ends_live_sound keeps_sound_input, simp add: keeps_sound_reports)
qed (unfold kernel_current_state_root_def kernel_compute_state_root_def Let_def,
    (rule live_on_handle [rotated], assumption, assumption, intro ends_live_sound sound_intros)+)

lemma step_live:
  assumes "handle_step X F h h'" "live_handle X h"
  shows "live_handle X h'"
proof (cases "kh_locked h")
  case True
  with locked_step [OF assms(1)] assms(2) show ?thesis by simp
next
  case False
  then have h: "sound_handle X h" using assms(2) by (simp add: live_handle_def)
  from assms(1) show ?thesis
  proof (cases rule: handle_step.cases)
    case (step_call c r)
    then show ?thesis using call_live h by blast
  next
    case (step_last_error e)
    with False h show ?thesis
      by (auto simp: kernel_last_error_def last_error_string_def ffi_bind_def ffi_return_def live_handle_def
          split: prod.splits if_splits)
  qed
qed

lemma steps_live: "handle_steps X F h h' \<Longrightarrow> live_handle X h \<Longrightarrow> live_handle X h'"
  by (induction rule: handle_steps.induct) (auto dest: step_live)

lemma init_sound: "sound_handle X kernel_init"
  by (simp add: sound_handle_def kernel_init_def steps_refl)

section \<open>A sample run\<close>

lemma sample_origin_call:
  obtains k a h where "origin_create sample_crates (\<lambda>_. 5) ''v-a'' ''pk'' ''sp'' [1000, 2000] ''s'' 0 0 kernel_new = (k, Ok a)"
    "handle_steps sample_crates sample_f kernel_init h" "ki_engine (kh_inner h) = k" "kh_locked h"
proof -
  obtain k a where o: "origin_create sample_crates (\<lambda>_. 5) ''v-a'' ''pk'' ''sp'' [1000, 2000] ''s'' 0 0 kernel_new = (k, Ok a)"
    by (rule sample_two_origins)
  define q where "q = \<lparr> oq_vector_id = ''v-a'', oq_owner_pubkey = ''pk'', oq_space_id = ''sp'',
         oq_components = [1000, 2000 :: u128], oq_seed = ''s'', oq_nonce = 0, oq_difficulty = 0 \<rparr>"
  let ?t = "origin_task sample_crates sample_f (\<lambda>_. 5) q"
  have "?t (kh_inner kernel_init) = ((kh_inner kernel_init)\<lparr> ki_engine := k \<rparr>, snd (?t (kh_inner kernel_init)))"
    unfolding origin_task_def by (subst execute_and_collect_engine) (simp add: o q_def kernel_init_def)
  then obtain x where x: "?t (kh_inner kernel_init) = ((kh_inner kernel_init)\<lparr> ki_engine := k \<rparr>, x)" by metis
  have "\<exists>r. kernel_origin_create sample_crates sample_f (\<lambda>_. 5) (Some ''{}'') (Some kernel_init) =
      (Some (kernel_init\<lparr> kh_locked := True, kh_inner := (kh_inner kernel_init)\<lparr> ki_engine := k \<rparr> \<rparr>), r)"
    using x sample_input
    by (cases x)
      (simp_all add: kernel_origin_create_def kernel_operation_def on_handle_Some checked_input_def read_request_def
        sample_foreign_def sample_reader_def q_def [symmetric] kernel_init_def)
  then have "handle_steps sample_crates sample_f kernel_init
      (kernel_init\<lparr> kh_locked := True, kh_inner := (kh_inner kernel_init)\<lparr> ki_engine := k \<rparr> \<rparr>)"
    by (meson handle_steps.intros step_call call_report reporting_call.intros(1))
  from that [OF o this] show thesis by simp
qed

section \<open>Properties\<close>

text \<open>
  C10: The C interface runs the kernel: whatever calls a program makes on a handle, in whatever order,
  refused, stuck or returned, the engine behind the handle is a kernel reached by operations, so it has
  the invariant of every such kernel; the lock is never found poisoned; and while the handle can be used
  no request has been recorded on it, so the check for duplicate requests never refuses one.
\<close>

theorem handle_runs_the_kernel:
  assumes "handle_steps X F kernel_init h"
  shows "kernel_steps X kernel_new (ki_engine (kh_inner h)) \<and> kernel_ok X (ki_engine (kh_inner h)) \<and>
    \<not> kh_poisoned h \<and> (\<not> kh_locked h \<longrightarrow> ki_seen (kh_inner h) = {})"
proof -
  have "live_handle X kernel_init" using init_sound by (simp add: live_handle_def)
  from steps_live [OF assms this] have s: "kernel_steps X kernel_new (ki_engine (kh_inner h))" "\<not> kh_poisoned h"
    "\<not> kh_locked h \<longrightarrow> ki_seen (kh_inner h) = {}" by (auto simp: live_handle_def sound_handle_def)
  with kernel_steps_ok [OF s(1) kernel_ok_new] show ?thesis by blast
qed

theorem handle_runs_the_kernel_witness:
  "\<exists>h. handle_steps sample_crates sample_f kernel_init h \<and> kernel_ok sample_crates (ki_engine (kh_inner h)) \<and>
     ki_engine (kh_inner h) \<noteq> kernel_new"
proof -
  obtain k a h where h: "origin_create sample_crates (\<lambda>_. 5) ''v-a'' ''pk'' ''sp'' [1000, 2000] ''s'' 0 0 kernel_new = (k, Ok a)"
    "handle_steps sample_crates sample_f kernel_init h" "ki_engine (kh_inner h) = k"
    by (rule sample_origin_call)
  have "get_state (ke_store k) ''v-a'' \<noteq> None"
    by (rule origin_create_Ok [OF h(1)]) (auto simp: create_origin_vector_Ok log_transition_frame vectors.get_put)
  then have "k \<noteq> kernel_new" by (auto simp: kernel_new_def store_default_def get_state_def)
  with handle_runs_the_kernel [OF h(2)] h(2,3) show ?thesis by blast
qed

text \<open>
  C11: Once a call has left the lock of a handle held, which every operation that takes effect does, the
  handle is dead: every call on it is stuck, the query of the last error included, and no sequence of
  calls changes it.
\<close>

theorem locked_handle_is_dead:
  assumes "kh_locked h" "handle_call X F c"
  shows "c (Some h) = (Some h, Stuck) \<and> kernel_last_error (Some h) = (Some h, Stuck) \<and>
    (handle_steps X F h h' \<longrightarrow> h' = h)"
  using assms locked_call_stuck [OF assms(2,1)] locked_steps [of X F h h'] by (simp add: dead_handle)


theorem locked_handle_is_dead_witness:
  "\<exists>h. handle_steps sample_crates sample_f kernel_init h \<and>
     kernel_transfer sample_crates sample_f (\<lambda>_. 9) (Some ''{}'') (Some h) = (Some h, Stuck) \<and>
     kernel_last_error (Some h) = (Some h, Stuck)"
proof -
  obtain h where h: "handle_steps sample_crates sample_f kernel_init h" "kh_locked h" by (rule sample_origin_call)
  from locked_handle_is_dead [OF h(2) call_report [OF reporting_call.intros(2)]] h(1) show ?thesis by blast
qed

end
