(* ===== verification/Spec2Isabelle.thy ===== *)
theory Spec2Isabelle
  imports Engine_Value Python_Api Foreign_Runs
begin

text \<open>
  A verification library for \<^verbatim>\<open>v-kernelx\<close>, a kernel in Rust that keeps vectors of balances. A vector is a
  state with an owner, a space, components, a certification and perhaps an origin or a projection. The
  operations of the kernel (create an origin, certify, transfer, drain, project, reconstruct, create a
  region) compute a new state, write it to a store with an audit record, and append an event to a log.
  The log is a graph of hashed events; replaying it rebuilds the states of the events, the registry of
  the regions and a state root. Scripts, a C interface, a Python class, an SDK and a simulation harness drive
  the kernel.

  \<^bold>\<open>The theories and the sources\<close> (all sources are files of \<^verbatim>\<open>src/src/\<close>).

  \<^item> \<^verbatim>\<open>Prelude\<close>, \<^verbatim>\<open>Rust_Text\<close>, \<^verbatim>\<open>BTree\<close>, \<^verbatim>\<open>Codec\<close>: what the components share. Machine integers are
    words of their width, with the saturating and checked operations; a Rust \<open>Result\<close> is
    \<open>Ok | Err | Panicked\<close> (\<open>outcome\<close> with a \<open>KernelXError\<close>, from \<^verbatim>\<open>error.rs\<close>; \<open>text_outcome\<close> with a string);
    a \<open>String\<close> is the list of its UTF-8 bytes; a \<open>BTreeMap\<close> is the list of its entries in key order.
    \<^verbatim>\<open>Codec\<close> has the writers of \<^verbatim>\<open>serialization.rs\<close> and the locales of prefix-free encoders.
  \<^item> \<^verbatim>\<open>Vector_State\<close>: \<^verbatim>\<open>state.rs\<close>, the states, their canonical bytes and the state root.
  \<^item> \<^verbatim>\<open>Certification\<close>: \<^verbatim>\<open>certification.rs\<close> and \<^verbatim>\<open>origin.rs\<close>, with the ratios as IEEE doubles and the search
    for a nonce.
  \<^item> \<^verbatim>\<open>Value_Ops\<close>: \<^verbatim>\<open>drain.rs\<close>, \<^verbatim>\<open>transfer.rs\<close>, \<^verbatim>\<open>projection.rs\<close>, \<^verbatim>\<open>reconstruction.rs\<close> on states.
  \<^item> \<^verbatim>\<open>Audit_Record\<close>: \<^verbatim>\<open>record.rs\<close>, \<^verbatim>\<open>consensus.rs\<close> and the records of \<^verbatim>\<open>transfer.rs\<close>; JSON values.
  \<^item> \<^verbatim>\<open>Events\<close>, \<^verbatim>\<open>Signature\<close>, \<^verbatim>\<open>Validation\<close>: \<^verbatim>\<open>event.rs\<close>, \<^verbatim>\<open>hash.rs\<close>, \<^verbatim>\<open>signature.rs\<close>, \<^verbatim>\<open>wallet.rs\<close>,
    \<^verbatim>\<open>validation.rs\<close>: events, their bytes and hashes, signatures in hexadecimal, and what passes.
  \<^item> \<^verbatim>\<open>Region\<close>: \<^verbatim>\<open>region.rs\<close>, regions, their genesis events and the registry rebuilt from a log.
  \<^item> \<^verbatim>\<open>Kahn\<close>, \<^verbatim>\<open>Dag\<close>: \<^verbatim>\<open>dag.rs\<close>. \<^verbatim>\<open>Kahn\<close> is the algorithm on a graph of hashes in a locale; \<^verbatim>\<open>Dag\<close>
    instantiates it on events.
  \<^item> \<^verbatim>\<open>Replay\<close>, \<^verbatim>\<open>Snapshot\<close>: \<^verbatim>\<open>replay.rs\<close> and \<^verbatim>\<open>snapshot.rs\<close>.
  \<^item> \<^verbatim>\<open>Action\<close>, \<^verbatim>\<open>Storage\<close>: methods that change a state, as functions to the new state and the result, with
    the locale \<open>step_relation\<close>; and \<^verbatim>\<open>storage.rs\<close> and \<^verbatim>\<open>query.rs\<close>, the store in memory, with the locales
    \<open>keyed_store\<close> (interpreted on states, records and snapshots) and \<open>event_log\<close>.
  \<^item> \<^verbatim>\<open>Engine\<close>, \<^verbatim>\<open>Engine_Invariants\<close>, \<^verbatim>\<open>Engine_Log\<close>, \<^verbatim>\<open>Engine_Runs\<close>, \<^verbatim>\<open>Engine_Samples\<close>, \<^verbatim>\<open>Engine_Value\<close>:
    \<^verbatim>\<open>engine.rs\<close>, its invariant, the events its operations log, when they succeed, and what they do to the
    value in the store.
  \<^item> \<^verbatim>\<open>Engine_Flow\<close>, \<^verbatim>\<open>Engine_Regions\<close>, \<^verbatim>\<open>Engine_Replay\<close>: the operations in sequence, followed by the bag of
    the identifiers in the log (\<open>ledger\<close>); the log by the kinds of its events, and the regions of a kernel by
    their names; and the replay of the log against the store and the regions, by a chain of events for each
    vector.
  \<^item> \<^verbatim>\<open>Wallet\<close>, \<^verbatim>\<open>Sdk\<close>, \<^verbatim>\<open>Developer\<close>, \<^verbatim>\<open>Python_Api\<close>: \<^verbatim>\<open>wallet.rs\<close>, \<^verbatim>\<open>sdk.rs\<close>, \<^verbatim>\<open>developer.rs\<close>,
    \<^verbatim>\<open>python_api.rs\<close> and \<^verbatim>\<open>lib.rs\<close>. The locale \<open>front_end\<close> is the contract of a type that holds
    an engine; it is interpreted on the SDK's kernel, the harness and the Python class. \<open>engine_call\<close> is the
    calls of a client, \<open>kernel_call\<close> what the kernel does on each, and the locale \<open>simulation\<close> the agreement
    of another system with it, interpreted on the SDK and on the Python class.
  \<^item> \<^verbatim>\<open>Interpreter\<close>: \<^verbatim>\<open>interpreter.rs\<close>, scripts, one operation per line.
  \<^item> \<^verbatim>\<open>Foreign_Requests\<close>, \<^verbatim>\<open>Foreign\<close>, \<^verbatim>\<open>Foreign_Facts\<close>, \<^verbatim>\<open>Foreign_Replay\<close>, \<^verbatim>\<open>Foreign_Properties\<close>,
    \<^verbatim>\<open>Foreign_Runs\<close>: \<^verbatim>\<open>ffi.rs\<close>, the C interface, with the mutex of its handle, and the runs of its calls.

  \<^bold>\<open>Parameters.\<close> Code outside the sources is an argument. \<open>H\<close> is \<open>blake3::hash(..).to_hex()\<close>, \<open>E\<close> the
  crate \<open>ed25519_dalek\<close>, \<open>J\<close>, \<open>JR\<close>, \<open>SD\<close>, \<open>SJ\<close>, \<open>DJ\<close>, \<open>T\<close>, \<open>F\<close> and \<open>P\<close> are what \<open>serde_json\<close> makes of the types of
  the sources; the engine takes them as one record \<open>crates\<close>, whose \<open>cr_checks\<close> (the argument \<open>chk\<close> elsewhere)
  says whether the build has overflow checks and debug assertions. The clock is an argument: an operation
  reads \<open>clk 0\<close>, \<open>clk 1\<close> and so on. No property assumes a hash without collisions. Those that say when operations
  succeed have the collision as their other outcome: \<open>hash_collision\<close> (\<^verbatim>\<open>Engine_Log\<close>) is the log's refusal of an event
  whose hash is that of an event it has, though the canonical bytes are others; the binding of a validated
  event asks it of two given events only. Where a property needs the hash to be not empty or blank, a JSON value to exist,
  or the identifiers of the logged regions to be distinct, it says so, and its witness has an instance.

  \<^bold>\<open>Errors, order and partial effects.\<close> The operations of the engine write the state first, then the
  record, then the event, and undo nothing where a later step fails: an action returns the state it ends in
  with every result. In the C interface a call may return, be stuck on the lock it holds, or abort.

  \<^bold>\<open>What the theorems show.\<close> The value operations conserve or account for every unit (drain, transfer,
  projection and its settlement). Canonical bytes bind what they should: states, events, records. Event graphs:
  the check decides well-formedness, the order is a topological one, replay is sound and independent of the
  order of the log. The kernel: where the operations of a run return and the clock moves on, its history
  replays to exactly the states of its store and the regions it lists; an invariant of every reachable store, a
  log that only grows and is typed by its operations, regions that are created once and found by their names,
  transfers that succeed when the balances allow, and a run through the operations on vectors that reaches its
  end. The SDK and the Python class answer every sequence of calls as the kernel does; scripts and every
  sequence of calls of the C interface are runs of the kernel. Several theorems state what
  the code does against its intent: a transfer to oneself and a second settlement make value, a second
  origin breaks the replay for good, an origin too wide for an event is stored without one, a snapshot is
  verified without its root, and no operation of the C interface returns
  once it has taken effect: the handle is dead from then on.

  \<^bold>\<open>Bounds and termination.\<close> Lengths and counts are encoded in 64 bits; where a property depends on it, it
  assumes lists and strings shorter than \<open>2^64\<close> (\<open>ok_len\<close>). No loop is cut off by fuel: the loops are
  structural, or terminate by a measure (the Kahn loops by the edges that are left, the nonce search by the
  bound the code gives it, trimming and the lines of a script by the length). The ratios of the regions, 1000
  each, are summed in 64 bits: the replay property is about fewer than \<open>2^54\<close> regions.

  \<^bold>\<open>Not modelled.\<close> The conversion of the arguments of the Python methods by pyo3. The
  draw of random keys, whose result is an argument. The release of memory in the C interface. The generic
  store parameter of the engine: the sources have one store, and the model is the engine over it. The iteration order of
  \<open>HashMap\<close>s never shows in a result, since the sources sort before they use one.
\<close>

end
